(* ===== verification/Prelude.thy ===== *)
theory Prelude
  imports Complex_Main "HOL-Library.Multiset"
begin

text \<open>
  What every component of the development shares: Go's 64-bit integers and time values, the
  string functions of package \<^verbatim>\<open>strings\<close> the program calls, the stable sort of package
  \<^verbatim>\<open>sort\<close>, the result type of fallible stateful code, and the table operations the SQL
  statements of \<^verbatim>\<open>internal/repo\<close> are translated to.
\<close>

named_theorems table_simps \<open>rewrite rules for updating, looking up and counting table rows\<close>
named_theorems result_simps \<open>rewrite rules for sequenced fallible actions\<close>

section \<open>Integers and instants\<close>

text \<open>
  An instant of package \<^verbatim>\<open>time\<close> is its distance in nanoseconds from Go's zero time, so
  \<^verbatim>\<open>IsZero\<close> is equality with 0, \<^verbatim>\<open>Before\<close> and \<^verbatim>\<open>After\<close> are the order of
  \<open>int\<close>, and \<^verbatim>\<open>Add\<close> is addition. \<^verbatim>\<open>Sub\<close> saturates at the ends of the 64-bit
  range. A \<^verbatim>\<open>time.Duration\<close> is a signed 64-bit count of nanoseconds, whose
  multiplication wraps around.
\<close>

type_synonym time = int
type_synonym duration = int

definition max_i64 :: int where
  "max_i64 = 9223372036854775807"

definition min_i64 :: int where
  "min_i64 = -9223372036854775808"

definition wrap64 :: "int \<Rightarrow> int" where
  "wrap64 k = signed_take_bit 63 k"

definition time_sub :: "time \<Rightarrow> time \<Rightarrow> duration" where
  "time_sub t u = max min_i64 (min max_i64 (t - u))"

definition quot :: "int \<Rightarrow> int \<Rightarrow> int" where
  "quot a b = sgn a * sgn b * (\<bar>a\<bar> div \<bar>b\<bar>)"

abbreviation second :: duration where
  "second \<equiv> 1000000000"

abbreviation minute :: duration where
  "minute \<equiv> 60000000000"

abbreviation hour :: duration where
  "hour \<equiv> 3600000000000"

lemma wrap64_id:
  assumes "min_i64 \<le> k" and "k \<le> max_i64"
  shows "wrap64 k = k"
  using assms by (auto simp: wrap64_def min_i64_def max_i64_def intro!: signed_take_bit_int_eq_self)

lemma wrap64_range: "min_i64 \<le> wrap64 k \<and> wrap64 k \<le> max_i64"
  using signed_take_bit_int_greater_eq_minus_exp [of 63 k] signed_take_bit_int_less_exp [of 63 k]
  by (simp add: wrap64_def min_i64_def max_i64_def)

lemma time_sub_le_iff:
  assumes "min_i64 \<le> d" and "d < max_i64"
  shows "time_sub t u \<le> d \<longleftrightarrow> t - u \<le> d"
  using assms by (auto simp: time_sub_def min_i64_def max_i64_def)

lemma time_sub_less_iff:
  assumes "min_i64 < d" and "d \<le> max_i64"
  shows "time_sub t u < d \<longleftrightarrow> t - u < d"
  using assms by (auto simp: time_sub_def min_i64_def max_i64_def)

section \<open>Strings\<close>

text \<open>
  A Go string is its bytes, so a \<open>string\<close> of HOL, whose characters are bytes. The spaces that
  \<^verbatim>\<open>strings.TrimSpace\<close> removes are the runes of \<^verbatim>\<open>unicode.IsSpace\<close>, here by their UTF-8
  encodings. \<^verbatim>\<open>strings.ToLower\<close> maps ASCII strings byte by byte; on a string with a byte
  from 128 on it consults the Unicode tables, which are the parameter \<open>u\<close>.
\<close>

definition space_runes :: "string list" where
  "space_runes = [[CHR 0x09], [CHR 0x0A], [CHR 0x0B], [CHR 0x0C], [CHR 0x0D], [CHR 0x20],
     [CHR 0xC2, CHR 0x85], [CHR 0xC2, CHR 0xA0], [CHR 0xE1, CHR 0x9A, CHR 0x80]]
   @ map (\<lambda>c. [CHR 0xE2, CHR 0x80, c])
       [CHR 0x80, CHR 0x81, CHR 0x82, CHR 0x83, CHR 0x84, CHR 0x85, CHR 0x86, CHR 0x87, CHR 0x88,
        CHR 0x89, CHR 0x8A, CHR 0xA8, CHR 0xA9, CHR 0xAF]
   @ [[CHR 0xE2, CHR 0x81, CHR 0x9F], [CHR 0xE3, CHR 0x80, CHR 0x80]]"

fun strip_prefix :: "string \<Rightarrow> string \<Rightarrow> string option" where
  "strip_prefix [] s = Some s"
| "strip_prefix (c # cs) [] = None"
| "strip_prefix (c # cs) (d # ds) = (if c = d then strip_prefix cs ds else None)"

definition strip_any :: "string list \<Rightarrow> string \<Rightarrow> string option" where
  "strip_any ps s =
     (case filter (\<lambda>p. strip_prefix p s \<noteq> None) ps of [] \<Rightarrow> None | p # _ \<Rightarrow> strip_prefix p s)"

lemma strip_prefix_Some: "strip_prefix p s = Some t \<longleftrightarrow> s = p @ t"
  by (induction p s rule: strip_prefix.induct) auto

lemma strip_any_Some: "strip_any ps s = Some t \<Longrightarrow> \<exists>p \<in> set ps. s = p @ t"
proof -
  assume strip: "strip_any ps s = Some t"
  then obtain p qs where p: "filter (\<lambda>p. strip_prefix p s \<noteq> None) ps = p # qs"
    and t: "strip_prefix p s = Some t"
    by (auto simp: strip_any_def split: list.splits)
  from p have "p \<in> set (filter (\<lambda>p. strip_prefix p s \<noteq> None) ps)" by simp
  then have "p \<in> set ps" by simp
  with t show ?thesis by (auto simp: strip_prefix_Some)
qed

function trim_by :: "string list \<Rightarrow> string \<Rightarrow> string" where
  "trim_by ps s = (case strip_any (filter (\<lambda>p. p \<noteq> []) ps) s of None \<Rightarrow> s | Some t \<Rightarrow> trim_by ps t)"
  by pat_completeness auto
termination
  by (relation "measure (\<lambda>(ps, s). length s)") (auto dest!: strip_any_Some)

declare trim_by.simps [simp del]

definition trim_space :: "string \<Rightarrow> string" where
  "trim_space s = rev (trim_by (map rev space_runes) (rev (trim_by space_runes s)))"

definition ascii_lower :: "char \<Rightarrow> char" where
  "ascii_lower c = (if 65 \<le> (of_char c :: nat) \<and> (of_char c :: nat) \<le> 90
     then char_of ((of_char c :: nat) + 32) else c)"

definition to_lower :: "(string \<Rightarrow> string) \<Rightarrow> string \<Rightarrow> string" where
  "to_lower u s = (if list_all (\<lambda>c. (of_char c :: nat) < 128) s then map ascii_lower s else u s)"

text \<open>\<^verbatim>\<open>%d\<close> of package \<^verbatim>\<open>fmt\<close>.\<close>

definition digit :: "nat \<Rightarrow> char" where
  "digit n = char_of (48 + n)"

fun show_nat :: "nat \<Rightarrow> string" where
  "show_nat n = (if n < 10 then [digit n] else show_nat (n div 10) @ [digit (n mod 10)])"

declare show_nat.simps [simp del]

definition show_int :: "int \<Rightarrow> string" where
  "show_int i = (if i < 0 then CHR ''-'' # show_nat (nat (- i)) else show_nat (nat i))"

text \<open>What is left of a string whose ends are no spaces stays as it is.\<close>

lemma trim_by_fixpoint:
  "strip_any (filter (\<lambda>p. p \<noteq> []) ps) (trim_by ps s) = None"
proof (induction ps s rule: trim_by.induct)
  case (1 ps s)
  then show ?case
    by (cases "strip_any (filter (\<lambda>p. p \<noteq> []) ps) s") (simp_all add: trim_by.simps [of ps s])
qed

lemma trim_by_idem [simp]: "trim_by ps (trim_by ps s) = trim_by ps s"
  using trim_by_fixpoint [of ps s] by (subst trim_by.simps) simp

lemma trim_by_suffix: "\<exists>p. s = p @ trim_by ps s"
proof (induction ps s rule: trim_by.induct)
  case (1 ps s)
  show ?case
  proof (cases "strip_any (filter (\<lambda>p. p \<noteq> []) ps) s")
    case None
    then show ?thesis by (simp add: trim_by.simps [of ps s])
  next
    case (Some t)
    with "1.IH" obtain q where q: "t = q @ trim_by ps t" by blast
    from strip_any_Some [OF Some] obtain p where "s = p @ t" by blast
    with q have "s = (p @ q) @ trim_by ps t" by simp
    moreover from Some have "trim_by ps s = trim_by ps t"
      by (simp add: trim_by.simps [of ps s])
    ultimately show ?thesis by metis
  qed
qed

lemma trim_space_infix: "\<exists>p q. s = p @ trim_space s @ q"
proof -
  obtain p where p: "s = p @ trim_by space_runes s"
    using trim_by_suffix by blast
  obtain q where q: "rev (trim_by space_runes s) = q @ trim_by (map rev space_runes) (rev (trim_by space_runes s))"
    using trim_by_suffix by blast
  from q have "trim_by space_runes s = trim_space s @ rev q"
    unfolding trim_space_def by (metis rev_append rev_rev_ident)
  with p show ?thesis by metis
qed

lemma trim_space_Nil [simp]: "trim_space [] = []"
  using trim_space_infix [of "[]"] by simp

lemma length_trim_space: "length (trim_space s) \<le> length s"
proof -
  obtain p q where "s = p @ trim_space s @ q" using trim_space_infix by blast
  then have "length s = length (p @ trim_space s @ q)" by (rule arg_cong)
  then show ?thesis by simp
qed

section \<open>Sorting\<close>

text \<open>
  \<^verbatim>\<open>sort.SliceStable(xs, lt)\<close> returns the sorted rearrangement of \<open>xs\<close> that keeps the
  order of elements neither of which is less than the other. For a strict weak order that
  result is unique, and insertion from the right computes it. \<^verbatim>\<open>sort.Slice\<close> promises
  no more than some sorted rearrangement: \<open>sorts\<close> states that promise for a sorting function.
\<close>

fun insert_stable :: "('a \<Rightarrow> 'a \<Rightarrow> bool) \<Rightarrow> 'a \<Rightarrow> 'a list \<Rightarrow> 'a list" where
  "insert_stable lt x [] = [x]"
| "insert_stable lt x (y # ys) =
     (if lt y x then y # insert_stable lt x ys else x # y # ys)"

definition slice_stable :: "('a \<Rightarrow> 'a \<Rightarrow> bool) \<Rightarrow> 'a list \<Rightarrow> 'a list" where
  "slice_stable lt xs = foldr (insert_stable lt) xs []"

definition sorts :: "('a \<Rightarrow> 'a \<Rightarrow> bool) \<Rightarrow> ('a list \<Rightarrow> 'a list) \<Rightarrow> bool" where
  "sorts lt srt \<longleftrightarrow>
     (\<forall>xs. mset (srt xs) = mset xs \<and> sorted_wrt (\<lambda>a b. \<not> lt b a) (srt xs))"

lemma slice_stable_Nil [simp]: "slice_stable lt [] = []"
  by (simp add: slice_stable_def)

lemma slice_stable_Cons [simp]:
  "slice_stable lt (x # xs) = insert_stable lt x (slice_stable lt xs)"
  by (simp add: slice_stable_def)

lemma mset_insert_stable: "mset (insert_stable lt x xs) = add_mset x (mset xs)"
  by (induction xs) auto

lemma mset_slice_stable [simp]: "mset (slice_stable lt xs) = mset xs"
  by (induction xs) (auto simp: mset_insert_stable)

lemma set_insert_stable [simp]: "set (insert_stable lt x xs) = insert x (set xs)"
  by (induction xs) auto

lemma set_slice_stable [simp]: "set (slice_stable lt xs) = set xs"
  by (induction xs) auto

lemma length_slice_stable [simp]: "length (slice_stable lt xs) = length xs"
  by (metis mset_slice_stable size_mset)

locale weak_order =
  fixes lt :: "'a \<Rightarrow> 'a \<Rightarrow> bool"
  assumes lt_irrefl: "\<not> lt x x"
    and lt_trans: "lt x y \<Longrightarrow> lt y z \<Longrightarrow> lt x z"
    and lt_neg_trans: "lt x z \<Longrightarrow> lt x y \<or> lt y z"
begin

lemma lt_asym: "lt x y \<Longrightarrow> \<not> lt y x"
  using lt_irrefl lt_trans by blast

lemma not_less_trans: "\<not> lt y x \<Longrightarrow> \<not> lt z y \<Longrightarrow> \<not> lt z x"
  using lt_neg_trans by blast

lemma sorted_insert_stable:
  "sorted_wrt (\<lambda>a b. \<not> lt b a) xs \<Longrightarrow> sorted_wrt (\<lambda>a b. \<not> lt b a) (insert_stable lt x xs)"
proof (induction xs)
  case Nil
  then show ?case by simp
next
  case (Cons y ys)
  then show ?case
    by (auto dest: lt_asym) (meson lt_neg_trans)
qed

lemma sorted_slice_stable: "sorted_wrt (\<lambda>a b. \<not> lt b a) (slice_stable lt xs)"
  by (induction xs) (auto intro: sorted_insert_stable)

lemma sorts_slice_stable: "sorts lt (slice_stable lt)"
  by (simp add: sorts_def sorted_slice_stable)

lemma filter_insert_stable:
  "filter (\<lambda>y. \<not> lt k y \<and> \<not> lt y k) (insert_stable lt x xs) =
     filter (\<lambda>y. \<not> lt k y \<and> \<not> lt y k) (x # xs)"
proof (induction xs)
  case Nil
  then show ?case by simp
next
  case (Cons y ys)
  show ?case
  proof (cases "lt y x")
    case True
    then have "(lt k x \<or> lt x k) \<or> (lt k y \<or> lt y k)"
      using lt_neg_trans [of y x k] by blast
    with True Cons.IH show ?thesis by auto
  next
    case False
    then show ?thesis by simp
  qed
qed

text \<open>Stability: the elements equivalent to any \<open>k\<close> keep their order.\<close>

lemma slice_stable_stable:
  "filter (\<lambda>y. \<not> lt k y \<and> \<not> lt y k) (slice_stable lt xs) =
     filter (\<lambda>y. \<not> lt k y \<and> \<not> lt y k) xs"
  by (induction xs) (auto simp: filter_insert_stable)

end

text \<open>Comparing by a key is a strict weak order, whatever the key.\<close>

interpretation by_key: weak_order "\<lambda>a b. key a < key b"
  for key :: "'a \<Rightarrow> 'k :: linorder"
  by unfold_locales auto

lemma sorted_by_key:
  "sorted_wrt (\<lambda>a b. \<not> key b < (key a :: 'k :: linorder)) xs = sorted (map key xs)"
  by (simp add: sorted_map not_less)

lemma sorted_slice_stable_key:
  "sorted (map key (slice_stable (\<lambda>a b. key a < (key b :: 'k :: linorder)) xs))"
  using by_key.sorted_slice_stable [of key xs] by (simp add: sorted_by_key)

lemma sortsD:
  assumes "sorts (\<lambda>a b. key a < (key b :: 'k :: linorder)) srt"
  shows "mset (srt xs) = mset xs" and "set (srt xs) = set xs" and "sorted (map key (srt xs))"
    and "length (srt xs) = length xs"
proof -
  from assms show m: "mset (srt xs) = mset xs" by (simp add: sorts_def)
  then show "set (srt xs) = set xs" by (metis set_mset_mset)
  from m show "length (srt xs) = length xs" by (metis size_mset)
  from assms show "sorted (map key (srt xs))"
    unfolding sorts_def sorted_by_key by blast
qed

text \<open>A symmetric relation between all pairs of positions does not depend on the order.\<close>

lemma pair_subset_add_mset:
  "{#x, y#} \<subseteq># add_mset a M \<longleftrightarrow>
     (x = a \<and> y \<in># M) \<or> (y = a \<and> x \<in># M) \<or> {#x, y#} \<subseteq># M"
proof -
  have "{#x, y#} \<subseteq># N \<longleftrightarrow> x \<in># N \<and> y \<in># N - {#x#}" for N
    by (simp add: insert_subset_eq_iff)
  then show ?thesis
    by (cases "x = a") (auto simp: insert_subset_eq_iff dest: in_diffD)
qed

lemma sorted_wrt_pairs:
  assumes sym: "\<And>x y. R x y \<Longrightarrow> R y x"
  shows "sorted_wrt R xs \<longleftrightarrow> (\<forall>x y. {#x, y#} \<subseteq># mset xs \<longrightarrow> R x y)"
proof (induction xs)
  case Nil
  then show ?case by simp
next
  case (Cons a xs)
  then show ?case by (auto simp: pair_subset_add_mset dest: sym)
qed

lemma sorted_wrt_permute:
  assumes "\<And>x y. R x y \<Longrightarrow> R y x" and "mset xs = mset ys"
  shows "sorted_wrt R xs = sorted_wrt R ys"
  using sorted_wrt_pairs [of R xs, OF assms(1)] sorted_wrt_pairs [of R ys, OF assms(1)] assms(2)
  by simp

end
