(* ===== verification/Go_Errors.thy ===== *)
theory Go_Errors
  imports Prelude
begin

text \<open>
  The error values of the program and how they are inspected: the sentinels of
  \<^verbatim>\<open>internal/model/model.go\<close>, the context and driver errors, the wrappers built by
  \<^verbatim>\<open>fmt.Errorf\<close> with \<^verbatim>\<open>%w\<close> and by \<^verbatim>\<open>errors.Join\<close>, the classification of database
  errors (\<^verbatim>\<open>internal/repo/errors.go\<close>), the service error codes
  (\<^verbatim>\<open>internal/service/errors.go\<close>) and their translation to HTTP
  (\<^verbatim>\<open>internal/httpapi/errors.go\<close>). The last section sequences fallible stateful actions.
\<close>

section \<open>Error values\<close>

text \<open>
  \<open>PgError c m\<close> is a \<^verbatim>\<open>*pq.Error\<close> with code \<open>c\<close>; \<open>ErrorString\<close> is any error made by
  \<^verbatim>\<open>errors.New\<close> or a \<^verbatim>\<open>fmt.Errorf\<close> that wraps nothing. \<open>Wrapf a e b\<close> is
  \<^verbatim>\<open>fmt.Errorf\<close> with one \<^verbatim>\<open>%w\<close>, \<open>a\<close> and \<open>b\<close> the text before and after it.
\<close>

datatype err =
    ErrNotFound | ErrConflict | ErrInvalid | ErrForbidden | ErrBusy
  | Canceled | DeadlineExceeded
  | ErrNoRows
  | PgError string string
  | ErrorString string
  | Wrapf string err string
  | Classified err err
  | Joined "err list"
  | AppError string string err

fun join_lines :: "string list \<Rightarrow> string" where
  "join_lines [] = []"
| "join_lines [l] = l"
| "join_lines (l # ls) = l @ [CHR 0x0A] @ join_lines ls"

text \<open>\<^verbatim>\<open>Error()\<close>.\<close>

fun err_text :: "err \<Rightarrow> string" where
  "err_text ErrNotFound = ''record not found''"
| "err_text ErrConflict = ''record conflict''"
| "err_text ErrInvalid = ''invalid request''"
| "err_text ErrForbidden = ''operation forbidden''"
| "err_text ErrBusy = ''resource busy''"
| "err_text Canceled = ''context canceled''"
| "err_text DeadlineExceeded = ''context deadline exceeded''"
| "err_text ErrNoRows = ''sql: no rows in result set''"
| "err_text (PgError code msg) = ''pq: '' @ msg"
| "err_text (ErrorString s) = s"
| "err_text (Wrapf a e b) = a @ err_text e @ b"
| "err_text (Classified public cause) = err_text public"
| "err_text (Joined es) = join_lines (map err_text es)"
| "err_text (AppError code op e) = code @ '': '' @ op @ '': '' @ err_text e"

text \<open>
  \<^verbatim>\<open>errors.Is(err, target)\<close> for a sentinel \<open>target\<close>: the error itself or one it wraps.
  \<^verbatim>\<open>errors.As\<close> finds the first error of the wanted type, an error before what it wraps.
\<close>

fun err_is :: "err \<Rightarrow> err \<Rightarrow> bool" where
  "err_is (Wrapf a e b) t = (Wrapf a e b = t \<or> err_is e t)"
| "err_is (Classified public cause) t =
     (Classified public cause = t \<or> err_is public t \<or> err_is cause t)"
| "err_is (Joined es) t = (Joined es = t \<or> list_ex (\<lambda>e. err_is e t) es)"
| "err_is (AppError code op e) t = (AppError code op e = t \<or> err_is e t)"
| "err_is e t = (e = t)"

fun first_Some :: "'a option list \<Rightarrow> 'a option" where
  "first_Some [] = None"
| "first_Some (Some x # xs) = Some x"
| "first_Some (None # xs) = first_Some xs"

fun as_pg :: "err \<Rightarrow> (string \<times> string) option" where
  "as_pg (PgError code msg) = Some (code, msg)"
| "as_pg (Wrapf a e b) = as_pg e"
| "as_pg (Classified public cause) = first_Some [as_pg public, as_pg cause]"
| "as_pg (Joined es) = first_Some (map as_pg es)"
| "as_pg (AppError code op e) = as_pg e"
| "as_pg e = None"

fun as_app :: "err \<Rightarrow> string option" where
  "as_app (AppError code op e) = Some code"
| "as_app (Wrapf a e b) = as_app e"
| "as_app (Classified public cause) = first_Some [as_app public, as_app cause]"
| "as_app (Joined es) = first_Some (map as_app es)"
| "as_app e = None"

definition wrap_op :: "string \<Rightarrow> err \<Rightarrow> err" where
  "wrap_op op e = Wrapf (op @ '': '') e []"

definition is_cancellation :: "err \<Rightarrow> bool" where
  "is_cancellation e \<longleftrightarrow> err_is e Canceled \<or> err_is e DeadlineExceeded"

lemma err_is_wrap_op [simp]:
  "(\<And>a b. t \<noteq> Wrapf a e b) \<Longrightarrow> err_is (wrap_op op e) t = err_is e t"
  by (auto simp: wrap_op_def)

section \<open>internal/repo/errors.go\<close>

definition classify_write_error :: "err \<Rightarrow> err" where
  "classify_write_error e =
     (case as_pg e of
        None \<Rightarrow> e
      | Some (code, msg) \<Rightarrow>
          if code \<in> {''23505'', ''23503'', ''40001'', ''40P01''} then Classified ErrConflict e
          else if code \<in> {''23502'', ''23514'', ''22001'', ''22P02''} then Classified ErrInvalid e
          else e)"

definition classify_read_error :: "err \<Rightarrow> err" where
  "classify_read_error e =
     (if err_is e ErrNoRows then Classified ErrNotFound e else classify_write_error e)"

section \<open>internal/service/errors.go\<close>

definition service_wrap :: "string \<Rightarrow> string \<Rightarrow> err option \<Rightarrow> err option" where
  "service_wrap code op e = (case e of None \<Rightarrow> None | Some e \<Rightarrow> Some (AppError code op e))"

definition is_code :: "err option \<Rightarrow> string \<Rightarrow> bool" where
  "is_code e code = (case e of None \<Rightarrow> False | Some e \<Rightarrow> as_app e = Some code)"

section \<open>internal/httpapi/errors.go\<close>

text \<open>A nil error falls through to the default branch of the \<^verbatim>\<open>switch\<close>.\<close>

definition ErrorCode :: "err option \<Rightarrow> string" where
  "ErrorCode e =
     (let is = (\<lambda>t. case e of None \<Rightarrow> False | Some e \<Rightarrow> err_is e t) in
      if is ErrInvalid then ''invalid_request''
      else if is ErrForbidden then ''forbidden''
      else if is ErrNotFound then ''not_found''
      else if is ErrConflict then ''conflict''
      else ''internal_error'')"

definition ErrorStatus :: "err option \<Rightarrow> nat" where
  "ErrorStatus e =
     (let c = ErrorCode e in
      if c = ''invalid_request'' then 400
      else if c = ''forbidden'' then 403
      else if c = ''not_found'' then 404
      else if c = ''conflict'' then 409
      else 500)"

record error_body =
  eb_Code :: string
  eb_Message :: string
  eb_RequestID :: string

text \<open>The status and body \<^verbatim>\<open>WriteStructuredError\<close> sends, \<open>rid\<close> the context's request id.\<close>

definition WriteStructuredError :: "string \<Rightarrow> err option \<Rightarrow> nat \<times> error_body" where
  "WriteStructuredError rid e =
     (let message = (case e of
            Some e' \<Rightarrow> if ErrorStatus e < 500 then trim_space (err_text e') else ''internal server error''
          | None \<Rightarrow> ''internal server error'')
      in (ErrorStatus e, \<lparr>eb_Code = ErrorCode e, eb_Message = message, eb_RequestID = rid\<rparr>))"

lemma ErrorCode_wrapped [simp]: "ErrorCode (Some (Wrapf a e b)) = ErrorCode (Some e)"
  by (simp add: ErrorCode_def)

lemma ErrorStatus_wrapped [simp]: "ErrorStatus (Some (Wrapf a e b)) = ErrorStatus (Some e)"
  by (simp add: ErrorStatus_def)

lemma ErrorStatus_wrap_op [simp]: "ErrorStatus (Some (wrap_op op e)) = ErrorStatus (Some e)"
  by (simp add: wrap_op_def)

lemma ErrorStatus_sentinel [simp]:
  "ErrorStatus (Some ErrInvalid) = 400"
  "ErrorStatus (Some ErrForbidden) = 403"
  "ErrorStatus (Some ErrNotFound) = 404"
  "ErrorStatus (Some ErrConflict) = 409"
  "ErrorStatus (Some ErrBusy) = 500"
  "ErrorStatus (Some (ErrorString s)) = 500"
  "ErrorStatus None = 500"
  by (simp_all add: ErrorStatus_def ErrorCode_def)

text \<open>What the driver's error for a violated constraint becomes for the client.\<close>

lemma classify_write_PgError:
  "classify_write_error (PgError code msg) =
     (if code \<in> {''23505'', ''23503'', ''40001'', ''40P01''} then Classified ErrConflict (PgError code msg)
      else if code \<in> {''23502'', ''23514'', ''22001'', ''22P02''} then Classified ErrInvalid (PgError code msg)
      else PgError code msg)"
  by (simp add: classify_write_error_def)

lemma ErrorStatus_classified:
  "ErrorStatus (Some (classify_write_error (PgError code msg))) =
     (if code \<in> {''23505'', ''23503'', ''40001'', ''40P01''} then 409
      else if code \<in> {''23502'', ''23514'', ''22001'', ''22P02''} then 400 else 500)"
  by (simp add: classify_write_PgError ErrorStatus_def ErrorCode_def)

lemma ErrorStatus_read_no_rows [simp]:
  "ErrorStatus (Some (classify_read_error ErrNoRows)) = 404"
  by (simp add: classify_read_error_def ErrorStatus_def ErrorCode_def)

text \<open>
  The status of an error is one of five, and only errors the code chose to expose get one below
  500; the text of any other error never reaches the client.
\<close>

lemma ErrorStatus_cases: "ErrorStatus e \<in> {400, 403, 404, 409, 500}"
  by (simp add: ErrorStatus_def Let_def)

lemma WriteStructuredError_hides:
  assumes "fst (WriteStructuredError rid e) = 500"
  shows "eb_Message (snd (WriteStructuredError rid e)) = ''internal server error''"
  using assms by (auto simp: WriteStructuredError_def Let_def split: option.splits)

section \<open>Fallible actions on a state\<close>

text \<open>
  A Go function that may fail and change a state is a function from the state to its outcome
  (the error or the result) and the state after it.
\<close>

type_synonym ('w, 'a) action = "'w \<Rightarrow> (err + 'a) \<times> 'w"

definition ret :: "'a \<Rightarrow> ('w, 'a) action" where
  "ret x w = (Inr x, w)"

definition fail :: "err \<Rightarrow> ('w, 'a) action" where
  "fail e w = (Inl e, w)"

definition and_then :: "('w, 'a) action \<Rightarrow> ('a \<Rightarrow> ('w, 'b) action) \<Rightarrow> ('w, 'b) action" where
  "and_then m k w = (case m w of (Inl e, w') \<Rightarrow> (Inl e, w') | (Inr x, w') \<Rightarrow> k x w')"

definition map_err :: "(err \<Rightarrow> err) \<Rightarrow> ('w, 'a) action \<Rightarrow> ('w, 'a) action" where
  "map_err g m w = (case m w of (Inl e, w') \<Rightarrow> (Inl (g e), w') | (Inr x, w') \<Rightarrow> (Inr x, w'))"

fun for_each :: "('a \<Rightarrow> ('w, unit) action) \<Rightarrow> 'a list \<Rightarrow> ('w, unit) action" where
  "for_each f [] = ret ()"
| "for_each f (x # xs) = and_then (f x) (\<lambda>_. for_each f xs)"

lemma ret_apply [simp]: "ret x w = (Inr x, w)"
  by (simp add: ret_def)

lemma fail_apply [simp]: "fail e w = (Inl e, w)"
  by (simp add: fail_def)

lemma and_then_Inl [result_simps]: "m w = (Inl e, w') \<Longrightarrow> and_then m k w = (Inl e, w')"
  by (simp add: and_then_def)

lemma and_then_Inr [result_simps]: "m w = (Inr x, w') \<Longrightarrow> and_then m k w = k x w'"
  by (simp add: and_then_def)

lemma and_then_eq_Inr:
  "and_then m k w = (Inr y, w'') \<longleftrightarrow> (\<exists>x w'. m w = (Inr x, w') \<and> k x w' = (Inr y, w''))"
  by (auto simp: and_then_def split: prod.splits sum.splits)

lemma and_then_eq_Inl:
  "and_then m k w = (Inl e, w'') \<longleftrightarrow>
     m w = (Inl e, w'') \<or> (\<exists>x w'. m w = (Inr x, w') \<and> k x w' = (Inl e, w''))"
  by (auto simp: and_then_def split: prod.splits sum.splits)

lemma map_err_eq_Inr [simp]: "map_err g m w = (Inr y, w') \<longleftrightarrow> m w = (Inr y, w')"
  by (auto simp: map_err_def split: prod.splits sum.splits)

lemma map_err_eq_Inl: "map_err g m w = (Inl e, w') \<longleftrightarrow> (\<exists>e'. m w = (Inl e', w') \<and> e = g e')"
  by (auto simp: map_err_def split: prod.splits sum.splits)

lemma snd_map_err [simp]: "snd (map_err g m w) = snd (m w)"
  by (auto simp: map_err_def split: prod.splits sum.splits)

text \<open>An invariant of the state kept by the steps is kept by their sequence.\<close>

definition keeps :: "('w \<Rightarrow> bool) \<Rightarrow> ('w, 'a) action \<Rightarrow> bool" where
  "keeps P m \<longleftrightarrow> (\<forall>w. P w \<longrightarrow> P (snd (m w)))"

lemma keepsI: "(\<And>w. P w \<Longrightarrow> P (snd (m w))) \<Longrightarrow> keeps P m"
  by (simp add: keeps_def)

lemma keepsD: "keeps P m \<Longrightarrow> P w \<Longrightarrow> P (snd (m w))"
  by (simp add: keeps_def)

lemma keeps_ret [intro, simp]: "keeps P (ret x)"
  by (simp add: keeps_def)

lemma keeps_fail [intro, simp]: "keeps P (fail e)"
  by (simp add: keeps_def)

lemma keeps_map_err [intro]: "keeps P m \<Longrightarrow> keeps P (map_err g m)"
  by (simp add: keeps_def)

lemma keeps_and_then [intro]:
  assumes "keeps P m" and "\<And>x. keeps P (k x)"
  shows "keeps P (and_then m k)"
proof (rule keepsI)
  fix w
  assume "P w"
  with assms(1) have "P (snd (m w))" by (rule keepsD)
  with assms(2) show "P (snd (and_then m k w))"
    by (auto simp: and_then_def keeps_def split: prod.splits sum.splits)
qed

lemma keeps_for_each [intro]: "(\<And>x. keeps P (f x)) \<Longrightarrow> keeps P (for_each f xs)"
  by (induction xs) auto

lemma keeps_if [intro]:
  "(c \<Longrightarrow> keeps P m) \<Longrightarrow> (\<not> c \<Longrightarrow> keeps P n) \<Longrightarrow> keeps P (if c then m else n)"
  by simp

end
