(* ===== verification/Go_Float.thy ===== *)
theory Go_Float
  imports Prelude
begin

text \<open>
  Go's \<^verbatim>\<open>float64\<close>: an IEEE 754 binary64 value is a rational number, an infinity or NaN, and
  an arithmetic operation rounds the exact result to the nearest representable value, ties to
  even. The sign of zero is not kept: no operation of the program tells the two zeros apart.
  The order is Go's, in which every comparison with NaN is false.
\<close>

datatype f64 = Fin rat | PosInf | NegInf | NaN

definition pow2 :: "int \<Rightarrow> rat" where
  "pow2 k = (if 0 \<le> k then 2 ^ nat k else 1 / 2 ^ nat (- k))"

text \<open>The exponent of the leading bit of a positive rational, by halving and doubling.\<close>

fun bit_width :: "nat \<Rightarrow> nat" where
  "bit_width n = (if n = 0 then 0 else Suc (bit_width (n div 2)))"

declare bit_width.simps [simp del]

definition leading_exponent :: "rat \<Rightarrow> int" where
  "leading_exponent q =
     (let (a, b) = quotient_of q;
          e = int (bit_width (nat a)) - int (bit_width (nat b))
      in if q < pow2 e then e - 1 else e)"

definition round_half_even :: "rat \<Rightarrow> int" where
  "round_half_even x =
     (let n = \<lfloor>x\<rfloor>; d = x - of_int n in
      if d < 1 / 2 then n else if 1 / 2 < d then n + 1 else if even n then n else n + 1)"

definition round_magnitude :: "rat \<Rightarrow> f64" where
  "round_magnitude q =
     (let u = pow2 (max (leading_exponent q - 52) (-1074));
          r = of_int (round_half_even (q / u)) * u
      in if pow2 1024 \<le> r then PosInf else Fin r)"

fun f64_neg :: "f64 \<Rightarrow> f64" where
  "f64_neg (Fin q) = Fin (- q)"
| "f64_neg PosInf = NegInf"
| "f64_neg NegInf = PosInf"
| "f64_neg NaN = NaN"

definition round64 :: "rat \<Rightarrow> f64" where
  "round64 q = (if q = 0 then Fin 0 else if 0 < q then round_magnitude q
     else f64_neg (round_magnitude (- q)))"

fun f64_add :: "f64 \<Rightarrow> f64 \<Rightarrow> f64" where
  "f64_add (Fin a) (Fin b) = round64 (a + b)"
| "f64_add NaN y = NaN"
| "f64_add x NaN = NaN"
| "f64_add PosInf NegInf = NaN"
| "f64_add NegInf PosInf = NaN"
| "f64_add PosInf y = PosInf"
| "f64_add NegInf y = NegInf"
| "f64_add x PosInf = PosInf"
| "f64_add x NegInf = NegInf"

text \<open>Division by a count: the divisor is always a positive integer of the program.\<close>

fun f64_div_count :: "f64 \<Rightarrow> nat \<Rightarrow> f64" where
  "f64_div_count (Fin a) n = (case round64 (of_nat n) of Fin d \<Rightarrow> round64 (a / d) | _ \<Rightarrow> Fin 0)"
| "f64_div_count x n = x"

fun f64_less :: "f64 \<Rightarrow> f64 \<Rightarrow> bool" where
  "f64_less (Fin a) (Fin b) = (a < b)"
| "f64_less (Fin a) PosInf = True"
| "f64_less NegInf (Fin b) = True"
| "f64_less NegInf PosInf = True"
| "f64_less x y = False"

fun f64_eq :: "f64 \<Rightarrow> f64 \<Rightarrow> bool" where
  "f64_eq NaN y = False"
| "f64_eq x NaN = False"
| "f64_eq x y = (x = y)"

instantiation f64 :: ord
begin

definition less_f64 :: "f64 \<Rightarrow> f64 \<Rightarrow> bool" where
  "less_f64 = f64_less"

definition less_eq_f64 :: "f64 \<Rightarrow> f64 \<Rightarrow> bool" where
  "less_eq_f64 x y = (f64_less x y \<or> f64_eq x y)"

instance ..

end

instantiation f64 :: "{zero, plus}"
begin

definition zero_f64 :: f64 where
  "zero_f64 = Fin 0"

definition plus_f64 :: "f64 \<Rightarrow> f64 \<Rightarrow> f64" where
  "plus_f64 = f64_add"

instance ..

end

definition is_nan :: "f64 \<Rightarrow> bool" where
  "is_nan x \<longleftrightarrow> x = NaN"

definition is_inf :: "f64 \<Rightarrow> bool" where
  "is_inf x \<longleftrightarrow> x = PosInf \<or> x = NegInf"

section \<open>Order\<close>

lemma f64_less_simps [simp]:
  "(Fin a < Fin b) = (a < b)" "(Fin a < PosInf) = True" "(NegInf < Fin b) = True"
  "(NegInf < PosInf) = True" "(NaN < y) = False" "(x < NaN) = False" "(PosInf < y) = False"
  "(x < NegInf) = False"
  by (cases y; cases x; simp add: less_f64_def)+

lemma f64_le_simps [simp]:
  "(Fin a \<le> Fin b) = (a \<le> b)" "(Fin a \<le> PosInf) = True" "(NegInf \<le> Fin b) = True"
  "(NegInf \<le> PosInf) = True" "(NaN \<le> y) = False" "(x \<le> NaN) = False"
  "(PosInf \<le> PosInf) = True" "(NegInf \<le> NegInf) = True" "(PosInf \<le> Fin b) = False"
  "(Fin a \<le> NegInf) = False" "(PosInf \<le> NegInf) = False"
  by (cases y; cases x; auto simp: less_eq_f64_def less_f64_def)+

lemma f64_zero_simps [simp]:
  "(Fin a < 0) = (a < 0)" "(0 < Fin a) = (0 < a)" "(0 \<le> Fin a) = (0 \<le> a)" "(Fin a \<le> 0) = (a \<le> 0)"
  "(PosInf < 0) = False" "(0 < PosInf) = True" "(0 \<le> PosInf) = True"
  "(NegInf < 0) = True" "(0 \<le> NegInf) = False"
  by (simp_all add: zero_f64_def)

lemma f64_not_less: "x \<noteq> NaN \<Longrightarrow> y \<noteq> NaN \<Longrightarrow> \<not> x < y \<longleftrightarrow> y \<le> (x :: f64)"
  by (cases x; cases y) auto

lemma f64_le_trans: "x \<le> y \<Longrightarrow> y \<le> z \<Longrightarrow> x \<le> (z :: f64)"
  by (cases x; cases y; cases z) auto

lemma f64_le_refl: "x \<noteq> NaN \<Longrightarrow> x \<le> (x :: f64)"
  by (cases x) auto

section \<open>Rounding\<close>

lemma pow2_pos [simp]: "0 < pow2 k"
  by (simp add: pow2_def)

lemma round_half_even_nonneg: "0 \<le> x \<Longrightarrow> 0 \<le> round_half_even x"
  by (auto simp: round_half_even_def Let_def)

lemma round_magnitude_nonneg:
  assumes "0 \<le> q"
  shows "0 \<le> round_magnitude q"
proof -
  define u where "u = pow2 (max (leading_exponent q - 52) (-1074))"
  have u: "0 < u" by (simp add: u_def)
  with assms have "0 \<le> q / u" by simp
  then have "0 \<le> round_half_even (q / u)" by (rule round_half_even_nonneg)
  with u show ?thesis by (simp add: round_magnitude_def Let_def flip: u_def)
qed

lemma round64_nonneg: "0 \<le> q \<Longrightarrow> 0 \<le> round64 q"
  using round_magnitude_nonneg [of q] by (auto simp: round64_def)

lemma round64_0 [simp]: "round64 0 = Fin 0"
  by (simp add: round64_def)

lemma round_magnitude_cases: "\<exists>r. round_magnitude q = PosInf \<or> round_magnitude q = Fin r"
  by (simp add: round_magnitude_def Let_def)

lemma round64_not_NaN [simp]: "round64 q \<noteq> NaN"
  using round_magnitude_cases [of q] round_magnitude_cases [of "- q"]
  by (auto simp: round64_def)

lemma f64_add_nonneg:
  assumes "0 \<le> x" and "0 \<le> (y :: f64)"
  shows "0 \<le> x + y"
  using assms by (cases x; cases y) (simp_all add: plus_f64_def round64_nonneg)

text \<open>Integers below $2^{53}$ are represented exactly.\<close>

lemma bit_width_le: "n < 2 ^ k \<Longrightarrow> bit_width n \<le> k"
proof (induction k arbitrary: n)
  case 0
  then show ?case by (simp add: bit_width.simps)
next
  case (Suc k)
  then have "n div 2 < 2 ^ k" by auto
  with Suc.IH have "bit_width (n div 2) \<le> k" by blast
  then show ?case by (simp add: bit_width.simps [of n])
qed

lemma round_half_even_of_int [simp]: "round_half_even (of_int n) = n"
  by (simp add: round_half_even_def Let_def)

lemma pow2_neg: "k \<le> 0 \<Longrightarrow> pow2 k = 1 / 2 ^ nat (- k)"
  by (auto simp: pow2_def)

lemma pow2_1024: "pow2 1024 = 2 ^ 1024"
  unfolding pow2_def by (simp del: power_numeral)

lemma leading_exponent_of_nat:
  assumes "n < 2 ^ 53"
  shows "leading_exponent (of_nat n) \<le> 52"
proof -
  have "quotient_of (of_nat n) = (int n, 1)"
    by (simp add: normalize_def quotient_of_Fract flip: Fract_of_nat_eq)
  moreover have "bit_width (Suc 0) = 1" by (simp add: bit_width.simps)
  ultimately show ?thesis
    using bit_width_le [OF assms] by (simp add: leading_exponent_def Let_def)
qed

lemma round_magnitude_of_nat:
  assumes n: "n < 2 ^ 53"
  shows "round_magnitude (of_nat n) = Fin (of_nat n)"
proof -
  define k where "k = max (leading_exponent (of_nat n) - 52) (-1074)"
  from leading_exponent_of_nat [OF n] have "k \<le> 0" by (simp add: k_def)
  then have u: "pow2 k = 1 / 2 ^ nat (- k)" by (rule pow2_neg)
  have "of_nat n / pow2 k = (of_int (int n * 2 ^ nat (- k)) :: rat)"
    by (simp add: u)
  then have r: "of_int (round_half_even (of_nat n / pow2 k)) * pow2 k = (of_nat n :: rat)"
    by (simp only: round_half_even_of_int) (simp add: u)
  have "(of_nat n :: rat) < of_nat (2 ^ 53)" using n by (simp only: of_nat_less_iff)
  also have "\<dots> = 2 ^ 53" by (simp only: of_nat_power of_nat_numeral)
  also have "\<dots> \<le> 2 ^ 1024" by (rule power_increasing) simp_all
  finally have "\<not> pow2 1024 \<le> (of_nat n :: rat)" by (simp only: pow2_1024 not_le)
  with r show ?thesis by (simp add: round_magnitude_def Let_def flip: k_def)
qed

lemma round64_of_nat: "n < 2 ^ 53 \<Longrightarrow> round64 (of_nat n) = Fin (of_nat n)"
  by (simp add: round64_def round_magnitude_of_nat)

lemma round64_numeral [simp]:
  "(numeral k :: nat) < 2 ^ 53 \<Longrightarrow> round64 (numeral k) = Fin (numeral k)"
  using round64_of_nat [of "numeral k"] by simp

lemma round64_1 [simp]: "round64 1 = Fin 1"
  using round64_of_nat [of 1] by simp

end
