(* ===== verification/Entities.thy ===== *)
theory Entities
  imports Go_Errors Go_Float
begin

text \<open>
  The entities of \<^verbatim>\<open>internal/model\<close>: their records (\<^verbatim>\<open>model.go\<close>) and the pure
  methods on them (\<^verbatim>\<open>clone.go\<close>). A field \<^verbatim>\<open>F\<close> of struct \<^verbatim>\<open>S\<close> is the record field
  \<open>s_F\<close>; a pointer to a value that may be nil is an \<open>option\<close>. The state types are enumerations
  of the declared constants. \<^verbatim>\<open>DeviceState\<close>, \<^verbatim>\<open>DeviceKind\<close> and \<^verbatim>\<open>Role\<close> also carry strings
  that are none of the constants, because callers hand such strings in.
\<close>

section \<open>State types\<close>

datatype device_kind =
  KindSensor | KindLight | KindThermostat | KindMeter | KindLock | KindController | KindOther string

datatype device_state =
  DevicePending | DevicePaired | DeviceEnabled | DeviceDisabled | DeviceRetired | DeviceOther string

datatype plan_state =
  PlanDraft | PlanScheduled | PlanRunning | PlanCompleted | PlanCancelled

datatype automation_state =
  AutomationDraft | AutomationActive | AutomationPaused | AutomationArchived

datatype run_state =
  RunQueued | RunRunning | RunSucceeded | RunFailed | RunCancelled

type_synonym role = string

abbreviation RoleOwner :: role where "RoleOwner \<equiv> ''owner''"
abbreviation RoleOperator :: role where "RoleOperator \<equiv> ''operator''"
abbreviation RoleViewer :: role where "RoleViewer \<equiv> ''viewer''"

fun device_state_string :: "device_state \<Rightarrow> string" where
  "device_state_string DevicePending = ''pending''"
| "device_state_string DevicePaired = ''paired''"
| "device_state_string DeviceEnabled = ''enabled''"
| "device_state_string DeviceDisabled = ''disabled''"
| "device_state_string DeviceRetired = ''retired''"
| "device_state_string (DeviceOther s) = s"

fun device_kind_string :: "device_kind \<Rightarrow> string" where
  "device_kind_string KindSensor = ''sensor''"
| "device_kind_string KindLight = ''light''"
| "device_kind_string KindThermostat = ''thermostat''"
| "device_kind_string KindMeter = ''meter''"
| "device_kind_string KindLock = ''lock''"
| "device_kind_string KindController = ''controller''"
| "device_kind_string (KindOther s) = s"

section \<open>Records\<close>

record household =
  hh_ID :: int
  hh_Name :: string
  hh_Timezone :: string
  hh_MonthlyBudgetCents :: int
  hh_CreatedAt :: time

record member =
  mem_ID :: int
  mem_HouseholdID :: int
  mem_Email :: string
  mem_Role :: role
  mem_Active :: bool
  mem_CreatedAt :: time

record session =
  ses_ID :: string
  ses_MemberID :: int
  ses_ExpiresAt :: time
  ses_RevokedAt :: "time option"
  ses_CreatedAt :: time

record device =
  dev_ID :: int
  dev_HouseholdID :: int
  dev_ExternalID :: string
  dev_Kind :: device_kind
  dev_State :: device_state
  dev_Firmware :: string
  dev_Version :: int
  dev_LastSeenAt :: "time option"
  dev_CreatedAt :: time

record telemetry =
  tel_ID :: int
  tel_DeviceID :: int
  tel_Sequence :: int
  tel_PowerWatts :: f64
  tel_TemperatureC :: "f64 option"
  tel_MeasuredAt :: time
  tel_ReceivedAt :: time

record energy_plan =
  plan_ID :: int
  plan_HouseholdID :: int
  plan_Name :: string
  plan_State :: plan_state
  plan_BudgetCents :: int
  plan_StartsAt :: time
  plan_EndsAt :: time
  plan_CreatedAt :: time

record plan_device =
  pd_PlanID :: int
  pd_DeviceID :: int
  pd_TargetWatts :: f64

record automation =
  aut_ID :: int
  aut_HouseholdID :: int
  aut_Name :: string
  aut_State :: automation_state
  aut_TriggerKind :: string
  aut_CreatedAt :: time

record automation_action =
  act_ID :: int
  act_AutomationID :: int
  act_DeviceID :: int
  act_Action :: string
  act_Ordinal :: int

record automation_run =
  run_ID :: int
  run_AutomationID :: int
  run_IdempotencyKey :: string
  run_State :: run_state
  run_ErrorText :: string
  run_StartedAt :: "time option"
  run_FinishedAt :: "time option"

record alert =
  al_ID :: int
  al_HouseholdID :: int
  al_DeviceID :: "int option"
  al_Severity :: string
  al_Code :: string
  al_State :: string
  al_Details :: string
  al_CreatedAt :: time
  al_ResolvedAt :: "time option"

record audit_event =
  aud_ID :: int
  aud_HouseholdID :: int
  aud_ActorMemberID :: "int option"
  aud_RequestID :: string
  aud_ObjectType :: string
  aud_ObjectID :: string
  aud_Action :: string
  aud_Payload :: string
  aud_CreatedAt :: time

record outbox_message =
  out_ID :: int
  out_HouseholdID :: int
  out_Topic :: string
  out_Payload :: string
  out_Attempts :: int
  out_AvailableAt :: time
  out_LockedAt :: "time option"
  out_DeliveredAt :: "time option"
  out_FailedAt :: "time option"
  out_FailureReason :: "string option"

section \<open>clone.go\<close>

text \<open>\<^verbatim>\<open>Clone\<close> copies the one pointer of a device, so on values it is the identity.\<close>

definition Device_Clone :: "device \<Rightarrow> device" where
  "Device_Clone d = (case dev_LastSeenAt d of None \<Rightarrow> d | Some v \<Rightarrow> d\<lparr>dev_LastSeenAt := Some v\<rparr>)"

definition CloneDevices :: "device list option \<Rightarrow> device list option" where
  "CloneDevices input = (case input of None \<Rightarrow> None | Some ds \<Rightarrow> Some (map Device_Clone ds))"

definition Telemetry_Validate :: "telemetry \<Rightarrow> time \<Rightarrow> err + unit" where
  "Telemetry_Validate t now =
     (if tel_DeviceID t \<le> 0 \<or> tel_Sequence t \<le> 0 \<or> tel_MeasuredAt t = 0 \<or> tel_ReceivedAt t = 0
      then Inl (ErrorString ''telemetry identity and timestamps are required'')
      else if tel_MeasuredAt t > now + 5 * minute
      then Inl (ErrorString ''measurement is too far in the future'')
      else if tel_PowerWatts t < 0 then Inl (ErrorString ''power must be non-negative'')
      else Inr ())"

definition AutomationAction_Validate :: "automation_action \<Rightarrow> err + unit" where
  "AutomationAction_Validate a =
     (if act_AutomationID a \<le> 0 \<or> act_DeviceID a \<le> 0 \<or> trim_space (act_Action a) = [] \<or> act_Ordinal a < 0
      then Inl (ErrorString ''invalid automation action'') else Inr ())"

text \<open>\<open>unmarshal\<close> stands for \<^verbatim>\<open>json.Unmarshal\<close> into \<^verbatim>\<open>any\<close>: the error it returns, if any.\<close>

definition OutboxMessage_Validate :: "(string \<Rightarrow> err option) \<Rightarrow> outbox_message \<Rightarrow> err + unit" where
  "OutboxMessage_Validate unmarshal m =
     (if out_HouseholdID m \<le> 0 \<or> trim_space (out_Topic m) = [] \<or> out_AvailableAt m = 0
      then Inl (ErrorString ''invalid outbox message'')
      else if length (out_Payload m) > 1048576 then Inl (ErrorString ''outbox payload too large'')
      else (case unmarshal (out_Payload m) of Some e \<Rightarrow> Inl e | None \<Rightarrow> Inr ()))"

definition NormalizeRole :: "(string \<Rightarrow> string) \<Rightarrow> role \<Rightarrow> err + role" where
  "NormalizeRole u r =
     (let r' = to_lower u (trim_space r) in
      if r' \<in> {RoleOwner, RoleOperator, RoleViewer} then Inr r' else Inl (ErrorString ''unknown role''))"

definition Session_ActiveAt :: "session \<Rightarrow> time \<Rightarrow> bool" where
  "Session_ActiveAt s now \<longleftrightarrow>
     ses_ID s \<noteq> [] \<and> ses_MemberID s > 0 \<and> ses_CreatedAt s \<noteq> 0 \<and> ses_ExpiresAt s \<noteq> 0 \<and>
     \<not> ses_CreatedAt s > now \<and> ses_RevokedAt s = None \<and> now < ses_ExpiresAt s"

definition EnergyPlan_Within :: "energy_plan \<Rightarrow> time \<Rightarrow> bool" where
  "EnergyPlan_Within p now \<longleftrightarrow>
     \<not> plan_StartsAt p > now \<and> plan_EndsAt p > now \<and>
     plan_State p \<noteq> PlanCancelled \<and> plan_State p \<noteq> PlanCompleted"

definition AuditEvent_Complete :: "audit_event \<Rightarrow> bool" where
  "AuditEvent_Complete a \<longleftrightarrow>
     aud_HouseholdID a > 0 \<and> aud_RequestID a \<noteq> [] \<and> aud_ObjectType a \<noteq> [] \<and>
     aud_ObjectID a \<noteq> [] \<and> aud_Action a \<noteq> []"

text \<open>The role levels, a Go map: no entry for any other string.\<close>

definition role_levels :: "role \<rightharpoonup> nat" where
  "role_levels = [RoleViewer \<mapsto> 1, RoleOperator \<mapsto> 2, RoleOwner \<mapsto> 3]"

definition Member_Can :: "member \<Rightarrow> role \<Rightarrow> bool" where
  "Member_Can m r =
     (case (role_levels (mem_Role m), role_levels r) of
        (Some actual, Some required) \<Rightarrow> mem_Active m \<and> actual \<ge> required
      | _ \<Rightarrow> False)"

definition Device_Operational :: "device \<Rightarrow> bool" where
  "Device_Operational d \<longleftrightarrow> dev_ID d > 0 \<and> dev_State d = DeviceEnabled \<and> dev_Version d > 0"

definition BudgetAvailable :: "household \<Rightarrow> int \<Rightarrow> bool" where
  "BudgetAvailable h spent \<longleftrightarrow>
     hh_MonthlyBudgetCents h \<ge> 0 \<and> spent \<ge> 0 \<and> spent \<le> hh_MonthlyBudgetCents h"

section \<open>Lemmas\<close>

lemma Device_Clone_id [simp]: "Device_Clone d = d"
  by (cases "dev_LastSeenAt d") (simp_all add: Device_Clone_def)

lemma CloneDevices_id: "CloneDevices ds = ds"
  by (simp add: CloneDevices_def map_idI split: option.splits)

text \<open>Roles are ordered: who satisfies a role satisfies every role that role satisfies.\<close>

lemma role_levels_simps [simp]:
  "role_levels RoleViewer = Some 1" "role_levels RoleOperator = Some 2"
  "role_levels RoleOwner = Some 3"
  by (simp_all add: role_levels_def)

lemma role_levels_Some:
  "role_levels r = Some n \<Longrightarrow> r \<in> {RoleViewer, RoleOperator, RoleOwner} \<and> 1 \<le> n \<and> n \<le> 3"
  by (auto simp: role_levels_def split: if_splits)

end
