(* ===== verification/Rules.thy ===== *)
theory Rules
  imports Entities "HOL-Library.Product_Lexorder"
begin

text \<open>
  The state rules and validators of \<^verbatim>\<open>internal/domain/rules.go\<close>, with what each decides:
  the device transition table and the paths it allows, capability coverage, uniqueness, the
  bounds of a clamped power, and the order of sorted telemetry.
\<close>

section \<open>Definitions\<close>

text \<open>The nested map of allowed transitions: a missing entry reads as false.\<close>

fun allowed_transition :: "device_state \<Rightarrow> device_state \<Rightarrow> bool" where
  "allowed_transition DevicePending next = (next = DevicePaired \<or> next = DeviceRetired)"
| "allowed_transition DevicePaired next = (next = DeviceEnabled \<or> next = DeviceRetired)"
| "allowed_transition DeviceEnabled next = (next = DeviceDisabled \<or> next = DeviceRetired)"
| "allowed_transition DeviceDisabled next = (next = DeviceEnabled \<or> next = DeviceRetired)"
| "allowed_transition DeviceRetired next = False"
| "allowed_transition (DeviceOther s) next = False"

definition ValidateTransition :: "device_state \<Rightarrow> device_state \<Rightarrow> err + unit" where
  "ValidateTransition current next =
     (if allowed_transition current next then Inr ()
      else Inl (Wrapf [] ErrConflict ('': device '' @ device_state_string current @
                  '' cannot become '' @ device_state_string next)))"

definition ValidatePlanWindow :: "time \<Rightarrow> time \<Rightarrow> time \<Rightarrow> err + unit" where
  "ValidatePlanWindow start stop now =
     (if start = 0 \<or> stop = 0 \<or> \<not> start < stop then Inl ErrInvalid
      else if time_sub stop start > 31 * 24 * hour
      then Inl (ErrorString ''plan window exceeds one month'')
      else if stop < now then Inl (ErrorString ''plan window is in the past'')
      else Inr ())"

text \<open>\<^verbatim>\<open>strings.LastIndexByte\<close>: -1 when the byte does not occur.\<close>

fun last_index_from :: "char \<Rightarrow> int \<Rightarrow> int \<Rightarrow> string \<Rightarrow> int" where
  "last_index_from c i found [] = found"
| "last_index_from c i found (d # ds) = last_index_from c (i + 1) (if d = c then i else found) ds"

definition last_index_byte :: "string \<Rightarrow> char \<Rightarrow> int" where
  "last_index_byte s c = last_index_from c 0 (-1) s"

definition ValidateEmail :: "string \<Rightarrow> err + unit" where
  "ValidateEmail raw =
     (let email = trim_space raw; i = last_index_byte email (CHR ''@'') in
      if i < 1 \<or> i = int (length email) - 1 \<or>
         list_ex (\<lambda>c. c \<in> {CHR 0x0D, CHR 0x0A, CHR 0x09, CHR 0x20}) email
      then Inl ErrInvalid else Inr ())"

text \<open>
  \<^verbatim>\<open>for _, r := range id\<close> visits runes. A rune below the space or equal to U+007F is encoded
  by that one byte, and the bytes of every other rune (and the replacement rune of malformed
  input) are 128 or more, so testing the bytes decides the same.
\<close>

definition control_byte :: "char \<Rightarrow> bool" where
  "control_byte c \<longleftrightarrow> (of_char c :: nat) < 32 \<or> (of_char c :: nat) = 127"

definition ValidateExternalID :: "string \<Rightarrow> err + unit" where
  "ValidateExternalID i =
     (if i = [] \<or> length i > 128 then Inl ErrInvalid
      else if list_ex control_byte i then Inl ErrInvalid
      else Inr ())"

fun RequiredCapabilities :: "device_kind \<Rightarrow> string list" where
  "RequiredCapabilities KindThermostat = [''power'', ''temperature'']"
| "RequiredCapabilities KindLight = [''power'']"
| "RequiredCapabilities KindLock = [''lock'']"
| "RequiredCapabilities KindMeter = [''power'']"
| "RequiredCapabilities _ = []"

text \<open>The first loop fills the map \<open>set\<close>, the second reads it (absent keys read as false).\<close>

definition capability_map :: "string list \<Rightarrow> string \<Rightarrow> bool" where
  "capability_map actual = fold (\<lambda>v m. m(v := True)) actual (\<lambda>_. False)"

fun all_present :: "(string \<Rightarrow> bool) \<Rightarrow> string list \<Rightarrow> bool" where
  "all_present m [] = True"
| "all_present m (v # vs) = (if \<not> m v then False else all_present m vs)"

definition HasCapabilities :: "string list \<Rightarrow> string list \<Rightarrow> bool" where
  "HasCapabilities required actual = all_present (capability_map actual) required"

fun CompatibleAction :: "device_kind \<Rightarrow> string \<Rightarrow> bool" where
  "CompatibleAction KindLight action = (action = ''on'' \<or> action = ''off'')"
| "CompatibleAction KindThermostat action = (action = ''heat'' \<or> action = ''cool'')"
| "CompatibleAction KindLock action = (action = ''lock'' \<or> action = ''unlock'')"
| "CompatibleAction _ action = False"

definition ClampPower :: "f64 \<Rightarrow> f64 \<Rightarrow> f64" where
  "ClampPower watts limit =
     (if watts < 0 then 0 else if 0 \<le> limit \<and> limit < watts then limit else watts)"

definition SumPower :: "plan_device list \<Rightarrow> f64" where
  "SumPower rows = fold (\<lambda>row total. total + pd_TargetWatts row) rows 0"

definition measured_before :: "telemetry \<Rightarrow> telemetry \<Rightarrow> bool" where
  "measured_before a b =
     (if tel_MeasuredAt a = tel_MeasuredAt b then tel_Sequence a < tel_Sequence b
      else tel_MeasuredAt a < tel_MeasuredAt b)"

definition SortByTime :: "telemetry list \<Rightarrow> telemetry list" where
  "SortByTime rows = slice_stable measured_before rows"

fun unique_loop :: "'a set \<Rightarrow> 'a list \<Rightarrow> err + unit" where
  "unique_loop seen [] = Inr ()"
| "unique_loop seen (v # vs) =
     (if v \<in> seen then Inl (Wrapf [] ErrInvalid '': duplicate value'')
      else unique_loop (insert v seen) vs)"

definition EnsureUnique :: "'a list \<Rightarrow> err + unit" where
  "EnsureUnique values = unique_loop {} values"

section \<open>Device transitions\<close>

lemma ValidateTransition_ok [simp]:
  "ValidateTransition s t = Inr u \<longleftrightarrow> allowed_transition s t"
  by (simp add: ValidateTransition_def)

lemma ValidateTransition_error:
  "ValidateTransition s t = Inl e \<Longrightarrow> err_is e ErrConflict"
  by (auto simp: ValidateTransition_def split: if_splits)

fun_cases allowed_from_pendingE: "allowed_transition DevicePending t"
fun_cases allowed_from_retiredE: "allowed_transition DeviceRetired t"

lemma allowed_transition_irrefl: "allowed_transition s t \<Longrightarrow> s \<noteq> t"
  by (cases s) auto

lemma allowed_transition_targets:
  "allowed_transition s t \<Longrightarrow> t \<in> {DevicePaired, DeviceEnabled, DeviceDisabled, DeviceRetired}"
  by (cases s) auto

lemma allowed_to_paired: "allowed_transition s DevicePaired \<longleftrightarrow> s = DevicePending"
  by (cases s) auto

text \<open>A path of allowed transitions, as a device takes it over its life.\<close>

inductive lifecycle :: "device_state \<Rightarrow> device_state list \<Rightarrow> device_state \<Rightarrow> bool" where
  stay: "lifecycle s [] s"
| move: "ValidateTransition s t = Inr () \<Longrightarrow> lifecycle t path u \<Longrightarrow> lifecycle s (t # path) u"

inductive_cases lifecycle_NilE [elim!]: "lifecycle s [] u"
inductive_cases lifecycle_ConsE [elim!]: "lifecycle s (t # path) u"

lemma lifecycle_from_retired: "lifecycle DeviceRetired path u \<longleftrightarrow> path = [] \<and> u = DeviceRetired"
  by (cases path) (auto intro: lifecycle.stay)

lemma lifecycle_never_pending:
  "lifecycle s path u \<Longrightarrow> DevicePending \<notin> set path"
  by (induction rule: lifecycle.induct) (auto dest: allowed_transition_targets)

lemma lifecycle_paired_only_first:
  "lifecycle s path u \<Longrightarrow> s \<noteq> DevicePending \<Longrightarrow> DevicePaired \<notin> set path"
  by (induction rule: lifecycle.induct) (auto simp: allowed_to_paired dest: allowed_transition_targets)

section \<open>Validators\<close>

lemma last_index_from_spec:
  "last_index_from c i found s =
     (if c \<in> set s then i + int (length s) - 1 - int (length (takeWhile (\<lambda>d. d \<noteq> c) (rev s))) else found)"
  by (induction s arbitrary: i found) (auto simp: takeWhile_append)

lemma last_index_byte_spec:
  "last_index_byte s c =
     (if c \<in> set s then int (length s) - 1 - int (length (takeWhile (\<lambda>d. d \<noteq> c) (rev s))) else -1)"
  by (simp add: last_index_byte_def last_index_from_spec)

lemma ValidateEmail_split:
  assumes "ValidateEmail raw = Inr ()"
  shows "\<exists>local domain. trim_space raw = local @ [CHR ''@''] @ domain \<and>
     local \<noteq> [] \<and> domain \<noteq> [] \<and> CHR ''@'' \<notin> set domain"
proof -
  define s where "s = trim_space raw"
  define t where "t = takeWhile (\<lambda>d. d \<noteq> CHR ''@'') (rev s)"
  from assms have idx: "1 \<le> last_index_byte s (CHR ''@'')"
      "last_index_byte s (CHR ''@'') \<noteq> int (length s) - 1"
    by (auto simp: ValidateEmail_def Let_def s_def split: if_splits)
  then have mem: "CHR ''@'' \<in> set s"
    and len: "1 \<le> int (length s) - 1 - int (length t)" "t \<noteq> []"
    by (auto simp: last_index_byte_spec t_def split: if_splits)
  from mem obtain c r where cr: "dropWhile (\<lambda>d. d \<noteq> CHR ''@'') (rev s) = c # r"
    by (cases "dropWhile (\<lambda>d. d \<noteq> CHR ''@'') (rev s)") auto
  with hd_dropWhile [of "\<lambda>d. d \<noteq> CHR ''@''" "rev s"] have "c = CHR ''@''" by simp
  with cr have r: "rev s = t @ CHR ''@'' # r"
    using takeWhile_dropWhile_id [of "\<lambda>d. d \<noteq> CHR ''@''" "rev s"] by (simp add: t_def)
  from arg_cong [OF r, of rev] have "s = rev r @ [CHR ''@''] @ rev t" by simp
  moreover have "CHR ''@'' \<notin> set (rev t)"
    by (auto simp: t_def dest: set_takeWhileD)
  moreover have "r \<noteq> []"
    using arg_cong [OF r, of length] len(1) by auto
  ultimately show ?thesis using len(2) by (metis s_def rev_is_Nil_conv)
qed

lemma capability_map_eq: "capability_map actual v \<longleftrightarrow> v \<in> set actual"
proof -
  have "fold (\<lambda>v m. m(v := True)) actual f v \<longleftrightarrow> v \<in> set actual \<or> f v" for f
    by (induction actual arbitrary: f) auto
  then show ?thesis by (simp add: capability_map_def)
qed

lemma all_present_eq: "all_present m vs \<longleftrightarrow> (\<forall>v \<in> set vs. m v)"
  by (induction vs) auto

lemma HasCapabilities_iff: "HasCapabilities required actual \<longleftrightarrow> set required \<subseteq> set actual"
  by (auto simp: HasCapabilities_def all_present_eq capability_map_eq)

lemma unique_loop_iff:
  "unique_loop seen vs = Inr () \<longleftrightarrow> distinct vs \<and> set vs \<inter> seen = {}"
  by (induction vs arbitrary: seen) auto

lemma EnsureUnique_iff: "EnsureUnique vs = Inr () \<longleftrightarrow> distinct vs"
  by (simp add: EnsureUnique_def unique_loop_iff)

lemma EnsureUnique_error: "EnsureUnique vs = Inl e \<Longrightarrow> err_is e ErrInvalid"
proof -
  have "unique_loop seen vs = Inl e \<Longrightarrow> err_is e ErrInvalid" for seen
    by (induction vs arbitrary: seen) (auto split: if_splits)
  then show "EnsureUnique vs = Inl e \<Longrightarrow> err_is e ErrInvalid"
    by (simp add: EnsureUnique_def)
qed

lemma ValidateExternalID_ok:
  "ValidateExternalID i = Inr () \<longleftrightarrow>
     i \<noteq> [] \<and> length i \<le> 128 \<and> (\<forall>c \<in> set i. \<not> control_byte c)"
  by (auto simp: ValidateExternalID_def list_ex_iff)

lemma CompatibleAction_commandable:
  "CompatibleAction k a \<Longrightarrow> k \<in> {KindLight, KindThermostat, KindLock} \<and> a \<noteq> []"
  by (cases k) auto

section \<open>Power and order\<close>

lemma ClampPower_nonneg: "watts \<noteq> NaN \<Longrightarrow> 0 \<le> ClampPower watts limit"
  by (cases watts; cases limit) (auto simp: ClampPower_def zero_f64_def)

lemma ClampPower_limit: "0 \<le> limit \<Longrightarrow> watts \<noteq> NaN \<Longrightarrow> ClampPower watts limit \<le> limit"
  by (cases watts; cases limit) (auto simp: ClampPower_def zero_f64_def)

lemma ClampPower_inside: "0 \<le> watts \<Longrightarrow> watts \<le> limit \<Longrightarrow> ClampPower watts limit = watts"
  by (cases watts; cases limit) (auto simp: ClampPower_def)

lemma SumPower_nonneg:
  assumes "\<forall>row \<in> set rows. 0 \<le> pd_TargetWatts row"
  shows "0 \<le> SumPower rows"
proof -
  have "0 \<le> t \<Longrightarrow> \<forall>row \<in> set rows. 0 \<le> pd_TargetWatts row \<Longrightarrow>
      0 \<le> fold (\<lambda>row total. total + pd_TargetWatts row) rows t" for t
    by (induction rows arbitrary: t) (auto intro: f64_add_nonneg)
  from this [of 0] assms show ?thesis by (simp add: SumPower_def zero_f64_def)
qed

lemma measured_before_key:
  "measured_before = (\<lambda>a b. (tel_MeasuredAt a, tel_Sequence a) < (tel_MeasuredAt b, tel_Sequence b))"
  by (auto simp: measured_before_def fun_eq_iff)

interpretation telemetry_order: weak_order measured_before
  unfolding measured_before_key by (rule by_key.weak_order_axioms)

lemma measured_equivalent:
  "\<not> measured_before k t \<and> \<not> measured_before t k \<longleftrightarrow>
     tel_MeasuredAt t = tel_MeasuredAt k \<and> tel_Sequence t = tel_Sequence k"
  by (auto simp: measured_before_def)

text \<open>sorting telemetry returns the same rows, in ascending order of time and, within one
  instant, of sequence number, and rows with the same time and sequence keep their order.\<close>

lemma SortByTime_sorts:
  "mset (SortByTime rows) = mset rows \<and>
   sorted (map (\<lambda>t. (tel_MeasuredAt t, tel_Sequence t)) (SortByTime rows)) \<and>
   filter (\<lambda>t. tel_MeasuredAt t = a \<and> tel_Sequence t = sq) (SortByTime rows) =
     filter (\<lambda>t. tel_MeasuredAt t = a \<and> tel_Sequence t = sq) rows"
proof (intro conjI)
  show "mset (SortByTime rows) = mset rows" by (simp add: SortByTime_def)
  show "sorted (map (\<lambda>t. (tel_MeasuredAt t, tel_Sequence t)) (SortByTime rows))"
    unfolding SortByTime_def measured_before_key by (rule sorted_slice_stable_key)
  define k :: telemetry where "k = undefined\<lparr>tel_MeasuredAt := a, tel_Sequence := sq\<rparr>"
  from telemetry_order.slice_stable_stable [of k rows]
  show "filter (\<lambda>t. tel_MeasuredAt t = a \<and> tel_Sequence t = sq) (SortByTime rows) =
      filter (\<lambda>t. tel_MeasuredAt t = a \<and> tel_Sequence t = sq) rows"
    by (simp add: SortByTime_def measured_equivalent k_def)
qed

end
