(* ===== verification/Schedule.thy ===== *)
theory Schedule
  imports Rules
begin

text \<open>
  Planning windows: \<^verbatim>\<open>internal/domain/schedule.go\<close> (overlapping device windows and the
  household's power capacity) and \<^verbatim>\<open>internal/domain/timewindow.go\<close> (merging windows). The
  optimised loops, with their early exits, are proved equal to what they are meant to compute.
\<close>

section \<open>schedule.go\<close>

record schedule_window =
  sw_DeviceID :: int
  sw_Start :: time
  sw_End :: time
  sw_Watts :: f64

definition ScheduleWindow_Valid :: "schedule_window \<Rightarrow> err + unit" where
  "ScheduleWindow_Valid w =
     (if sw_DeviceID w \<le> 0 \<or> \<not> sw_Start w < sw_End w \<or> sw_Watts w < 0 then Inl ErrInvalid else Inr ())"

definition Overlap :: "schedule_window \<Rightarrow> schedule_window \<Rightarrow> bool" where
  "Overlap a b \<longleftrightarrow>
     sw_DeviceID a = sw_DeviceID b \<and> sw_Start a < sw_End b \<and> sw_Start b < sw_End a"

text \<open>The loop over \<open>j\<close> with its \<^verbatim>\<open>break\<close>, inside the loop over \<open>i\<close>.\<close>

fun conflicts_inner :: "schedule_window \<Rightarrow> schedule_window list \<Rightarrow> schedule_window list" where
  "conflicts_inner a [] = []"
| "conflicts_inner a (b # bs) =
     (if sw_Start b > sw_End a then []
      else if Overlap a b then b # conflicts_inner a bs else conflicts_inner a bs)"

fun conflicts_outer :: "schedule_window list \<Rightarrow> schedule_window list" where
  "conflicts_outer [] = []"
| "conflicts_outer (a # rest) = conflicts_inner a rest @ conflicts_outer rest"

definition Conflicts :: "schedule_window list \<Rightarrow> schedule_window list" where
  "Conflicts rows = conflicts_outer (slice_stable (\<lambda>a b. sw_Start a < sw_Start b) rows)"

fun validate_rows :: "schedule_window list \<Rightarrow> time list \<Rightarrow> err + time list" where
  "validate_rows [] points = Inr points"
| "validate_rows (row # rows) points =
     (case ScheduleWindow_Valid row of
        Inl e \<Rightarrow> Inl e
      | Inr _ \<Rightarrow> validate_rows rows (points @ [sw_Start row, sw_End row]))"

definition active_sum :: "schedule_window list \<Rightarrow> time \<Rightarrow> f64" where
  "active_sum rows point =
     fold (\<lambda>row sum. if \<not> point < sw_Start row \<and> point < sw_End row then sum + sw_Watts row else sum)
       rows 0"

fun check_points :: "schedule_window list \<Rightarrow> f64 \<Rightarrow> time list \<Rightarrow> err + unit" where
  "check_points rows limit [] = Inr ()"
| "check_points rows limit (point # points) =
     (if limit < active_sum rows point
      then Inl (ErrorString ''schedule exceeds household capacity'')
      else check_points rows limit points)"

definition Capacity :: "schedule_window list \<Rightarrow> f64 \<Rightarrow> err + unit" where
  "Capacity rows limit =
     (if limit < 0 then Inl ErrInvalid
      else (case validate_rows rows [] of
          Inl e \<Rightarrow> Inl e
        | Inr points \<Rightarrow> check_points rows limit (sort points)))"

section \<open>timewindow.go\<close>

text \<open>A location is its name, \<open>None\<close> for a nil \<^verbatim>\<open>*time.Location\<close>. Changing the location of an
  instant does not move it.\<close>

record time_window =
  tw_Start :: time
  tw_End :: time
  tw_Zone :: "string option"

definition TimeWindow_Validate :: "time_window \<Rightarrow> duration \<Rightarrow> err + unit" where
  "TimeWindow_Validate w limit =
     (if tw_Start w = 0 \<or> tw_End w = 0 \<or> tw_Zone w = None \<or> \<not> tw_Start w < tw_End w \<or>
         limit \<le> 0 \<or> time_sub (tw_End w) (tw_Start w) > limit
      then Inl (ErrorString ''invalid time window'') else Inr ())"

definition TimeWindow_Contains :: "time_window \<Rightarrow> time \<Rightarrow> bool" where
  "TimeWindow_Contains w t =
     (if tw_Start w = 0 \<or> tw_End w = 0 \<or> tw_Zone w = None then False
      else \<not> t < tw_Start w \<and> t < tw_End w)"

fun validate_windows :: "time_window list \<Rightarrow> err + unit" where
  "validate_windows [] = Inr ()"
| "validate_windows (w # ws) =
     (case TimeWindow_Validate w (366 * 24 * hour) of Inl e \<Rightarrow> Inl e | Inr _ \<Rightarrow> validate_windows ws)"

text \<open>The body of the merging loop: \<open>merged\<close> is the slice built so far, whose last element is
  updated in place.\<close>

definition merge_push :: "time_window list \<Rightarrow> time_window \<Rightarrow> time_window list" where
  "merge_push merged w =
     (if merged = [] then merged @ [w]
      else let l = last merged in
        if \<not> tw_Start w > tw_End l
        then (if tw_End w > tw_End l then butlast merged @ [l\<lparr>tw_End := tw_End w\<rparr>] else merged)
        else merged @ [w])"

fun merge_loop :: "time_window list \<Rightarrow> time_window list \<Rightarrow> time_window list" where
  "merge_loop merged [] = merged"
| "merge_loop merged (w # ws) = merge_loop (merge_push merged w) ws"

text \<open>\<open>srt\<close> is \<^verbatim>\<open>sort.Slice\<close> with the comparison by start.\<close>

definition MergeWindows ::
    "(time_window list \<Rightarrow> time_window list) \<Rightarrow> time_window list \<Rightarrow> err + time_window list" where
  "MergeWindows srt windows =
     (case validate_windows windows of
        Inl e \<Rightarrow> Inl e
      | Inr _ \<Rightarrow> Inr (merge_loop [] (srt windows)))"

definition covered :: "time_window list \<Rightarrow> time \<Rightarrow> bool" where
  "covered ws t \<longleftrightarrow> list_ex (\<lambda>w. TimeWindow_Contains w t) ws"

section \<open>Overlaps\<close>

lemma Overlap_sym: "Overlap a b \<Longrightarrow> Overlap b a"
  by (auto simp: Overlap_def)

lemma conflicts_inner_filter:
  assumes "sorted (map sw_Start bs)"
  shows "conflicts_inner a bs = filter (Overlap a) bs"
  using assms
proof (induction bs)
  case Nil
  then show ?case by simp
next
  case (Cons b bs)
  show ?case
  proof (cases "sw_Start b > sw_End a")
    case True
    with Cons.prems have "filter (Overlap a) (b # bs) = []"
      by (auto simp: Overlap_def filter_empty_conv)
    with True show ?thesis by simp
  next
    case False
    with Cons show ?thesis by simp
  qed
qed

lemma conflicts_outer_sorted:
  assumes "sorted (map sw_Start rows)"
  shows "conflicts_outer rows =
    concat (map (\<lambda>i. filter (Overlap (rows ! i)) (drop (Suc i) rows)) [0..<length rows])"
  using assms
proof (induction rows)
  case Nil
  then show ?case by simp
next
  case (Cons a rows)
  have "[0..<length (a # rows)] = 0 # map Suc [0..<length rows]"
    by (simp add: upt_conv_Cons map_Suc_upt del: upt_Suc)
  with Cons show ?case
    by (simp add: conflicts_inner_filter comp_def del: upt_Suc)
qed

lemma conflicts_outer_empty:
  assumes "sorted (map sw_Start rows)"
  shows "conflicts_outer rows = [] \<longleftrightarrow> sorted_wrt (\<lambda>a b. \<not> Overlap a b) rows"
  using assms
  by (induction rows) (auto simp: conflicts_inner_filter filter_empty_conv)

text \<open>C22: the loop with the early exit reports exactly the windows that overlap an earlier one in
  start order (once per such pair), and it reports none if and only if no two of the given windows
  overlap, in whatever order they are given.\<close>

theorem Conflicts_complete:
  "(let s = slice_stable (\<lambda>a b. sw_Start a < sw_Start b) rows in
    Conflicts rows = concat (map (\<lambda>i. filter (Overlap (s ! i)) (drop (Suc i) s)) [0..<length s])) \<and>
   (Conflicts rows = [] \<longleftrightarrow> sorted_wrt (\<lambda>a b. \<not> Overlap a b) rows)"
proof -
  define s where "s = slice_stable (\<lambda>a b. sw_Start a < sw_Start b) rows"
  have srt: "sorted (map sw_Start s)"
    unfolding s_def by (rule sorted_slice_stable_key)
  have "mset s = mset rows" by (simp add: s_def)
  then have "sorted_wrt (\<lambda>a b. \<not> Overlap a b) s = sorted_wrt (\<lambda>a b. \<not> Overlap a b) rows"
    by (rule sorted_wrt_permute [rotated]) (blast dest: Overlap_sym)
  then show ?thesis
    unfolding Conflicts_def Let_def s_def [symmetric]
    using conflicts_outer_sorted [OF srt] conflicts_outer_empty [OF srt] by simp
qed

section \<open>Capacity\<close>

lemma validate_rows_Inr:
  "validate_rows rows points = Inr ps \<longleftrightarrow>
     list_all (\<lambda>r. ScheduleWindow_Valid r = Inr ()) rows \<and>
     ps = points @ concat (map (\<lambda>r. [sw_Start r, sw_End r]) rows)"
  by (induction rows arbitrary: points) (auto split: sum.splits)

lemma check_points_Inr:
  "check_points rows limit points = Inr () \<longleftrightarrow> (\<forall>p \<in> set points. \<not> limit < active_sum rows p)"
  by (induction points) auto

lemma active_sum_cong:
  assumes "\<And>r. r \<in> set rows \<Longrightarrow>
    (\<not> p < sw_Start r \<and> p < sw_End r) = (\<not> q < sw_Start r \<and> q < sw_End r)"
  shows "active_sum rows p = active_sum rows q"
  unfolding active_sum_def using assms by (intro fold_cong) auto

lemma active_sum_idle:
  assumes "\<And>r. r \<in> set rows \<Longrightarrow> p < sw_Start r \<or> \<not> p < sw_End r"
  shows "active_sum rows p = 0"
proof -
  have "fold (\<lambda>row sum. if \<not> p < sw_Start row \<and> p < sw_End row then sum + sw_Watts row else sum)
      rs z = z" if "set rs \<subseteq> set rows" for rs z
    using that assms by (induction rs arbitrary: z) auto
  then show ?thesis by (simp add: active_sum_def)
qed

text \<open>Between two neighbouring window boundaries the set of active windows does not change, so the
  load at any instant is the load at the last boundary before it.\<close>

lemma active_sum_boundary:
  assumes "p = Max {b. b \<in> set (concat (map (\<lambda>r. [sw_Start r, sw_End r]) rows)) \<and> b \<le> t}"
    and "\<exists>b \<in> set (concat (map (\<lambda>r. [sw_Start r, sw_End r]) rows)). b \<le> t"
  shows "p \<in> set (concat (map (\<lambda>r. [sw_Start r, sw_End r]) rows))" and "active_sum rows t = active_sum rows p"
proof -
  let ?B = "{b. b \<in> set (concat (map (\<lambda>r. [sw_Start r, sw_End r]) rows)) \<and> b \<le> t}"
  have fin: "finite ?B" by simp
  have "?B \<noteq> {}" using assms(2) by blast
  with fin assms(1) have p: "p \<in> ?B" using Max_in by blast
  then show "p \<in> set (concat (map (\<lambda>r. [sw_Start r, sw_End r]) rows))" by simp
  have le: "b \<le> p" if "b \<in> ?B" for b
    using fin that assms(1) by (simp only: Max_ge)
  show "active_sum rows t = active_sum rows p"
  proof (rule active_sum_cong)
    fix r
    assume "r \<in> set rows"
    then have "sw_Start r \<le> t \<Longrightarrow> sw_Start r \<le> p" and "sw_End r \<le> t \<Longrightarrow> sw_End r \<le> p"
      by (auto intro!: le)
    with p show "(\<not> t < sw_Start r \<and> t < sw_End r) = (\<not> p < sw_Start r \<and> p < sw_End r)"
      by fastforce
  qed
qed

text \<open>The check as the code runs it: at the boundaries only.\<close>

lemma Capacity_points:
  "Capacity rows limit = Inr () \<longleftrightarrow>
     \<not> limit < 0 \<and> list_all (\<lambda>r. ScheduleWindow_Valid r = Inr ()) rows \<and>
     (\<forall>p \<in> set (concat (map (\<lambda>r. [sw_Start r, sw_End r]) rows)). \<not> limit < active_sum rows p)"
proof (cases "list_all (\<lambda>r. ScheduleWindow_Valid r = Inr ()) rows")
  case True
  then have "validate_rows rows [] = Inr (concat (map (\<lambda>r. [sw_Start r, sw_End r]) rows))"
    by (simp add: validate_rows_Inr)
  with True show ?thesis by (simp add: Capacity_def check_points_Inr)
next
  case False
  then have "\<nexists>ps. validate_rows rows [] = Inr ps" by (simp add: validate_rows_Inr)
  then obtain e where "validate_rows rows [] = Inl e" by (cases "validate_rows rows []") auto
  with False show ?thesis by (simp add: Capacity_def)
qed

text \<open>C23: checking the load at the window boundaries decides the load at every instant: the
  capacity check accepts a schedule if and only if the limit is not negative, every window is
  valid, and at no instant at all the power of the active windows exceeds the limit.\<close>

theorem Capacity_iff:
  "Capacity rows limit = Inr () \<longleftrightarrow>
     \<not> limit < 0 \<and> list_all (\<lambda>r. ScheduleWindow_Valid r = Inr ()) rows \<and>
     (\<forall>t. \<not> limit < active_sum rows t)"
proof -
  let ?ps = "concat (map (\<lambda>r. [sw_Start r, sw_End r]) rows)"
  have all: "\<not> limit < active_sum rows t"
    if lim: "\<not> limit < 0" and ok: "\<forall>p \<in> set ?ps. \<not> limit < active_sum rows p" for t
  proof (cases "\<exists>b \<in> set ?ps. b \<le> t")
    case True
    note boundary = active_sum_boundary [OF refl True]
    show ?thesis unfolding boundary(2) using ok boundary(1) by (rule bspec)
  next
    case False
    then have "active_sum rows t = 0" by (intro active_sum_idle) force
    with lim show ?thesis by simp
  qed
  show ?thesis
  proof
    assume "Capacity rows limit = Inr ()"
    note ok = this [unfolded Capacity_points]
    note * = ok [THEN conjunct1] ok [THEN conjunct2, THEN conjunct1]
      ok [THEN conjunct2, THEN conjunct2]
    from all [OF *(1,3)] *(1,2)
    show "\<not> limit < 0 \<and> list_all (\<lambda>r. ScheduleWindow_Valid r = Inr ()) rows \<and>
        (\<forall>t. \<not> limit < active_sum rows t)" by simp
  qed (simp only: Capacity_points simp_thms ball_triv)
qed

section \<open>Merging\<close>

lemma validate_windows_Inr:
  "validate_windows ws = Inr () \<longleftrightarrow>
     list_all (\<lambda>w. TimeWindow_Validate w (366 * 24 * hour) = Inr ()) ws"
  by (induction ws) (auto split: sum.splits)

definition proper :: "time_window \<Rightarrow> bool" where
  "proper w \<longleftrightarrow> tw_Start w \<noteq> 0 \<and> tw_End w \<noteq> 0 \<and> tw_Zone w \<noteq> None \<and> tw_Start w < tw_End w"

lemma Validate_proper: "TimeWindow_Validate w d = Inr () \<Longrightarrow> proper w"
  by (auto simp: TimeWindow_Validate_def proper_def split: if_splits)

lemma Contains_proper:
  "proper w \<Longrightarrow> TimeWindow_Contains w t \<longleftrightarrow> tw_Start w \<le> t \<and> t < tw_End w"
  by (auto simp: TimeWindow_Contains_def proper_def)

lemma covered_append [simp]: "covered (ws @ vs) t \<longleftrightarrow> covered ws t \<or> covered vs t"
  by (simp add: covered_def)

lemma covered_Cons [simp]: "covered (w # ws) t \<longleftrightarrow> TimeWindow_Contains w t \<or> covered ws t"
  by (simp add: covered_def)

lemma covered_Nil [simp]: "\<not> covered [] t"
  by (simp add: covered_def)

text \<open>The loop invariant: the windows merged so far are proper and separated, and the last of them
  starts no later than any window still to come.\<close>

definition separated :: "time_window list \<Rightarrow> bool" where
  "separated ws \<longleftrightarrow> list_all proper ws \<and> sorted_wrt (\<lambda>a b. tw_End a < tw_Start b) ws"

lemma separated_Nil [simp]: "separated []"
  by (simp add: separated_def)

lemma separated_snoc:
  "separated (ws @ [w]) \<longleftrightarrow> separated ws \<and> proper w \<and> list_all (\<lambda>v. tw_End v < tw_Start w) ws"
  by (auto simp: separated_def sorted_wrt_append list_all_iff)

text \<open>A window inside the last one, or one that starts inside it and ends later.\<close>

lemma covers_inside:
  assumes "proper l" and "proper w" and "tw_Start l \<le> tw_Start w" and "tw_End w \<le> tw_End l"
  shows "TimeWindow_Contains w t \<Longrightarrow> TimeWindow_Contains l t"
  using assms by (simp add: Contains_proper)

lemma covers_extended:
  assumes "proper l" and "proper w" and "tw_Start l \<le> tw_Start w" and "tw_Start w \<le> tw_End l"
    and "tw_End l < tw_End w"
  shows "proper (l\<lparr>tw_End := tw_End w\<rparr>)"
    and "TimeWindow_Contains (l\<lparr>tw_End := tw_End w\<rparr>) t \<longleftrightarrow>
      TimeWindow_Contains l t \<or> TimeWindow_Contains w t"
proof -
  show p: "proper (l\<lparr>tw_End := tw_End w\<rparr>)" using assms by (auto simp: proper_def)
  show "TimeWindow_Contains (l\<lparr>tw_End := tw_End w\<rparr>) t \<longleftrightarrow>
      TimeWindow_Contains l t \<or> TimeWindow_Contains w t"
    unfolding Contains_proper [OF p] Contains_proper [OF assms(1)] Contains_proper [OF assms(2)]
    using assms by auto
qed

lemma merge_push_spec:
  assumes sep: "separated merged" and pw: "proper w"
    and start: "merged \<noteq> [] \<Longrightarrow> tw_Start (last merged) \<le> tw_Start w"
  shows "merge_push merged w \<noteq> []" and "separated (merge_push merged w)"
    and "tw_Start (last (merge_push merged w)) \<le> tw_Start w"
    and "covered (merge_push merged w) t \<longleftrightarrow> covered merged t \<or> TimeWindow_Contains w t"
proof -
  have "merge_push merged w \<noteq> [] \<and> separated (merge_push merged w) \<and>
    tw_Start (last (merge_push merged w)) \<le> tw_Start w \<and>
    (covered (merge_push merged w) t \<longleftrightarrow> covered merged t \<or> TimeWindow_Contains w t)"
  proof (cases merged rule: rev_cases)
    case Nil
    with pw show ?thesis by (simp add: merge_push_def separated_def)
  next
    case (snoc b l)
    with sep have sep': "separated b" "proper l" "list_all (\<lambda>v. tw_End v < tw_Start l) b"
      by (simp_all add: separated_snoc)
    from start snoc have st: "tw_Start l \<le> tw_Start w" by simp
    consider "tw_Start w > tw_End l" | "tw_Start w \<le> tw_End l" "tw_End w > tw_End l"
      | "tw_Start w \<le> tw_End l" "tw_End w \<le> tw_End l" by linarith
    then show ?thesis
    proof cases
      case 1
      then have "merge_push merged w = merged @ [w]" by (simp add: merge_push_def snoc)
      moreover have "list_all (\<lambda>v. tw_End v < tw_Start w) merged"
        using sep' st 1 by (auto simp: snoc list_all_iff)
      ultimately show ?thesis using sep pw by (simp add: separated_snoc)
    next
      case 2
      then have "merge_push merged w = b @ [l\<lparr>tw_End := tw_End w\<rparr>]"
        by (simp add: merge_push_def snoc)
      with covers_extended [OF sep'(2) pw st 2] sep' st show ?thesis
        by (auto simp: separated_snoc snoc)
    next
      case 3
      then have "merge_push merged w = merged" by (simp add: merge_push_def snoc)
      with covers_inside [OF sep'(2) pw st 3(2)] sep st show ?thesis by (auto simp: snoc)
    qed
  qed
  then show "merge_push merged w \<noteq> []" and "separated (merge_push merged w)"
    and "tw_Start (last (merge_push merged w)) \<le> tw_Start w"
    and "covered (merge_push merged w) t \<longleftrightarrow> covered merged t \<or> TimeWindow_Contains w t"
    by blast+
qed

lemma merge_loop_spec:
  assumes "separated merged" and "list_all proper ws" and "sorted (map tw_Start ws)"
    and "merged \<noteq> [] \<Longrightarrow> list_all (\<lambda>w. tw_Start (last merged) \<le> tw_Start w) ws"
  shows "separated (merge_loop merged ws) \<and>
    (\<forall>t. covered (merge_loop merged ws) t \<longleftrightarrow> covered merged t \<or> covered ws t)"
  using assms
proof (induction ws arbitrary: merged)
  case Nil
  then show ?case by simp
next
  case (Cons w ws)
  then have pw: "proper w" and st: "merged \<noteq> [] \<Longrightarrow> tw_Start (last merged) \<le> tw_Start w"
    by simp_all
  note push = merge_push_spec [OF Cons.prems(1) pw st]
  have "list_all (\<lambda>v. tw_Start (last (merge_push merged w)) \<le> tw_Start v) ws"
    using Cons.prems(3) push(3) by (fastforce simp: list_all_iff)
  with Cons.IH [OF push(2)] Cons.prems(2,3) push(4) show ?case by simp
qed

text \<open>C24: merging accepts exactly the lists of valid windows, and then returns windows that are in
  ascending order with a gap between neighbours and cover exactly the instants the given windows
  cover, whatever the order in which the unstable sort leaves windows with equal starts.\<close>

theorem MergeWindows_correct:
  assumes "sorts (\<lambda>a b. tw_Start a < tw_Start b) srt"
  shows "(case MergeWindows srt windows of
      Inl e \<Rightarrow> \<not> list_all (\<lambda>w. TimeWindow_Validate w (366 * 24 * hour) = Inr ()) windows
    | Inr ms \<Rightarrow> list_all (\<lambda>w. TimeWindow_Validate w (366 * 24 * hour) = Inr ()) windows \<and>
        sorted_wrt (\<lambda>a b. tw_End a < tw_Start b) ms \<and> (\<forall>t. covered ms t = covered windows t))"
proof (cases "validate_windows windows")
  case (Inl e)
  then have "\<not> list_all (\<lambda>w. TimeWindow_Validate w (366 * 24 * hour) = Inr ()) windows"
    using validate_windows_Inr [of windows] by simp
  with Inl show ?thesis by (simp add: MergeWindows_def)
next
  case (Inr u)
  then have ok: "list_all (\<lambda>w. TimeWindow_Validate w (366 * 24 * hour) = Inr ()) windows"
    using validate_windows_Inr [of windows] by simp
  note srt = sortsD [OF assms]
  from ok have "list_all proper (srt windows)"
    by (auto simp: list_all_iff srt(2) dest: Validate_proper)
  with srt(3) have "separated (merge_loop [] (srt windows)) \<and>
      (\<forall>t. covered (merge_loop [] (srt windows)) t \<longleftrightarrow> covered (srt windows) t)"
    using merge_loop_spec [of "[]" "srt windows"] by simp
  moreover have "covered (srt windows) t = covered windows t" for t
    by (simp add: covered_def list_ex_iff srt(2))
  ultimately show ?thesis using Inr ok by (simp add: MergeWindows_def separated_def)
qed

text \<open>The standard library's stable sort is one such sort: two touching windows and a later one.\<close>

theorem MergeWindows_correct_witness:
  "sorts (\<lambda>a b. tw_Start a < tw_Start b) (slice_stable (\<lambda>a b. tw_Start a < tw_Start b)) \<and>
   (case MergeWindows (slice_stable (\<lambda>a b. tw_Start a < tw_Start b))
      [\<lparr>tw_Start = 50, tw_End = 60, tw_Zone = Some ''UTC''\<rparr>,
       \<lparr>tw_Start = 20, tw_End = 30, tw_Zone = Some ''UTC''\<rparr>,
       \<lparr>tw_Start = 10, tw_End = 20, tw_Zone = Some ''UTC''\<rparr>] of
      Inl e \<Rightarrow> False
    | Inr ms \<Rightarrow> ms = [\<lparr>tw_Start = 10, tw_End = 30, tw_Zone = Some ''UTC''\<rparr>,
                    \<lparr>tw_Start = 50, tw_End = 60, tw_Zone = Some ''UTC''\<rparr>] \<and> (\<forall>t. covered ms t = covered
      [\<lparr>tw_Start = 50, tw_End = 60, tw_Zone = Some ''UTC''\<rparr>,
       \<lparr>tw_Start = 20, tw_End = 30, tw_Zone = Some ''UTC''\<rparr>,
       \<lparr>tw_Start = 10, tw_End = 20, tw_Zone = Some ''UTC''\<rparr>] t))"
proof -
  have srt: "sorts (\<lambda>a b. tw_Start a < tw_Start b) (slice_stable (\<lambda>a b. tw_Start a < tw_Start b))"
    by (rule by_key.sorts_slice_stable)
  have "MergeWindows (slice_stable (\<lambda>a b. tw_Start a < tw_Start b))
      [\<lparr>tw_Start = 50, tw_End = 60, tw_Zone = Some ''UTC''\<rparr>,
       \<lparr>tw_Start = 20, tw_End = 30, tw_Zone = Some ''UTC''\<rparr>,
       \<lparr>tw_Start = 10, tw_End = 20, tw_Zone = Some ''UTC''\<rparr>] =
    Inr [\<lparr>tw_Start = 10, tw_End = 30, tw_Zone = Some ''UTC''\<rparr>,
         \<lparr>tw_Start = 50, tw_End = 60, tw_Zone = Some ''UTC''\<rparr>]"
    by (simp add: MergeWindows_def TimeWindow_Validate_def merge_push_def time_sub_def
        min_i64_def max_i64_def)
  with srt MergeWindows_correct [OF srt, of
      "[\<lparr>tw_Start = 50, tw_End = 60, tw_Zone = Some ''UTC''\<rparr>,
       \<lparr>tw_Start = 20, tw_End = 30, tw_Zone = Some ''UTC''\<rparr>,
       \<lparr>tw_Start = 10, tw_End = 20, tw_Zone = Some ''UTC''\<rparr>]"]
  show ?thesis by simp
qed

end
