(* ===== verification/Database.thy ===== *)
theory Database
  imports Rules
begin

text \<open>
  The PostgreSQL database as the program's SQL sees it: the tables of
  \<^verbatim>\<open>internal/db/migrations/*.sql\<close> as lists of rows with their CHECK, UNIQUE and REFERENCES
  constraints, single statements, and the serializable transaction \<^verbatim>\<open>WithTx\<close> of
  \<^verbatim>\<open>internal/db/db.go\<close>. What the server does beyond the SQL text is a parameter: the
  environment \<open>pg\<close> holds its conversions of JSON text and of numbers, and a world carries the
  outcomes of the coming driver calls, so that every call may fail for a reason of its own.
\<close>

section \<open>Rows\<close>

datatype json =
  JNull | JBool bool | JNum rat | JStr string | JArr "json list" | JObj "(string \<times> json) list"

text \<open>The operator \<^verbatim>\<open>||\<close> on \<^verbatim>\<open>jsonb\<close>: objects are merged, the right one winning; anything
  else is concatenated as arrays.\<close>

definition obj_merge :: "(string \<times> json) list \<Rightarrow> (string \<times> json) list \<Rightarrow> (string \<times> json) list" where
  "obj_merge a b = filter (\<lambda>(k, v). k \<notin> fst ` set b) a @ b"

fun json_items :: "json \<Rightarrow> json list" where
  "json_items (JArr xs) = xs"
| "json_items x = [x]"

fun jsonb_concat :: "json \<Rightarrow> json \<Rightarrow> json" where
  "jsonb_concat (JObj a) (JObj b) = JObj (obj_merge a b)"
| "jsonb_concat x y = JArr (json_items x @ json_items y)"

record pg =
  jsonb_in :: "string \<Rightarrow> err + json"
  jsonb_out :: "json \<Rightarrow> string"
  numeric_12_3 :: "f64 \<Rightarrow> err + f64"
  numeric_8_3 :: "f64 \<Rightarrow> err + f64"

record member_row = member +
  mem_PasswordHash :: string

record run_row =
  rr_ID :: int
  rr_AutomationID :: int
  rr_IdempotencyKey :: string
  rr_State :: run_state
  rr_ErrorText :: "string option"
  rr_StartedAt :: "time option"
  rr_FinishedAt :: "time option"

record alert_row =
  alr_ID :: int
  alr_HouseholdID :: int
  alr_DeviceID :: "int option"
  alr_Severity :: string
  alr_Code :: string
  alr_State :: string
  alr_Details :: json
  alr_CreatedAt :: time
  alr_ResolvedAt :: "time option"

record audit_row =
  aur_ID :: int
  aur_HouseholdID :: int
  aur_ActorMemberID :: "int option"
  aur_RequestID :: string
  aur_ObjectType :: string
  aur_ObjectID :: string
  aur_Action :: string
  aur_Payload :: json
  aur_CreatedAt :: time

record outbox_row =
  obr_ID :: int
  obr_HouseholdID :: int
  obr_Topic :: string
  obr_Payload :: json
  obr_Attempts :: int
  obr_AvailableAt :: time
  obr_LockedAt :: "time option"
  obr_DeliveredAt :: "time option"
  obr_FailedAt :: "time option"
  obr_FailureReason :: "string option"

datatype table =
  THouseholds | TMembers | TDevices | TTelemetry | TPlans | TAutomations | TActions | TRuns
  | TAlerts | TAudit | TOutbox

text \<open>\<open>seqs\<close> holds the last value of each \<^verbatim>\<open>BIGSERIAL\<close> sequence.\<close>

record database =
  db_households :: "household list"
  db_members :: "member_row list"
  db_sessions :: "session list"
  db_devices :: "device list"
  db_capabilities :: "(int \<times> string) list"
  db_telemetry :: "telemetry list"
  db_plans :: "energy_plan list"
  db_plan_devices :: "plan_device list"
  db_automations :: "automation list"
  db_actions :: "automation_action list"
  db_runs :: "run_row list"
  db_alerts :: "alert_row list"
  db_audit :: "audit_row list"
  db_outbox :: "outbox_row list"
  seqs :: "table \<Rightarrow> int"

definition empty_db :: database where
  "empty_db = \<lparr>db_households = [], db_members = [], db_sessions = [], db_devices = [],
     db_capabilities = [], db_telemetry = [], db_plans = [], db_plan_devices = [],
     db_automations = [], db_actions = [], db_runs = [], db_alerts = [], db_audit = [],
     db_outbox = [], seqs = (\<lambda>_. 0)\<rparr>"

section \<open>Reading and updating rows\<close>

definition update_where :: "('r \<Rightarrow> bool) \<Rightarrow> ('r \<Rightarrow> 'r) \<Rightarrow> 'r list \<Rightarrow> 'r list" where
  "update_where p f rows = map (\<lambda>r. if p r then f r else r) rows"

definition count_where :: "('r \<Rightarrow> bool) \<Rightarrow> 'r list \<Rightarrow> int" where
  "count_where p rows = int (length (filter p rows))"

text \<open>\<^verbatim>\<open>QueryRow(...).Scan\<close>: the first row of the result, or \<^verbatim>\<open>sql.ErrNoRows\<close>.\<close>

definition one_row :: "('r \<Rightarrow> bool) \<Rightarrow> 'r list \<Rightarrow> err + 'r" where
  "one_row p rows = (case filter p rows of [] \<Rightarrow> Inl ErrNoRows | r # _ \<Rightarrow> Inr r)"

lemma length_update_where [table_simps]: "length (update_where p f rows) = length rows"
  by (simp add: update_where_def)

lemma map_update_where [table_simps]:
  "(\<And>r. k (f r) = k r) \<Longrightarrow> map k (update_where p f rows) = map k rows"
  by (simp add: update_where_def)

lemma set_update_where [table_simps]:
  "set (update_where p f rows) = (\<lambda>r. if p r then f r else r) ` set rows"
  by (simp add: update_where_def)

lemma list_all_update_where [table_simps]:
  "list_all q (update_where p f rows) = list_all (\<lambda>r. q (if p r then f r else r)) rows"
  by (simp add: update_where_def list.pred_map comp_def)

lemma update_where_none:
  "\<not> list_ex p rows \<Longrightarrow> update_where p f rows = rows"
  by (induction rows) (auto simp: update_where_def)

lemma count_where_nonneg [simp]: "0 \<le> count_where p rows"
  by (simp add: count_where_def)

lemma count_where_eq_0: "count_where p rows = 0 \<longleftrightarrow> \<not> list_ex p rows"
  by (auto simp: count_where_def filter_empty_conv list_ex_iff)

text \<open>A condition that implies a key's value selects at most one row of a keyed table.\<close>

lemma count_where_key:
  assumes "distinct (map key rows)" and "\<And>r. p r \<Longrightarrow> key r = k"
  shows "count_where p rows = (if list_ex p rows then 1 else 0)"
  using assms(1)
proof (induction rows)
  case Nil
  then show ?case by (simp add: count_where_def)
next
  case (Cons r rows)
  show ?case
  proof (cases "p r")
    case True
    have "\<not> p s" if "s \<in> set rows" for s
      using Cons.prems True that assms(2) by force
    then have "filter p rows = []" by (simp add: filter_empty_conv)
    with True show ?thesis by (simp add: count_where_def)
  next
    case False
    with Cons show ?thesis by (simp add: count_where_def)
  qed
qed

lemma one_row_Inr: "one_row p rows = Inr r \<Longrightarrow> r \<in> set rows \<and> p r"
  unfolding one_row_def
  by (cases "filter p rows") (auto dest!: arg_cong [where f = set])

lemma one_row_Inl: "one_row p rows = Inl e \<longleftrightarrow> e = ErrNoRows \<and> \<not> list_ex p rows"
  unfolding one_row_def
  by (cases "filter p rows") (auto simp: list_ex_iff filter_empty_conv filter_eq_Cons_iff)

lemma one_row_key:
  assumes "distinct (map key rows)" and "r \<in> set rows" and "key r = k"
  shows "one_row (\<lambda>r. key r = k) rows = Inr r"
  using assms
proof (induction rows)
  case Nil
  then show ?case by simp
next
  case (Cons s rows)
  then show ?case by (cases "key s = k") (auto simp: one_row_def)
qed

lemma one_row_key_iff:
  "distinct (map key rows) \<Longrightarrow>
     one_row (\<lambda>r. key r = k) rows = Inr r \<longleftrightarrow> r \<in> set rows \<and> key r = k"
  using one_row_key one_row_Inr by fastforce

section \<open>Statements\<close>

text \<open>
  A world is the database, the server's clock and the outcomes of the driver calls to come:
  \<open>Some e\<close> makes the next call fail with \<open>e\<close> before it has an effect (the context is done, the
  connection is lost, the server aborts it), and an empty list lets every call through.
\<close>

record world =
  wdb :: database
  wnow :: time
  wfaults :: "err option list"

type_synonym 'a repo = "(world, 'a) action"
type_synonym 'a statement = "time \<Rightarrow> database \<Rightarrow> (err + 'a) \<times> database"

definition stmt :: "'a statement \<Rightarrow> 'a repo" where
  "stmt f w =
     (let w' = w\<lparr>wfaults := tl (wfaults w)\<rparr> in
      case wfaults w of
        Some e # _ \<Rightarrow> (Inl e, w')
      | _ \<Rightarrow> (case f (wnow w) (wdb w) of (r, d) \<Rightarrow> (r, w'\<lparr>wdb := d\<rparr>)))"

text \<open>A SELECT.\<close>

definition query :: "(database \<Rightarrow> err + 'a) \<Rightarrow> 'a repo" where
  "query f = stmt (\<lambda>_ db. (f db, db))"

text \<open>
  An INSERT into a table with a sequence: the default of the id takes the next value, then the
  constraints are checked in the order CHECK, UNIQUE, REFERENCES, then the row is stored. The
  value of the sequence stays used even when the statement fails.
\<close>

definition next_id :: "table \<Rightarrow> database \<Rightarrow> int" where
  "next_id t db = seqs db t + 1"

definition bump :: "table \<Rightarrow> database \<Rightarrow> database" where
  "bump t db = db\<lparr>seqs := (seqs db)(t := seqs db t + 1)\<rparr>"

fun first_violation :: "(bool \<times> err) list \<Rightarrow> err option" where
  "first_violation [] = None"
| "first_violation ((ok, e) # cs) = (if ok then first_violation cs else Some e)"

definition insert_row ::
    "table \<Rightarrow> (bool \<times> err) list \<Rightarrow> 'a \<Rightarrow> (database \<Rightarrow> database) \<Rightarrow> database \<Rightarrow> (err + 'a) \<times> database" where
  "insert_row t cs x add db =
     (case first_violation cs of
        Some e \<Rightarrow> (Inl e, bump t db)
      | None \<Rightarrow> (Inr x, add (bump t db)))"

text \<open>The server's error for each kind of violated constraint (\<open>c\<close> is the constraint).\<close>

definition pg_check :: "string \<Rightarrow> err" where
  "pg_check c = PgError ''23514'' (''new row violates check constraint '' @ c)"

definition pg_unique :: "string \<Rightarrow> err" where
  "pg_unique c = PgError ''23505'' (''duplicate key value violates unique constraint '' @ c)"

definition pg_foreign :: "string \<Rightarrow> err" where
  "pg_foreign c = PgError ''23503'' (''insert or update violates foreign key constraint '' @ c)"

definition pg_out_of_range :: "string \<Rightarrow> err" where
  "pg_out_of_range c = PgError ''22003'' (c @ '' out of range'')"

definition pg_invalid_text :: "string \<Rightarrow> err" where
  "pg_invalid_text c = PgError ''22P02'' (''invalid input syntax for type '' @ c)"

lemmas pg_errors = pg_check_def pg_unique_def pg_foreign_def pg_out_of_range_def pg_invalid_text_def

section \<open>WithTx of internal/db/db.go\<close>

definition driver_call :: "unit repo" where
  "driver_call = stmt (\<lambda>_ db. (Inr (), db))"

text \<open>
  Rolling back restores the tables; sequences are not transactional and keep their values. A
  commit that the driver reports as failed is a transaction the server aborted.
\<close>

definition rollback :: "database \<Rightarrow> world \<Rightarrow> world" where
  "rollback old w = w\<lparr>wdb := old\<lparr>seqs := seqs (wdb w)\<rparr>\<rparr>"

definition WithTx :: "'a repo \<Rightarrow> 'a repo" where
  "WithTx body w =
     (case driver_call w of
        (Inl e, w1) \<Rightarrow> (Inl (wrap_op ''begin transaction'' e), w1)
      | (Inr _, w1) \<Rightarrow>
          (case body w1 of
             (Inl e, w2) \<Rightarrow> (Inl e, rollback (wdb w) w2)
           | (Inr x, w2) \<Rightarrow>
               (case driver_call w2 of
                  (Inl e, w3) \<Rightarrow> (Inl (wrap_op ''commit transaction'' e), rollback (wdb w) w3)
                | (Inr _, w3) \<Rightarrow> (Inr x, w3))))"

section \<open>Lemmas on statements and transactions\<close>

lemma stmt_cases:
  obtains (fault) e where "stmt f w = (Inl e, w\<lparr>wfaults := tl (wfaults w)\<rparr>)"
      "hd (wfaults w) = Some e" "wfaults w \<noteq> []"
    | (run) r d where "f (wnow w) (wdb w) = (r, d)"
      "stmt f w = (r, w\<lparr>wfaults := tl (wfaults w), wdb := d\<rparr>)"
  by (cases "wfaults w"; cases "hd (wfaults w)"; cases "f (wnow w) (wdb w)")
    (auto simp: stmt_def)

lemma driver_call_state:
  "driver_call w = (r, w') \<Longrightarrow>
     wdb w' = wdb w \<and> wnow w' = wnow w \<and> wfaults w' = tl (wfaults w)"
  unfolding driver_call_def by (rule stmt_cases [of "\<lambda>_ db. (Inr (), db)" w]) auto

lemma driver_call_run: "wfaults w = [] \<Longrightarrow> driver_call w = (Inr (), w)"
  by (cases w) (simp add: driver_call_def stmt_def)

text \<open>Without a pending fault a statement runs.\<close>

lemma stmt_run [result_simps]:
  "wfaults w = [] \<Longrightarrow> stmt f w = (fst (f (wnow w) (wdb w)), w\<lparr>wdb := snd (f (wnow w) (wdb w))\<rparr>)"
  by (cases w) (auto simp: stmt_def split: prod.splits)

lemma stmt_Inr:
  "stmt f w = (Inr x, w') \<Longrightarrow>
     f (wnow w) (wdb w) = (Inr x, wdb w') \<and> wnow w' = wnow w \<and> wfaults w' = tl (wfaults w)"
  by (rule stmt_cases [of f w]) auto

lemma query_Inr:
  "query f w = (Inr x, w') \<Longrightarrow> f (wdb w) = Inr x \<and> wdb w' = wdb w \<and> wnow w' = wnow w"
  unfolding query_def by (drule stmt_Inr) auto

lemma wdb_query [simp]: "wdb (snd (query f w)) = wdb w"
  unfolding query_def by (rule stmt_cases [of "\<lambda>_ db. (f db, db)" w]) auto

lemma wnow_stmt [simp]: "wnow (snd (stmt f w)) = wnow w"
  by (rule stmt_cases [of f w]) auto

lemma first_violation_None:
  "first_violation cs = None \<longleftrightarrow> list_all fst cs"
  by (induction cs rule: first_violation.induct) auto

lemma first_violation_Some:
  "first_violation cs = Some e \<Longrightarrow> \<exists>c \<in> set cs. \<not> fst c \<and> snd c = e"
  by (induction cs rule: first_violation.induct) (auto split: if_splits)

lemma bump_tables [simp]:
  "db_households (bump t db) = db_households db" "db_members (bump t db) = db_members db"
  "db_sessions (bump t db) = db_sessions db" "db_devices (bump t db) = db_devices db"
  "db_capabilities (bump t db) = db_capabilities db" "db_telemetry (bump t db) = db_telemetry db"
  "db_plans (bump t db) = db_plans db" "db_plan_devices (bump t db) = db_plan_devices db"
  "db_automations (bump t db) = db_automations db" "db_actions (bump t db) = db_actions db"
  "db_runs (bump t db) = db_runs db" "db_alerts (bump t db) = db_alerts db"
  "db_audit (bump t db) = db_audit db" "db_outbox (bump t db) = db_outbox db"
  "seqs (bump t db) = (seqs db)(t := seqs db t + 1)"
  by (simp_all add: bump_def)

text \<open>Two databases agree on all tables.\<close>

definition same_tables :: "database \<Rightarrow> database \<Rightarrow> bool" where
  "same_tables a b \<longleftrightarrow> a\<lparr>seqs := seqs b\<rparr> = b"

lemma same_tables_refl [simp]: "same_tables a a"
  by (simp add: same_tables_def)

lemma same_tables_bump [simp]: "same_tables a (bump t a)"
  by (simp add: same_tables_def bump_def)

lemma same_tables_seqs [simp]: "same_tables a (a\<lparr>seqs := s\<rparr>)"
  by (simp add: same_tables_def)

lemma same_tables_trans: "same_tables a b \<Longrightarrow> same_tables b c \<Longrightarrow> same_tables a c"
  by (cases a; cases b; cases c) (simp add: same_tables_def)

lemma same_tablesD:
  assumes "same_tables a b"
  shows "db_households b = db_households a" "db_members b = db_members a"
    "db_sessions b = db_sessions a" "db_devices b = db_devices a"
    "db_capabilities b = db_capabilities a" "db_telemetry b = db_telemetry a"
    "db_plans b = db_plans a" "db_plan_devices b = db_plan_devices a"
    "db_automations b = db_automations a" "db_actions b = db_actions a"
    "db_runs b = db_runs a" "db_alerts b = db_alerts a" "db_audit b = db_audit a"
    "db_outbox b = db_outbox a"
  using assms by (cases a; cases b; simp add: same_tables_def)+

lemma insert_row_Inl: "insert_row t cs x add db = (Inl e, db') \<Longrightarrow> db' = bump t db"
  by (auto simp: insert_row_def split: option.splits)

lemma insert_row_Inr:
  "insert_row t cs x add db = (Inr y, db') \<longleftrightarrow> list_all fst cs \<and> y = x \<and> db' = add (bump t db)"
  by (auto simp: insert_row_def first_violation_None [symmetric] split: option.splits)

lemma WithTx_Inl_state:
  assumes "WithTx body w = (Inl e, w')"
  shows "wdb w' = wdb w \<or> (\<exists>w1 r w2. wdb w1 = wdb w \<and> body w1 = (r, w2) \<and>
    wdb w' = (wdb w)\<lparr>seqs := seqs (wdb w2)\<rparr>)"
proof -
  consider "wdb w' = wdb w"
    | w1 w2 e' where "driver_call w = (Inr (), w1)" "body w1 = (Inl e', w2)" "w' = rollback (wdb w) w2"
    | w1 w2 w3 x e' where "driver_call w = (Inr (), w1)" "body w1 = (Inr x, w2)"
        "driver_call w2 = (Inl e', w3)" "w' = rollback (wdb w) w3"
    using assms by (auto simp: WithTx_def dest: driver_call_state split: prod.splits sum.splits)
  then show ?thesis
  proof cases
    case 1
    then show ?thesis ..
  next
    case 2
    with driver_call_state [OF 2(1)] show ?thesis by (auto simp: rollback_def)
  next
    case 3
    with driver_call_state [OF 3(1)] driver_call_state [OF 3(3)] show ?thesis
      by (auto simp: rollback_def)
  qed
qed

lemma WithTx_Inl: "WithTx body w = (Inl e, w') \<Longrightarrow> same_tables (wdb w) (wdb w')"
  by (auto dest!: WithTx_Inl_state)

lemma WithTx_Inr:
  assumes "WithTx body w = (Inr x, w')"
  obtains w1 w2 where "wdb w1 = wdb w" and "wnow w1 = wnow w" and "body w1 = (Inr x, w2)"
    and "wdb w' = wdb w2" and "wnow w' = wnow w2" and "wfaults w1 = tl (wfaults w)"
proof -
  from assms obtain w1 w2 where b: "driver_call w = (Inr (), w1)"
      and body: "body w1 = (Inr x, w2)" and c: "driver_call w2 = (Inr (), w')"
    by (auto simp: WithTx_def split: prod.splits sum.splits)
  from driver_call_state [OF b] driver_call_state [OF c] body that show ?thesis by auto
qed

text \<open>Without pending faults a transaction commits what its body did.\<close>

lemma WithTx_run [result_simps]:
  assumes "wfaults w = []" and "body w = (Inr x, w2)" and "wfaults w2 = []"
  shows "WithTx body w = (Inr x, w2)"
  using assms by (simp add: WithTx_def driver_call_run)

section \<open>Invariants of the database\<close>

text \<open>
  An invariant of the tables that tolerates unused sequence values is kept by transactions whose
  statements keep it: this is the interface between the invariants and the operations. \<open>steady\<close>
  says that an action keeps the invariant and never turns a sequence back.
\<close>

definition grows :: "(database \<Rightarrow> bool) \<Rightarrow> 'a statement \<Rightarrow> bool" where
  "grows I f \<longleftrightarrow>
     (\<forall>now db. I db \<longrightarrow> I (snd (f now db)) \<and> (\<forall>t. seqs db t \<le> seqs (snd (f now db)) t))"

definition steady :: "(database \<Rightarrow> bool) \<Rightarrow> 'a repo \<Rightarrow> bool" where
  "steady I m \<longleftrightarrow>
     (\<forall>base. keeps (\<lambda>w. I (wdb w) \<and> (\<forall>t. base t \<le> seqs (wdb w) t)) m)"

lemma steadyD: "steady I m \<Longrightarrow> I (wdb w) \<Longrightarrow> I (wdb (snd (m w)))"
  unfolding steady_def by (drule spec [of _ "seqs (wdb w)"], drule keepsD [of _ _ w]) auto

lemma steady_seqs: "steady I m \<Longrightarrow> I (wdb w) \<Longrightarrow> seqs (wdb w) t \<le> seqs (wdb (snd (m w))) t"
  unfolding steady_def by (drule spec [of _ "seqs (wdb w)"], drule keepsD [of _ _ w]) auto

lemma growsD:
  "grows I f \<Longrightarrow> I db \<Longrightarrow> f now db = (r, d) \<Longrightarrow> I d \<and> (\<forall>t. seqs db t \<le> seqs d t)"
  unfolding grows_def by (metis snd_conv)

locale table_invariant =
  fixes I :: "database \<Rightarrow> bool"
  assumes unused_ids: "I db \<Longrightarrow> (\<And>t. seqs db t \<le> s t) \<Longrightarrow> I (db\<lparr>seqs := s\<rparr>)"
begin

lemma steady_ret [intro, simp]: "steady I (ret x)"
  by (simp add: steady_def)

lemma steady_fail [intro, simp]: "steady I (fail e)"
  by (simp add: steady_def)

lemma steady_map_err [intro]: "steady I m \<Longrightarrow> steady I (map_err g m)"
  by (auto simp: steady_def)

lemma steady_and_then [intro]:
  "steady I m \<Longrightarrow> (\<And>x. steady I (k x)) \<Longrightarrow> steady I (and_then m k)"
  by (auto simp: steady_def)

lemma steady_for_each [intro]: "(\<And>x. steady I (f x)) \<Longrightarrow> steady I (for_each f xs)"
  by (auto simp: steady_def)

lemma steady_if [intro]:
  "(c \<Longrightarrow> steady I m) \<Longrightarrow> (\<not> c \<Longrightarrow> steady I n) \<Longrightarrow> steady I (if c then m else n)"
  by simp

lemma steady_stmt [intro]:
  assumes "grows I f"
  shows "steady I (stmt f)"
  unfolding steady_def
proof (intro allI keepsI)
  fix base and w :: world
  assume "I (wdb w) \<and> (\<forall>t. base t \<le> seqs (wdb w) t)"
  with assms show "I (wdb (snd (stmt f w))) \<and> (\<forall>t. base t \<le> seqs (wdb (snd (stmt f w))) t)"
    by (cases f w rule: stmt_cases) (auto dest: growsD [OF assms], meson growsD [OF assms] order_trans)
qed

lemma steady_query [intro, simp]: "steady I (query f)"
  unfolding query_def by (intro steady_stmt) (simp add: grows_def)

lemma steady_WithTx [intro]:
  assumes body: "steady I body"
  shows "steady I (WithTx body)"
  unfolding steady_def
proof (intro allI keepsI)
  fix base and w :: world
  assume w: "I (wdb w) \<and> (\<forall>t. base t \<le> seqs (wdb w) t)"
  show "I (wdb (snd (WithTx body w))) \<and> (\<forall>t. base t \<le> seqs (wdb (snd (WithTx body w))) t)"
  proof (cases "WithTx body w")
    case (Pair r w')
    show ?thesis
    proof (cases r)
      case (Inl e)
      with Pair have "WithTx body w = (Inl e, w')" by simp
      from WithTx_Inl_state [OF this] show ?thesis
      proof (elim disjE exE conjE)
        assume "wdb w' = wdb w"
        with Pair w show ?thesis by simp
      next
        fix w1 r' w2
        assume *: "wdb w1 = wdb w" "body w1 = (r', w2)" "wdb w' = (wdb w)\<lparr>seqs := seqs (wdb w2)\<rparr>"
        with w have "seqs (wdb w) t \<le> seqs (wdb w2) t" for t
          using steady_seqs [OF body, of w1 t] by simp
        with * w Pair show ?thesis by (auto intro: unused_ids order_trans)
      qed
    next
      case (Inr x)
      with Pair obtain w1 w2 where "wdb w1 = wdb w" "body w1 = (Inr x, w2)" "wdb w' = wdb w2"
        by (auto elim: WithTx_Inr)
      with Pair w steadyD [OF body, of w1] steady_seqs [OF body, of w1] show ?thesis
        by (auto intro: order_trans)
    qed
  qed
qed

end

end
