(* ===== verification/Repo_Core.thy ===== *)
theory Repo_Core
  imports Database
begin

text \<open>
  The repository of tenants, devices, telemetry and plans: \<^verbatim>\<open>internal/repo/repo.go\<close> (its
  first half), \<^verbatim>\<open>plans.go\<close>, \<^verbatim>\<open>members.go\<close>, \<^verbatim>\<open>scope.go\<close>, \<^verbatim>\<open>stats.go\<close> and the
  device queries of \<^verbatim>\<open>queries.go\<close>. Each SQL statement is a statement on the tables; the Go
  method around it adds its argument checks, its test of the number of affected rows and the
  classification of the error.
\<close>

section \<open>Households and members\<close>

definition insert_household :: "string \<Rightarrow> string \<Rightarrow> int \<Rightarrow> household statement" where
  "insert_household name timezone budget now db =
     (let h = \<lparr>hh_ID = next_id THouseholds db, hh_Name = name, hh_Timezone = timezone,
               hh_MonthlyBudgetCents = budget, hh_CreatedAt = now\<rparr>
      in insert_row THouseholds [(0 \<le> budget, pg_check ''households_monthly_budget_cents_check'')]
           h (\<lambda>d. d\<lparr>db_households := db_households d @ [h]\<rparr>) db)"

definition CreateHousehold :: "string \<Rightarrow> string \<Rightarrow> int \<Rightarrow> household repo" where
  "CreateHousehold name timezone budget =
     (if name = [] \<or> timezone = [] \<or> budget < 0 then fail ErrInvalid
      else map_err classify_write_error (stmt (insert_household name timezone budget)))"

definition insert_member :: "int \<Rightarrow> string \<Rightarrow> string \<Rightarrow> role \<Rightarrow> member statement" where
  "insert_member householdID email hash r now db =
     (let m = \<lparr>mem_ID = next_id TMembers db, mem_HouseholdID = householdID, mem_Email = email,
               mem_Role = r, mem_Active = True, mem_CreatedAt = now, mem_PasswordHash = hash\<rparr>
      in insert_row TMembers
           [(r \<in> {RoleOwner, RoleOperator, RoleViewer}, pg_check ''members_role_check''),
            ((householdID, email) \<notin> (\<lambda>m. (mem_HouseholdID m, mem_Email m)) ` set (db_members db),
             pg_unique ''members_household_id_email_key''),
            (householdID \<in> hh_ID ` set (db_households db), pg_foreign ''members_household_id_fkey'')]
           (member.truncate m) (\<lambda>d. d\<lparr>db_members := db_members d @ [m]\<rparr>) db)"

definition AddMember :: "int \<Rightarrow> string \<Rightarrow> string \<Rightarrow> role \<Rightarrow> member repo" where
  "AddMember householdID email hash r =
     map_err classify_write_error (stmt (insert_member householdID email hash r))"

definition CreateHouseholdWithOwner ::
    "string \<Rightarrow> string \<Rightarrow> int \<Rightarrow> string \<Rightarrow> string \<Rightarrow> (household \<times> member) repo" where
  "CreateHouseholdWithOwner name timezone budget email hash =
     WithTx
       (and_then (map_err (wrap_op ''create household'') (CreateHousehold name timezone budget)) (\<lambda>h.
        and_then (map_err (wrap_op ''create owner'') (AddMember (hh_ID h) email hash RoleOwner)) (\<lambda>m.
        ret (h, m))))"

definition FindMember :: "int \<Rightarrow> string \<Rightarrow> (member \<times> string) repo" where
  "FindMember householdID email =
     map_err classify_read_error
       (query (\<lambda>db. map_sum id (\<lambda>m. (member.truncate m, mem_PasswordHash m))
          (one_row (\<lambda>m. mem_HouseholdID m = householdID \<and> mem_Email m = email) (db_members db))))"

definition MemberByID :: "int \<Rightarrow> member repo" where
  "MemberByID i =
     map_err classify_read_error
       (query (\<lambda>db. map_sum id member.truncate (one_row (\<lambda>m. mem_ID m = i) (db_members db))))"

definition update_member_active :: "int \<Rightarrow> bool \<Rightarrow> int statement" where
  "update_member_active i active now db =
     (let hit = (\<lambda>m. mem_ID m = i) in
      (Inr (count_where hit (db_members db)),
       db\<lparr>db_members := update_where hit (\<lambda>m. m\<lparr>mem_Active := active\<rparr>) (db_members db)\<rparr>))"

definition SetMemberActive :: "int \<Rightarrow> bool \<Rightarrow> unit repo" where
  "SetMemberActive i active =
     and_then (stmt (update_member_active i active)) (\<lambda>n.
     if n \<noteq> 1 then fail ErrNotFound else ret ())"

definition Members :: "int \<Rightarrow> member list repo" where
  "Members h =
     query (\<lambda>db. Inr (map member.truncate
       (slice_stable (\<lambda>a b. mem_ID a < mem_ID b) (filter (\<lambda>m. mem_HouseholdID m = h) (db_members db)))))"

section \<open>Sessions\<close>

text \<open>
  The id column is a \<^verbatim>\<open>UUID\<close>: the server reads its text with \<open>uuid\<close> and compares values, so
  a string that denotes no UUID is an error and two spellings of one UUID are equal.
\<close>

type_synonym uuid_in = "string \<Rightarrow> string option"

definition insert_session :: "uuid_in \<Rightarrow> session \<Rightarrow> unit statement" where
  "insert_session uuid s now db =
     (case uuid (ses_ID s) of
        None \<Rightarrow> (Inl (pg_invalid_text ''uuid''), db)
      | Some i \<Rightarrow>
          (case first_violation
             [(i \<notin> ses_ID ` set (db_sessions db), pg_unique ''sessions_pkey''),
              (ses_MemberID s \<in> mem_ID ` set (db_members db), pg_foreign ''sessions_member_id_fkey'')] of
             Some e \<Rightarrow> (Inl e, db)
           | None \<Rightarrow> (Inr (), db\<lparr>db_sessions := db_sessions db @
               [\<lparr>ses_ID = i, ses_MemberID = ses_MemberID s, ses_ExpiresAt = ses_ExpiresAt s,
                 ses_RevokedAt = None, ses_CreatedAt = now\<rparr>]\<rparr>)))"

definition CreateSession :: "uuid_in \<Rightarrow> session \<Rightarrow> unit repo" where
  "CreateSession uuid s = map_err classify_write_error (stmt (insert_session uuid s))"

definition GetSession :: "uuid_in \<Rightarrow> string \<Rightarrow> session repo" where
  "GetSession uuid i =
     map_err classify_read_error
       (query (\<lambda>db. case uuid i of
            None \<Rightarrow> Inl (pg_invalid_text ''uuid'')
          | Some u \<Rightarrow> one_row (\<lambda>s. ses_ID s = u) (db_sessions db)))"

definition update_session_revoked :: "uuid_in \<Rightarrow> string \<Rightarrow> time \<Rightarrow> int statement" where
  "update_session_revoked uuid i when now db =
     (case uuid i of
        None \<Rightarrow> (Inl (pg_invalid_text ''uuid''), db)
      | Some u \<Rightarrow>
          (let hit = (\<lambda>s. ses_ID s = u \<and> ses_RevokedAt s = None) in
           (Inr (count_where hit (db_sessions db)),
            db\<lparr>db_sessions := update_where hit (\<lambda>s. s\<lparr>ses_RevokedAt := Some when\<rparr>) (db_sessions db)\<rparr>)))"

definition RevokeSession :: "uuid_in \<Rightarrow> string \<Rightarrow> time \<Rightarrow> unit repo" where
  "RevokeSession uuid i now =
     and_then (map_err classify_write_error (stmt (update_session_revoked uuid i now))) (\<lambda>n.
     if n = 0 then fail ErrNotFound else ret ())"

definition SessionCount :: "int \<Rightarrow> time \<Rightarrow> int repo" where
  "SessionCount m now =
     query (\<lambda>db. Inr (count_where
       (\<lambda>s. ses_MemberID s = m \<and> ses_RevokedAt s = None \<and> ses_ExpiresAt s > now) (db_sessions db)))"

definition delete_expired_sessions :: "time \<Rightarrow> int statement" where
  "delete_expired_sessions cutoff now db =
     (let hit = (\<lambda>s. ses_ExpiresAt s \<le> cutoff \<or> ses_RevokedAt s \<noteq> None) in
      (Inr (count_where hit (db_sessions db)),
       db\<lparr>db_sessions := filter (\<lambda>s. \<not> hit s) (db_sessions db)\<rparr>))"

definition DeleteExpiredSessions :: "time \<Rightarrow> int repo" where
  "DeleteExpiredSessions now =
     (if now = 0 then fail ErrInvalid else stmt (delete_expired_sessions now))"

definition VacuumSessions :: "time \<Rightarrow> int repo" where
  "VacuumSessions now = DeleteExpiredSessions now"

section \<open>Devices\<close>

definition insert_device :: "device \<Rightarrow> device statement" where
  "insert_device d now db =
     (let r = \<lparr>dev_ID = next_id TDevices db, dev_HouseholdID = dev_HouseholdID d,
               dev_ExternalID = dev_ExternalID d, dev_Kind = dev_Kind d, dev_State = DevicePending,
               dev_Firmware = dev_Firmware d, dev_Version = 1, dev_LastSeenAt = None,
               dev_CreatedAt = now\<rparr>
      in insert_row TDevices
           [((case dev_Kind d of KindOther s \<Rightarrow> False | _ \<Rightarrow> True), pg_check ''devices_kind_check''),
            ((dev_HouseholdID d, dev_ExternalID d) \<notin>
               (\<lambda>d. (dev_HouseholdID d, dev_ExternalID d)) ` set (db_devices db),
             pg_unique ''devices_household_id_external_id_key''),
            (dev_HouseholdID d \<in> hh_ID ` set (db_households db), pg_foreign ''devices_household_id_fkey'')]
           r (\<lambda>x. x\<lparr>db_devices := db_devices x @ [r]\<rparr>) db)"

definition insert_capability :: "int \<Rightarrow> string \<Rightarrow> unit statement" where
  "insert_capability i capability now db =
     (case first_violation
        [((i, capability) \<notin> set (db_capabilities db), pg_unique ''device_capabilities_pkey''),
         (i \<in> dev_ID ` set (db_devices db), pg_foreign ''device_capabilities_device_id_fkey'')] of
        Some e \<Rightarrow> (Inl e, db)
      | None \<Rightarrow> (Inr (), db\<lparr>db_capabilities := db_capabilities db @ [(i, capability)]\<rparr>))"

definition CreateDevice :: "device \<Rightarrow> string list \<Rightarrow> device repo" where
  "CreateDevice d capabilities =
     WithTx
       (and_then (map_err classify_write_error (stmt (insert_device d))) (\<lambda>out.
        and_then (for_each (\<lambda>c. map_err classify_write_error (stmt (insert_capability (dev_ID out) c)))
                    capabilities) (\<lambda>_.
        ret out)))"

definition GetDevice :: "int \<Rightarrow> device repo" where
  "GetDevice i =
     map_err classify_read_error (query (\<lambda>db. one_row (\<lambda>d. dev_ID d = i) (db_devices db)))"

text \<open>
  The optimistic update: it touches the device only in the expected state and version. The CHECK
  on the state and the range of \<^verbatim>\<open>BIGINT\<close> apply to the row the update would write.
\<close>

definition update_device_state ::
    "int \<Rightarrow> device_state \<Rightarrow> device_state \<Rightarrow> int \<Rightarrow> int statement" where
  "update_device_state i from to expectedVersion now db =
     (let hit = (\<lambda>d. dev_ID d = i \<and> dev_State d = from \<and> dev_Version d = expectedVersion) in
      if \<not> list_ex hit (db_devices db) then (Inr 0, db)
      else if expectedVersion = max_i64 then (Inl (pg_out_of_range ''bigint''), db)
      else if (case to of DeviceOther s \<Rightarrow> True | _ \<Rightarrow> False) then (Inl (pg_check ''devices_state_check''), db)
      else (Inr (count_where hit (db_devices db)),
            db\<lparr>db_devices := update_where hit
                 (\<lambda>d. d\<lparr>dev_State := to, dev_Version := dev_Version d + 1\<rparr>) (db_devices db)\<rparr>))"

definition TransitionDevice ::
    "int \<Rightarrow> device_state \<Rightarrow> device_state \<Rightarrow> int \<Rightarrow> unit repo" where
  "TransitionDevice i from to expectedVersion =
     and_then (map_err classify_write_error (stmt (update_device_state i from to expectedVersion))) (\<lambda>n.
     if n = 0 then fail ErrConflict else ret ())"

definition update_device_seen :: "int \<Rightarrow> time \<Rightarrow> int statement" where
  "update_device_seen i when now db =
     (let hit = (\<lambda>d. dev_ID d = i) in
      (Inr (count_where hit (db_devices db)),
       db\<lparr>db_devices := update_where hit (\<lambda>d. d\<lparr>dev_LastSeenAt := Some when\<rparr>) (db_devices db)\<rparr>))"

definition TouchDevice :: "int \<Rightarrow> time \<Rightarrow> unit repo" where
  "TouchDevice i when =
     and_then (map_err classify_write_error (stmt (update_device_seen i when))) (\<lambda>n.
     if n = 0 then fail ErrNotFound else ret ())"

definition upsert_capability :: "int \<Rightarrow> string \<Rightarrow> unit statement" where
  "upsert_capability i capability now db =
     (if (i, capability) \<in> set (db_capabilities db) then (Inr (), db)
      else insert_capability i capability now db)"

definition AddCapability :: "int \<Rightarrow> string \<Rightarrow> unit repo" where
  "AddCapability i capability =
     (if capability = [] then fail ErrInvalid
      else map_err classify_write_error (stmt (upsert_capability i capability)))"

record device_filter =
  df_HouseholdID :: int
  df_States :: "device_state list"
  df_Kinds :: "device_kind list"
  df_Query :: string
  df_Limit :: int
  df_Offset :: int

definition DeviceFilter_Normalize :: "device_filter \<Rightarrow> err + device_filter" where
  "DeviceFilter_Normalize f =
     (if df_HouseholdID f \<le> 0 \<or> df_Offset f < 0 \<or> df_Limit f < 0 \<or> df_Limit f > 200 then Inl ErrInvalid
      else let g = (if df_Limit f = 0 then f\<lparr>df_Limit := 50\<rparr> else f)
           in Inr (g\<lparr>df_Query := trim_space (df_Query g)\<rparr>))"

text \<open>\<open>ilike\<close> is the server's \<^verbatim>\<open>ILIKE\<close>, applied to a text and a pattern.\<close>

definition SearchDevices :: "(string \<Rightarrow> string \<Rightarrow> bool) \<Rightarrow> device_filter \<Rightarrow> device list repo" where
  "SearchDevices ilike f0 =
     (case DeviceFilter_Normalize f0 of
        Inl e \<Rightarrow> fail e
      | Inr f \<Rightarrow>
          let pattern = ''%'' @ df_Query f @ ''%'';
              hit = (\<lambda>d. dev_HouseholdID d = df_HouseholdID f \<and>
                (df_Query f = [] \<or> ilike (dev_ExternalID d) pattern \<or> ilike (dev_Firmware d) pattern) \<and>
                (df_States f = [] \<or> dev_State d \<in> set (df_States f)) \<and>
                (df_Kinds f = [] \<or> dev_Kind d \<in> set (df_Kinds f)));
              newest = (\<lambda>a b. (dev_CreatedAt b, dev_ID b) < (dev_CreatedAt a, dev_ID a))
          in query (\<lambda>db. Inr (take (nat (df_Limit f)) (drop (nat (df_Offset f))
               (slice_stable newest (filter hit (db_devices db)))))))"

definition CountDevices :: "int \<Rightarrow> device_state option \<Rightarrow> int repo" where
  "CountDevices h state =
     (if h \<le> 0 then fail ErrInvalid
      else query (\<lambda>db. Inr (count_where
        (\<lambda>d. dev_HouseholdID d = h \<and> (case state of None \<Rightarrow> True | Some s \<Rightarrow> dev_State d = s))
        (db_devices db))))"

section \<open>Telemetry\<close>

text \<open>\<^verbatim>\<open>INSERT ... SELECT\<close>: a row is written for the device with that id if it is enabled.\<close>

definition insert_telemetry :: "pg \<Rightarrow> telemetry \<Rightarrow> int statement" where
  "insert_telemetry p t now db =
     (if \<not> list_ex (\<lambda>d. dev_ID d = tel_DeviceID t \<and> dev_State d = DeviceEnabled) (db_devices db)
      then (Inr 0, db)
      else case (numeric_12_3 p (tel_PowerWatts t),
                 case tel_TemperatureC t of None \<Rightarrow> Inr None | Some x \<Rightarrow> map_sum id Some (numeric_8_3 p x)) of
        (Inl e, _) \<Rightarrow> (Inl e, bump TTelemetry db)
      | (Inr w, Inl e) \<Rightarrow> (Inl e, bump TTelemetry db)
      | (Inr w, Inr c) \<Rightarrow>
          (let r = \<lparr>tel_ID = next_id TTelemetry db, tel_DeviceID = tel_DeviceID t,
                    tel_Sequence = tel_Sequence t, tel_PowerWatts = w, tel_TemperatureC = c,
                    tel_MeasuredAt = tel_MeasuredAt t, tel_ReceivedAt = now\<rparr>
           in insert_row TTelemetry
                [((tel_DeviceID t, tel_Sequence t) \<notin>
                    (\<lambda>t. (tel_DeviceID t, tel_Sequence t)) ` set (db_telemetry db),
                  pg_unique ''telemetry_device_id_sequence_key'')]
                1 (\<lambda>d. d\<lparr>db_telemetry := db_telemetry d @ [r]\<rparr>) db))"

definition InsertTelemetry :: "pg \<Rightarrow> telemetry \<Rightarrow> unit repo" where
  "InsertTelemetry p t =
     and_then (map_err classify_write_error (stmt (insert_telemetry p t))) (\<lambda>n.
     if n \<noteq> 1 then fail (Wrapf [] ErrConflict '': telemetry device is not enabled'') else ret ())"

definition TelemetryWindow :: "int \<Rightarrow> time \<Rightarrow> time \<Rightarrow> telemetry list repo" where
  "TelemetryWindow deviceID start stop =
     query (\<lambda>db. Inr (slice_stable measured_before
       (filter (\<lambda>t. tel_DeviceID t = deviceID \<and> start \<le> tel_MeasuredAt t \<and> tel_MeasuredAt t < stop)
          (db_telemetry db))))"

definition delete_telemetry_before :: "time \<Rightarrow> int statement" where
  "delete_telemetry_before cutoff now db =
     (let hit = (\<lambda>t. tel_MeasuredAt t < cutoff) in
      (Inr (count_where hit (db_telemetry db)),
       db\<lparr>db_telemetry := filter (\<lambda>t. \<not> hit t) (db_telemetry db)\<rparr>))"

definition DeleteTelemetryBefore :: "time \<Rightarrow> int repo" where
  "DeleteTelemetryBefore cutoff = stmt (delete_telemetry_before cutoff)"

section \<open>Energy plans\<close>

definition insert_plan :: "energy_plan \<Rightarrow> energy_plan statement" where
  "insert_plan p now db =
     (let r = \<lparr>plan_ID = next_id TPlans db, plan_HouseholdID = plan_HouseholdID p,
               plan_Name = plan_Name p, plan_State = PlanDraft, plan_BudgetCents = plan_BudgetCents p,
               plan_StartsAt = plan_StartsAt p, plan_EndsAt = plan_EndsAt p, plan_CreatedAt = now\<rparr>
      in insert_row TPlans
           [(0 \<le> plan_BudgetCents p, pg_check ''energy_plans_budget_cents_check''),
            (plan_HouseholdID p \<in> hh_ID ` set (db_households db), pg_foreign ''energy_plans_household_id_fkey'')]
           r (\<lambda>d. d\<lparr>db_plans := db_plans d @ [r]\<rparr>) db)"

definition enabled_in :: "int \<Rightarrow> int \<Rightarrow> device \<Rightarrow> bool" where
  "enabled_in i h d \<longleftrightarrow> dev_ID d = i \<and> dev_HouseholdID d = h \<and> dev_State d = DeviceEnabled"

definition insert_plan_device :: "pg \<Rightarrow> int \<Rightarrow> int \<Rightarrow> f64 \<Rightarrow> int \<Rightarrow> int statement" where
  "insert_plan_device p planID deviceID watts h now db =
     (if \<not> list_ex (enabled_in deviceID h) (db_devices db) then (Inr 0, db)
      else case numeric_12_3 p watts of
        Inl e \<Rightarrow> (Inl e, db)
      | Inr v \<Rightarrow>
          (case first_violation
             [(\<not> v < 0, pg_check ''plan_devices_target_watts_check''),
              ((planID, deviceID) \<notin> (\<lambda>l. (pd_PlanID l, pd_DeviceID l)) ` set (db_plan_devices db),
               pg_unique ''plan_devices_pkey''),
              (planID \<in> plan_ID ` set (db_plans db), pg_foreign ''plan_devices_plan_id_fkey'')] of
             Some e \<Rightarrow> (Inl e, db)
           | None \<Rightarrow> (Inr 1, db\<lparr>db_plan_devices := db_plan_devices db @
               [\<lparr>pd_PlanID = planID, pd_DeviceID = deviceID, pd_TargetWatts = v\<rparr>]\<rparr>)))"

definition CreatePlan :: "pg \<Rightarrow> energy_plan \<Rightarrow> plan_device list \<Rightarrow> energy_plan repo" where
  "CreatePlan pg p devices =
     WithTx
       (and_then (map_err classify_write_error (stmt (insert_plan p))) (\<lambda>out.
        and_then
          (for_each (\<lambda>d.
             and_then (map_err classify_write_error
                (stmt (insert_plan_device pg (plan_ID out) (pd_DeviceID d) (pd_TargetWatts d)
                         (plan_HouseholdID p)))) (\<lambda>n.
             if n \<noteq> 1 then fail (Wrapf [] ErrConflict ('': plan device '' @ show_int (pd_DeviceID d) @
                 '' is not enabled in household '' @ show_int (plan_HouseholdID p)))
             else ret ())) devices) (\<lambda>_.
        ret out)))"

definition GetPlan :: "int \<Rightarrow> energy_plan repo" where
  "GetPlan i =
     map_err classify_read_error (query (\<lambda>db. one_row (\<lambda>p. plan_ID p = i) (db_plans db)))"

definition PlanDevices :: "int \<Rightarrow> plan_device list repo" where
  "PlanDevices planID =
     query (\<lambda>db. Inr (slice_stable (\<lambda>a b. pd_DeviceID a < pd_DeviceID b)
       (filter (\<lambda>l. pd_PlanID l = planID) (db_plan_devices db))))"

definition ListPlans :: "int \<Rightarrow> plan_state option \<Rightarrow> energy_plan list repo" where
  "ListPlans h state =
     query (\<lambda>db. Inr (slice_stable (\<lambda>a b. plan_StartsAt b < plan_StartsAt a)
       (filter (\<lambda>p. plan_HouseholdID p = h \<and> (case state of None \<Rightarrow> True | Some s \<Rightarrow> plan_State p = s))
          (db_plans db))))"

text \<open>
  The guard of the update: a plan may only start running while every linked device is enabled and
  of the plan's household.
\<close>

definition links_ready :: "database \<Rightarrow> energy_plan \<Rightarrow> bool" where
  "links_ready db p \<longleftrightarrow>
     \<not> list_ex (\<lambda>l. pd_PlanID l = plan_ID p \<and>
        list_ex (\<lambda>d. dev_ID d = pd_DeviceID l \<and>
           (dev_State d \<noteq> DeviceEnabled \<or> dev_HouseholdID d \<noteq> plan_HouseholdID p)) (db_devices db))
       (db_plan_devices db)"

definition update_plan_state :: "int \<Rightarrow> plan_state \<Rightarrow> plan_state \<Rightarrow> int statement" where
  "update_plan_state i from to now db =
     (let hit = (\<lambda>p. plan_ID p = i \<and> plan_State p = from \<and> (to \<noteq> PlanRunning \<or> links_ready db p)) in
      (Inr (count_where hit (db_plans db)),
       db\<lparr>db_plans := update_where hit (\<lambda>p. p\<lparr>plan_State := to\<rparr>) (db_plans db)\<rparr>))"

definition SetPlanState :: "int \<Rightarrow> plan_state \<Rightarrow> plan_state \<Rightarrow> unit repo" where
  "SetPlanState i from to =
     and_then (stmt (update_plan_state i from to)) (\<lambda>n.
     if n = 0 then fail ErrConflict else ret ())"

definition expire_plans :: "time \<Rightarrow> int statement" where
  "expire_plans cutoff now db =
     (let hit = (\<lambda>p. (plan_State p = PlanDraft \<or> plan_State p = PlanScheduled) \<and> plan_EndsAt p < cutoff) in
      (Inr (count_where hit (db_plans db)),
       db\<lparr>db_plans := update_where hit (\<lambda>p. p\<lparr>plan_State := PlanCancelled\<rparr>) (db_plans db)\<rparr>))"

definition ExpirePlans :: "time \<Rightarrow> int repo" where
  "ExpirePlans now = stmt (expire_plans now)"

section \<open>Owners of resources and statistics\<close>

text \<open>\<^verbatim>\<open>resourceHousehold\<close>, with its query as the function that finds the rows.\<close>

definition resource_household :: "(database \<Rightarrow> err + int) \<Rightarrow> int \<Rightarrow> int repo" where
  "resource_household find_row i =
     (if i \<le> 0 then fail ErrInvalid
      else map_err (\<lambda>e. if err_is e ErrNoRows then ErrNotFound else e) (query find_row))"

definition DeviceHousehold :: "int \<Rightarrow> int repo" where
  "DeviceHousehold i =
     resource_household (\<lambda>db. map_sum id dev_HouseholdID (one_row (\<lambda>d. dev_ID d = i) (db_devices db))) i"

definition PlanHousehold :: "int \<Rightarrow> int repo" where
  "PlanHousehold i =
     resource_household (\<lambda>db. map_sum id plan_HouseholdID (one_row (\<lambda>p. plan_ID p = i) (db_plans db))) i"

definition AutomationHousehold :: "int \<Rightarrow> int repo" where
  "AutomationHousehold i =
     resource_household (\<lambda>db. map_sum id aut_HouseholdID (one_row (\<lambda>a. aut_ID a = i) (db_automations db))) i"

record stats =
  st_Households :: int
  st_Members :: int
  st_Devices :: int
  st_Telemetry :: int
  st_Alerts :: int
  st_Plans :: int
  st_Automations :: int

text \<open>The loop over the seven counting queries: each stores its count in its field.\<close>

fun count_tables :: "(string \<times> (database \<Rightarrow> int) \<times> (int \<Rightarrow> stats \<Rightarrow> stats)) list \<Rightarrow> stats \<Rightarrow> stats repo" where
  "count_tables [] s = ret s"
| "count_tables ((name, cnt, dest) # qs) s =
     and_then (map_err (wrap_op (''count '' @ name)) (query (\<lambda>db. Inr (cnt db)))) (\<lambda>n.
     count_tables qs (dest n s))"

definition Stats :: "stats repo" where
  "Stats = count_tables
     [(''households'', \<lambda>db. int (length (db_households db)), \<lambda>n s. s\<lparr>st_Households := n\<rparr>),
      (''members'', \<lambda>db. int (length (db_members db)), \<lambda>n s. s\<lparr>st_Members := n\<rparr>),
      (''devices'', \<lambda>db. int (length (db_devices db)), \<lambda>n s. s\<lparr>st_Devices := n\<rparr>),
      (''telemetry'', \<lambda>db. int (length (db_telemetry db)), \<lambda>n s. s\<lparr>st_Telemetry := n\<rparr>),
      (''alerts'', \<lambda>db. int (length (db_alerts db)), \<lambda>n s. s\<lparr>st_Alerts := n\<rparr>),
      (''energy_plans'', \<lambda>db. int (length (db_plans db)), \<lambda>n s. s\<lparr>st_Plans := n\<rparr>),
      (''automations'', \<lambda>db. int (length (db_automations db)), \<lambda>n s. s\<lparr>st_Automations := n\<rparr>)]
     \<lparr>st_Households = 0, st_Members = 0, st_Devices = 0, st_Telemetry = 0, st_Alerts = 0,
      st_Plans = 0, st_Automations = 0\<rparr>"

text \<open>\<^verbatim>\<open>HealthSnapshot\<close> pings the server first; the answer holds the statistics next to a constant.\<close>

definition HealthSnapshot :: "stats repo" where
  "HealthSnapshot = and_then driver_call (\<lambda>_. Stats)"

end
