(* ===== verification/Repo_Work.thy ===== *)
theory Repo_Work
  imports Repo_Core
begin

text \<open>
  The repository of automations, runs, the outbox, audit events and alerts:
  \<^verbatim>\<open>internal/repo/repo.go\<close> (its second half), \<^verbatim>\<open>automation.go\<close>, \<^verbatim>\<open>outbox.go\<close>,
  \<^verbatim>\<open>alerts.go\<close>, \<^verbatim>\<open>transaction.go\<close> and the outbox queries of \<^verbatim>\<open>queries.go\<close>.
  \<^verbatim>\<open>FOR UPDATE SKIP LOCKED\<close> passes over rows other transactions hold; here transactions do
  not overlap, so it passes over none.
\<close>

section \<open>Automations\<close>

definition insert_automation :: "automation \<Rightarrow> automation statement" where
  "insert_automation a now db =
     (let r = \<lparr>aut_ID = next_id TAutomations db, aut_HouseholdID = aut_HouseholdID a,
               aut_Name = aut_Name a, aut_State = AutomationDraft,
               aut_TriggerKind = aut_TriggerKind a, aut_CreatedAt = now\<rparr>
      in insert_row TAutomations
           [(aut_HouseholdID a \<in> hh_ID ` set (db_households db), pg_foreign ''automations_household_id_fkey'')]
           r (\<lambda>d. d\<lparr>db_automations := db_automations d @ [r]\<rparr>) db)"

text \<open>The ordinal is bound to an \<^verbatim>\<open>INT\<close> parameter, so the server refuses a wider value first.\<close>

definition fits_int4 :: "int \<Rightarrow> bool" where
  "fits_int4 n \<longleftrightarrow> - 2147483648 \<le> n \<and> n \<le> 2147483647"

definition insert_action :: "int \<Rightarrow> automation_action \<Rightarrow> int \<Rightarrow> int statement" where
  "insert_action automationID a h now db =
     (if \<not> fits_int4 (act_Ordinal a) then (Inl (pg_out_of_range ''integer''), db)
      else if \<not> list_ex (enabled_in (act_DeviceID a) h) (db_devices db) then (Inr 0, db)
      else let r = \<lparr>act_ID = next_id TActions db, act_AutomationID = automationID,
                    act_DeviceID = act_DeviceID a, act_Action = act_Action a,
                    act_Ordinal = act_Ordinal a\<rparr>
           in insert_row TActions
                [(0 \<le> act_Ordinal a, pg_check ''automation_actions_ordinal_check''),
                 ((automationID, act_Ordinal a) \<notin>
                    (\<lambda>a. (act_AutomationID a, act_Ordinal a)) ` set (db_actions db),
                  pg_unique ''automation_actions_automation_id_ordinal_key''),
                 (automationID \<in> aut_ID ` set (db_automations db),
                  pg_foreign ''automation_actions_automation_id_fkey'')]
                1 (\<lambda>d. d\<lparr>db_actions := db_actions d @ [r]\<rparr>) db)"

definition CreateAutomation :: "automation \<Rightarrow> automation_action list \<Rightarrow> automation repo" where
  "CreateAutomation a actions =
     WithTx
       (and_then (map_err classify_write_error (stmt (insert_automation a))) (\<lambda>out.
        and_then
          (for_each (\<lambda>x.
             and_then (map_err classify_write_error
                (stmt (insert_action (aut_ID out) x (aut_HouseholdID a)))) (\<lambda>n.
             if n \<noteq> 1 then fail (Wrapf [] ErrConflict ('': automation device '' @ show_int (act_DeviceID x) @
                 '' is not enabled in household '' @ show_int (aut_HouseholdID a)))
             else ret ())) actions) (\<lambda>_.
        ret out)))"

definition GetAutomation :: "int \<Rightarrow> automation repo" where
  "GetAutomation i =
     map_err classify_read_error (query (\<lambda>db. one_row (\<lambda>a. aut_ID a = i) (db_automations db)))"

definition Actions :: "int \<Rightarrow> automation_action list repo" where
  "Actions i =
     query (\<lambda>db. Inr (slice_stable (\<lambda>a b. act_Ordinal a < act_Ordinal b)
       (filter (\<lambda>a. act_AutomationID a = i) (db_actions db))))"

definition update_automation_state ::
    "int \<Rightarrow> automation_state \<Rightarrow> automation_state \<Rightarrow> int statement" where
  "update_automation_state i from to now db =
     (let hit = (\<lambda>a. aut_ID a = i \<and> aut_State a = from) in
      (Inr (count_where hit (db_automations db)),
       db\<lparr>db_automations := update_where hit (\<lambda>a. a\<lparr>aut_State := to\<rparr>) (db_automations db)\<rparr>))"

definition SetAutomationState :: "int \<Rightarrow> automation_state \<Rightarrow> automation_state \<Rightarrow> unit repo" where
  "SetAutomationState i from to =
     and_then (stmt (update_automation_state i from to)) (\<lambda>n.
     if n \<noteq> 1 then fail ErrConflict else ret ())"

section \<open>Runs\<close>

definition scan_run :: "run_row \<Rightarrow> automation_run" where
  "scan_run r = \<lparr>run_ID = rr_ID r, run_AutomationID = rr_AutomationID r,
     run_IdempotencyKey = rr_IdempotencyKey r, run_State = rr_State r, run_ErrorText = [],
     run_StartedAt = None, run_FinishedAt = None\<rparr>"

text \<open>
  \<^verbatim>\<open>INSERT ... SELECT ... ON CONFLICT DO UPDATE ... RETURNING\<close>: nothing for an automation that
  is not active, the existing run for a known key (whose update changes nothing), a new run
  otherwise. The default of the id is evaluated for the proposed row, conflict or not.
\<close>

definition upsert_run :: "int \<Rightarrow> string \<Rightarrow> automation_run statement" where
  "upsert_run automationID key now db =
     (if \<not> list_ex (\<lambda>a. aut_ID a = automationID \<and> aut_State a = AutomationActive) (db_automations db)
      then (Inl ErrNoRows, db)
      else case one_row (\<lambda>r. rr_AutomationID r = automationID \<and> rr_IdempotencyKey r = key) (db_runs db) of
        Inr r \<Rightarrow> (Inr (scan_run r), bump TRuns db)
      | Inl _ \<Rightarrow>
          (let r = \<lparr>rr_ID = next_id TRuns db, rr_AutomationID = automationID, rr_IdempotencyKey = key,
                    rr_State = RunQueued, rr_ErrorText = None, rr_StartedAt = None, rr_FinishedAt = None\<rparr>
           in (Inr (scan_run r), (bump TRuns db)\<lparr>db_runs := db_runs db @ [r]\<rparr>)))"

definition QueueRun :: "int \<Rightarrow> string \<Rightarrow> automation_run repo" where
  "QueueRun automationID key =
     map_err (\<lambda>e. if err_is e ErrNoRows then ErrConflict else classify_write_error e)
       (stmt (upsert_run automationID key))"

text \<open>The row with the least id among those that satisfy a condition: \<^verbatim>\<open>ORDER BY id LIMIT 1\<close>.\<close>

definition least_by :: "('r \<Rightarrow> int) \<Rightarrow> ('r \<Rightarrow> bool) \<Rightarrow> 'r list \<Rightarrow> 'r option" where
  "least_by key p rows =
     (case slice_stable (\<lambda>a b. key a < key b) (filter p rows) of [] \<Rightarrow> None | r # _ \<Rightarrow> Some r)"

definition claim_run :: "automation_run statement" where
  "claim_run now db =
     (case least_by rr_ID (\<lambda>r. rr_State r = RunQueued) (db_runs db) of
        None \<Rightarrow> (Inl ErrNoRows, db)
      | Some c \<Rightarrow>
          (Inr ((scan_run c)\<lparr>run_State := RunRunning, run_StartedAt := Some now\<rparr>),
           db\<lparr>db_runs := update_where (\<lambda>r. rr_ID r = rr_ID c)
                (\<lambda>r. r\<lparr>rr_State := RunRunning, rr_StartedAt := Some now\<rparr>) (db_runs db)\<rparr>))"

definition ClaimRun :: "automation_run repo" where
  "ClaimRun = stmt claim_run"

definition running :: "int \<Rightarrow> run_row \<Rightarrow> bool" where
  "running i r \<longleftrightarrow> rr_ID r = i \<and> rr_State r = RunRunning"

definition update_run :: "int \<Rightarrow> (run_row \<Rightarrow> run_row) \<Rightarrow> int statement" where
  "update_run i f now db =
     (Inr (count_where (running i) (db_runs db)),
      db\<lparr>db_runs := update_where (running i) f (db_runs db)\<rparr>)"

definition FinishRun :: "int \<Rightarrow> run_state \<Rightarrow> string \<Rightarrow> time \<Rightarrow> unit repo" where
  "FinishRun i state cause now =
     and_then (map_err classify_write_error (stmt (update_run i
       (\<lambda>r. r\<lparr>rr_State := state, rr_ErrorText := Some cause, rr_FinishedAt := Some now\<rparr>)))) (\<lambda>n.
     if n \<noteq> 1 then fail ErrConflict else ret ())"

definition RequeueRun :: "int \<Rightarrow> unit repo" where
  "RequeueRun i =
     and_then (map_err classify_write_error (stmt (update_run i
       (\<lambda>r. r\<lparr>rr_State := RunQueued, rr_StartedAt := None, rr_ErrorText := None,
              rr_FinishedAt := None\<rparr>)))) (\<lambda>n.
     if n \<noteq> 1 then fail ErrConflict else ret ())"

definition fail_stale_runs :: "time \<Rightarrow> int statement" where
  "fail_stale_runs cutoff now db =
     (let hit = (\<lambda>r. rr_State r = RunRunning \<and> (case rr_StartedAt r of None \<Rightarrow> False | Some t \<Rightarrow> t < cutoff)) in
      (Inr (count_where hit (db_runs db)),
       db\<lparr>db_runs := update_where hit
            (\<lambda>r. r\<lparr>rr_State := RunFailed, rr_ErrorText := Some ''worker timeout'',
                   rr_FinishedAt := Some now\<rparr>) (db_runs db)\<rparr>))"

definition FinishStaleRuns :: "time \<Rightarrow> int repo" where
  "FinishStaleRuns cutoff = stmt (fail_stale_runs cutoff)"

section \<open>Audit events and outbox messages\<close>

text \<open>A row of each table, its JSON already converted: what the INSERT statements store.\<close>

definition insert_audit_row ::
    "int \<Rightarrow> int option \<Rightarrow> string \<Rightarrow> string \<Rightarrow> string \<Rightarrow> string \<Rightarrow> json \<Rightarrow> unit statement" where
  "insert_audit_row h actor request otype oid act payload now db =
     (let r = \<lparr>aur_ID = next_id TAudit db, aur_HouseholdID = h, aur_ActorMemberID = actor,
               aur_RequestID = request, aur_ObjectType = otype, aur_ObjectID = oid,
               aur_Action = act, aur_Payload = payload, aur_CreatedAt = now\<rparr>
      in insert_row TAudit
           [(h \<in> hh_ID ` set (db_households db), pg_foreign ''audit_events_household_id_fkey''),
            ((case actor of None \<Rightarrow> True | Some m \<Rightarrow> m \<in> mem_ID ` set (db_members db)),
             pg_foreign ''audit_events_actor_member_id_fkey'')]
           () (\<lambda>d. d\<lparr>db_audit := db_audit d @ [r]\<rparr>) db)"

definition insert_outbox_row :: "int \<Rightarrow> string \<Rightarrow> json \<Rightarrow> time \<Rightarrow> unit statement" where
  "insert_outbox_row h topic payload available now db =
     (let r = \<lparr>obr_ID = next_id TOutbox db, obr_HouseholdID = h, obr_Topic = topic,
               obr_Payload = payload, obr_Attempts = 0, obr_AvailableAt = available,
               obr_LockedAt = None, obr_DeliveredAt = None, obr_FailedAt = None,
               obr_FailureReason = None\<rparr>
      in insert_row TOutbox
           [(h \<in> hh_ID ` set (db_households db), pg_foreign ''outbox_messages_household_id_fkey'')]
           () (\<lambda>d. d\<lparr>db_outbox := db_outbox d @ [r]\<rparr>) db)"

definition insert_audit :: "pg \<Rightarrow> audit_event \<Rightarrow> unit statement" where
  "insert_audit p e now db =
     (case jsonb_in p (aud_Payload e) of
        Inl x \<Rightarrow> (Inl x, db)
      | Inr j \<Rightarrow> insert_audit_row (aud_HouseholdID e) (aud_ActorMemberID e) (aud_RequestID e)
          (aud_ObjectType e) (aud_ObjectID e) (aud_Action e) j now db)"

definition AddAudit :: "pg \<Rightarrow> audit_event \<Rightarrow> unit repo" where
  "AddAudit p e = map_err classify_write_error (stmt (insert_audit p e))"

definition insert_outbox :: "pg \<Rightarrow> outbox_message \<Rightarrow> unit statement" where
  "insert_outbox p m now db =
     (case jsonb_in p (out_Payload m) of
        Inl x \<Rightarrow> (Inl x, db)
      | Inr j \<Rightarrow> insert_outbox_row (out_HouseholdID m) (out_Topic m) j (out_AvailableAt m) now db)"

definition AddOutbox :: "pg \<Rightarrow> outbox_message \<Rightarrow> unit repo" where
  "AddOutbox p m = map_err classify_write_error (stmt (insert_outbox p m))"

definition scan_outbox :: "pg \<Rightarrow> outbox_row \<Rightarrow> outbox_message" where
  "scan_outbox p r = \<lparr>out_ID = obr_ID r, out_HouseholdID = obr_HouseholdID r, out_Topic = obr_Topic r,
     out_Payload = jsonb_out p (obr_Payload r), out_Attempts = obr_Attempts r,
     out_AvailableAt = obr_AvailableAt r, out_LockedAt = obr_LockedAt r,
     out_DeliveredAt = obr_DeliveredAt r, out_FailedAt = obr_FailedAt r,
     out_FailureReason = obr_FailureReason r\<rparr>"

text \<open>A message is pending until it is delivered or failed; a claim leases it for five minutes.\<close>

definition pending :: "outbox_row \<Rightarrow> bool" where
  "pending r \<longleftrightarrow> obr_DeliveredAt r = None \<and> obr_FailedAt r = None"

definition claimable :: "time \<Rightarrow> outbox_row \<Rightarrow> bool" where
  "claimable now r \<longleftrightarrow> pending r \<and> obr_AvailableAt r \<le> now \<and>
     (case obr_LockedAt r of None \<Rightarrow> True | Some l \<Rightarrow> l < now - 5 * minute)"

definition claim_outbox :: "pg \<Rightarrow> outbox_message statement" where
  "claim_outbox p now db =
     (case least_by obr_ID (claimable now) (db_outbox db) of
        None \<Rightarrow> (Inl ErrNoRows, db)
      | Some c \<Rightarrow>
          if obr_Attempts c = 2147483647 then (Inl (pg_out_of_range ''integer''), db)
          else let f = (\<lambda>r. r\<lparr>obr_LockedAt := Some now, obr_Attempts := obr_Attempts r + 1\<rparr>) in
            (Inr (scan_outbox p (f c)),
             db\<lparr>db_outbox := update_where (\<lambda>r. obr_ID r = obr_ID c) f (db_outbox db)\<rparr>))"

definition ClaimOutbox :: "pg \<Rightarrow> outbox_message repo" where
  "ClaimOutbox p = stmt (claim_outbox p)"

text \<open>The guard the three closing updates share: \<^verbatim>\<open>WHERE id=$1 AND delivered_at IS NULL AND
  failed_at IS NULL\<close>.\<close>

definition update_pending :: "int \<Rightarrow> (time \<Rightarrow> outbox_row \<Rightarrow> outbox_row) \<Rightarrow> int statement" where
  "update_pending i f now db =
     (let hit = (\<lambda>r. obr_ID r = i \<and> pending r) in
      (Inr (count_where hit (db_outbox db)),
       db\<lparr>db_outbox := update_where hit (f now) (db_outbox db)\<rparr>))"

definition MarkOutbox :: "int \<Rightarrow> bool \<Rightarrow> time \<Rightarrow> unit repo" where
  "MarkOutbox i delivered next_at =
     and_then
       (if delivered
        then stmt (update_pending i (\<lambda>now r. r\<lparr>obr_DeliveredAt := Some now, obr_LockedAt := None\<rparr>))
        else stmt (update_pending i (\<lambda>now r. r\<lparr>obr_LockedAt := None, obr_AvailableAt := next_at\<rparr>))) (\<lambda>n.
     if n \<noteq> 1 then fail ErrConflict else ret ())"

definition MarkOutboxFailed :: "int \<Rightarrow> string \<Rightarrow> unit repo" where
  "MarkOutboxFailed i reason =
     and_then
       (stmt (update_pending i (\<lambda>now r. r\<lparr>obr_LockedAt := None, obr_FailedAt := Some now,
          obr_FailureReason := Some reason\<rparr>))) (\<lambda>n.
     if n \<noteq> 1 then fail ErrConflict else ret ())"

text \<open>
  The payload of \<^verbatim>\<open>RescheduleOutbox\<close>, its text made by \<^verbatim>\<open>json.Marshal\<close>, which writes the keys
  of a map in order; \<open>quoted\<close> is its rendering of a string.
\<close>

definition attempt_json :: "(string \<Rightarrow> string) \<Rightarrow> int \<Rightarrow> err option \<Rightarrow> string" where
  "attempt_json quoted attempt e =
     ''{'' @ quoted ''attempt'' @ '':'' @ show_int attempt @ '','' @ quoted ''error'' @ '':'' @
     quoted (case e of None \<Rightarrow> [] | Some x \<Rightarrow> err_text x) @ ''}''"

definition reschedule_outbox :: "pg \<Rightarrow> (string \<Rightarrow> string) \<Rightarrow> int \<Rightarrow> int \<Rightarrow> time \<Rightarrow> err option \<Rightarrow> int statement" where
  "reschedule_outbox p quoted i attempt next_at e now db =
     (if \<not> fits_int4 attempt then (Inl (pg_out_of_range ''integer''), db)
      else case jsonb_in p (attempt_json quoted attempt e) of
        Inl x \<Rightarrow> (Inl x, db)
      | Inr j \<Rightarrow>
          if attempt < 0 \<and> list_ex (\<lambda>r. obr_ID r = i \<and> pending r) (db_outbox db)
          then (Inl (pg_check ''outbox_attempts_check''), db)
          else update_pending i (\<lambda>now r. r\<lparr>obr_Attempts := attempt, obr_AvailableAt := next_at,
                 obr_LockedAt := None, obr_Payload := jsonb_concat (obr_Payload r) j\<rparr>) now db)"

definition RescheduleOutbox ::
    "pg \<Rightarrow> (string \<Rightarrow> string) \<Rightarrow> int \<Rightarrow> int \<Rightarrow> time \<Rightarrow> err option \<Rightarrow> unit repo" where
  "RescheduleOutbox p quoted i attempt next_at e =
     and_then (stmt (reschedule_outbox p quoted i attempt next_at e)) (\<lambda>n.
     if n \<noteq> 1 then fail ErrConflict else ret ())"

definition by_availability :: "outbox_row \<Rightarrow> outbox_row \<Rightarrow> bool" where
  "by_availability a b \<longleftrightarrow> (obr_AvailableAt a, obr_ID a) < (obr_AvailableAt b, obr_ID b)"

definition ListOutbox :: "pg \<Rightarrow> string \<Rightarrow> time \<Rightarrow> int \<Rightarrow> outbox_message list repo" where
  "ListOutbox p topic before limit0 =
     (let limit = (if limit0 \<le> 0 \<or> limit0 > 500 then 100 else limit0);
          hit = (\<lambda>r. pending r \<and> (topic = [] \<or> obr_Topic r = topic) \<and>
                     (before = 0 \<or> obr_AvailableAt r \<le> before))
      in query (\<lambda>db. Inr (map (scan_outbox p)
           (take (nat limit) (slice_stable by_availability (filter hit (db_outbox db)))))))"

text \<open>The text of its query and the number of its arguments: the placeholders in the text are numbered as the arguments are.\<close>

definition itoa :: "int \<Rightarrow> string" where
  "itoa v = (if v = 1 then ''1'' else if v = 2 then ''2'' else if v = 3 then ''3'' else if v = 4 then ''4'' else if v = 5 then ''5''
     else if v = 6 then ''6'' else if v = 7 then ''7'' else if v = 8 then ''8'' else ''9'')"

definition outbox_query :: "string \<Rightarrow> time \<Rightarrow> string \<times> int" where
  "outbox_query topic before =
     (let query0 = ''SELECT id,household_id,topic,payload,attempts,available_at,locked_at,delivered_at,failed_at,failure_reason FROM outbox_messages WHERE delivered_at IS NULL AND failed_at IS NULL'';
          (query1, args1) = (if topic \<noteq> [] then (query0 @ '' AND topic=$1'', 1) else (query0, 0));
          (query2, args2) = (if before \<noteq> 0 then (query1 @ '' AND available_at <= $'' @ itoa (args1 + 1), args1 + 1) else (query1, args1))
      in (query2 @ '' ORDER BY available_at,id LIMIT $'' @ itoa (args2 + 1), args2 + 1))"

fun placeholders :: "string \<Rightarrow> string" where
  "placeholders (c # d # s) = (if c = CHR ''$'' then d # placeholders s else placeholders (d # s))"
| "placeholders _ = []"

lemma outbox_query_numbered:
  "placeholders (fst (outbox_query topic before)) = take (nat (snd (outbox_query topic before))) ''123''"
  by (cases "topic = []"; cases "before = 0") (simp_all add: outbox_query_def itoa_def)

definition ReplayableOutbox :: "pg \<Rightarrow> time \<Rightarrow> int \<Rightarrow> outbox_message list repo" where
  "ReplayableOutbox p before limit =
     (if before = 0 \<or> limit \<le> 0 \<or> limit > 500 then fail ErrInvalid
      else query (\<lambda>db. Inr (map (scan_outbox p) (take (nat limit)
        (slice_stable by_availability
          (filter (\<lambda>r. pending r \<and> obr_AvailableAt r \<le> before) (db_outbox db)))))))"

section \<open>Executing a run\<close>

definition load_run :: "int \<Rightarrow> database \<Rightarrow> err + (int \<times> int)" where
  "load_run runID db =
     (case one_row (running runID) (db_runs db) of
        Inl e \<Rightarrow> Inl e
      | Inr r \<Rightarrow> map_sum id (\<lambda>a. (rr_AutomationID r, aut_HouseholdID a))
          (one_row (\<lambda>a. aut_ID a = rr_AutomationID r) (db_automations db)))"

record loaded_action =
  la_deviceID :: int
  la_action :: string
  la_ordinal :: int
  la_household :: int
  la_state :: device_state

definition load_actions :: "int \<Rightarrow> database \<Rightarrow> err + loaded_action list" where
  "load_actions automationID db =
     Inr (concat (map (\<lambda>a. map (\<lambda>d. \<lparr>la_deviceID = act_DeviceID a, la_action = act_Action a,
            la_ordinal = act_Ordinal a, la_household = dev_HouseholdID d, la_state = dev_State d\<rparr>)
          (filter (\<lambda>d. dev_ID d = act_DeviceID a) (db_devices db)))
        (slice_stable (\<lambda>a b. act_Ordinal a < act_Ordinal b)
          (filter (\<lambda>a. act_AutomationID a = automationID) (db_actions db)))))"

definition command_payload :: "int \<Rightarrow> int \<Rightarrow> loaded_action \<Rightarrow> json" where
  "command_payload automationID runID x =
     JObj [(''automation_id'', JNum (of_int automationID)), (''run_id'', JNum (of_int runID)),
           (''device_id'', JNum (of_int (la_deviceID x))), (''action'', JStr (la_action x)),
           (''ordinal'', JNum (of_int (la_ordinal x)))]"

definition enqueue_action :: "int \<Rightarrow> int \<Rightarrow> int \<Rightarrow> time \<Rightarrow> loaded_action \<Rightarrow> unit repo" where
  "enqueue_action h automationID runID finishedAt x =
     (if la_household x \<noteq> h \<or> la_state x \<noteq> DeviceEnabled
      then fail (Wrapf [] ErrConflict ('': automation device '' @ show_int (la_deviceID x) @
             '' is not enabled in household '' @ show_int h))
      else map_err (wrap_op ''enqueue automation action'')
        (stmt (insert_outbox_row h ''device.command'' (command_payload automationID runID x) finishedAt)))"

definition run_request_id :: "int \<Rightarrow> string" where
  "run_request_id runID = ''automation-run-'' @ show_int runID"

definition ExecuteAutomationRun :: "int \<Rightarrow> time \<Rightarrow> unit repo" where
  "ExecuteAutomationRun runID finishedAt =
     (if runID \<le> 0 \<or> finishedAt = 0 then fail ErrInvalid
      else WithTx
        (and_then (map_err (wrap_op ''lock automation run'') (query (load_run runID))) (\<lambda>(automationID, h).
         and_then (map_err (wrap_op ''load automation actions'') (query (load_actions automationID))) (\<lambda>actions.
         and_then (map_err (wrap_op ''iterate automation actions'') driver_call) (\<lambda>_.
         if actions = [] then fail (Wrapf [] ErrConflict '': automation has no actions'')
         else
         and_then (for_each (enqueue_action h automationID runID finishedAt) actions) (\<lambda>_.
         and_then (map_err (wrap_op ''audit automation run'')
           (stmt (insert_audit_row h None (run_request_id runID) ''automation_run''
              (show_int runID) ''dispatched''
              (JObj [(''action_count'', JNum (of_nat (length actions)))])))) (\<lambda>_.
         and_then (map_err (wrap_op ''finish automation run'')
           (stmt (update_run runID (\<lambda>r. r\<lparr>rr_State := RunSucceeded, rr_ErrorText := None,
              rr_FinishedAt := Some finishedAt\<rparr>)))) (\<lambda>n.
         if n \<noteq> 1 then fail ErrConflict else ret ()))))))))"

section \<open>Alerts\<close>

definition scan_alert :: "pg \<Rightarrow> alert_row \<Rightarrow> alert" where
  "scan_alert p r = \<lparr>al_ID = alr_ID r, al_HouseholdID = alr_HouseholdID r, al_DeviceID = alr_DeviceID r,
     al_Severity = alr_Severity r, al_Code = alr_Code r, al_State = alr_State r,
     al_Details = jsonb_out p (alr_Details r), al_CreatedAt = alr_CreatedAt r,
     al_ResolvedAt = alr_ResolvedAt r\<rparr>"

definition alert_states :: "string set" where
  "alert_states = {''open'', ''acknowledged'', ''resolved''}"

definition insert_alert :: "pg \<Rightarrow> alert \<Rightarrow> alert statement" where
  "insert_alert p a now db =
     (case jsonb_in p (if al_Details a = [] then ''{}'' else al_Details a) of
        Inl x \<Rightarrow> (Inl x, db)
      | Inr j \<Rightarrow>
          (let r = \<lparr>alr_ID = next_id TAlerts db, alr_HouseholdID = al_HouseholdID a,
                    alr_DeviceID = al_DeviceID a, alr_Severity = al_Severity a, alr_Code = al_Code a,
                    alr_State = ''open'', alr_Details = j, alr_CreatedAt = now, alr_ResolvedAt = None\<rparr>
           in insert_row TAlerts
                [(al_Severity a \<in> {''info'', ''warning'', ''critical''}, pg_check ''alerts_severity_check''),
                 (al_HouseholdID a \<in> hh_ID ` set (db_households db), pg_foreign ''alerts_household_id_fkey''),
                 ((case al_DeviceID a of None \<Rightarrow> True | Some d \<Rightarrow> d \<in> dev_ID ` set (db_devices db)),
                  pg_foreign ''alerts_device_id_fkey'')]
                (scan_alert p r) (\<lambda>d. d\<lparr>db_alerts := db_alerts d @ [r]\<rparr>) db))"

definition CreateAlert :: "pg \<Rightarrow> alert \<Rightarrow> alert repo" where
  "CreateAlert p a = map_err classify_write_error (stmt (insert_alert p a))"

definition GetAlert :: "pg \<Rightarrow> int \<Rightarrow> alert repo" where
  "GetAlert p i =
     map_err classify_read_error
       (query (\<lambda>db. map_sum id (scan_alert p) (one_row (\<lambda>a. alr_ID a = i) (db_alerts db))))"

definition update_alert_state :: "int \<Rightarrow> string \<Rightarrow> string \<Rightarrow> time \<Rightarrow> int statement" where
  "update_alert_state i from to when now db =
     (let hit = (\<lambda>a. alr_ID a = i \<and> alr_State a = from) in
      if list_ex hit (db_alerts db) \<and> to \<notin> alert_states then (Inl (pg_check ''alerts_state_check''), db)
      else (Inr (count_where hit (db_alerts db)),
            db\<lparr>db_alerts := update_where hit
                 (\<lambda>a. a\<lparr>alr_State := to,
                        alr_ResolvedAt := (if to = ''resolved'' then Some when else alr_ResolvedAt a)\<rparr>)
                 (db_alerts db)\<rparr>))"

definition TransitionAlert :: "int \<Rightarrow> string \<Rightarrow> string \<Rightarrow> time \<Rightarrow> unit repo" where
  "TransitionAlert i from to now =
     and_then (stmt (update_alert_state i from to now)) (\<lambda>n.
     if n = 0 then fail ErrConflict else ret ())"

definition ListAlerts :: "pg \<Rightarrow> int \<Rightarrow> string \<Rightarrow> alert list repo" where
  "ListAlerts p h state =
     query (\<lambda>db. Inr (map (scan_alert p) (slice_stable (\<lambda>a b. alr_CreatedAt b < alr_CreatedAt a)
       (filter (\<lambda>a. alr_HouseholdID a = h \<and> (state = [] \<or> alr_State a = state)) (db_alerts db)))))"

section \<open>transaction.go\<close>

record device_update =
  du_DeviceID :: int
  du_From :: device_state
  du_To :: device_state
  du_Version :: int
  du_Audit :: audit_event
  du_Outbox :: outbox_message

definition TransitionWithAudit :: "pg \<Rightarrow> device_update \<Rightarrow> unit repo" where
  "TransitionWithAudit p u =
     WithTx
       (and_then (map_err (wrap_op ''update device state'')
          (stmt (update_device_state (du_DeviceID u) (du_From u) (du_To u) (du_Version u)))) (\<lambda>n.
        if n \<noteq> 1 then fail ErrConflict
        else
        and_then (map_err (wrap_op ''write audit'') (AddAudit p (du_Audit u))) (\<lambda>_.
        if out_Topic (du_Outbox u) \<noteq> []
        then map_err (wrap_op ''write outbox'') (AddOutbox p (du_Outbox u))
        else ret ())))"

definition AuditAndMessage :: "pg \<Rightarrow> audit_event \<Rightarrow> outbox_message \<Rightarrow> unit repo" where
  "AuditAndMessage p a m =
     WithTx (and_then (AddAudit p a) (\<lambda>_. if out_Topic m = [] then ret () else AddOutbox p m))"

definition AppendAuditAndOutbox :: "pg \<Rightarrow> audit_event \<Rightarrow> outbox_message \<Rightarrow> unit repo" where
  "AppendAuditAndOutbox p event m =
     (if aud_HouseholdID event \<le> 0 \<or> aud_RequestID event = [] \<or> aud_ObjectID event = [] \<or>
         aud_Action event = []
      then fail ErrInvalid
      else WithTx
        (and_then (map_err (wrap_op ''audit'') (AddAudit p event)) (\<lambda>_.
         if out_Topic m = [] then ret ()
         else map_err (wrap_op ''outbox'') (AddOutbox p m))))"

definition RollbackProof :: "unit repo" where
  "RollbackProof =
     WithTx (and_then (CreateHousehold ''rollback-proof'' ''UTC'' 100) (\<lambda>_. fail ErrConflict))"

text \<open>
  \<^verbatim>\<open>WithSerializable\<close> puts its transaction under a key of its own into the context. The methods of the
  repository look for the key of \<^verbatim>\<open>WithTx\<close>, so that those \<open>fn\<close> calls run outside of the transaction, each on
  its own; only \<^verbatim>\<open>ExecInTransaction\<close>, which nothing calls, would find it.
\<close>

definition WithSerializable :: "unit repo \<Rightarrow> unit repo" where
  "WithSerializable fn = and_then driver_call (\<lambda>_. and_then fn (\<lambda>_. driver_call))"

lemma WithSerializable_keeps_effects:
  assumes "wfaults w = []"
  shows "fst (WithSerializable (and_then (CreateHousehold ''rollback-proof'' ''UTC'' 100) (\<lambda>_. fail ErrConflict)) w) = Inl ErrConflict \<and>
    (\<exists>h. db_households (wdb (snd (WithSerializable (and_then (CreateHousehold ''rollback-proof'' ''UTC'' 100) (\<lambda>_. fail ErrConflict)) w))) =
      db_households (wdb w) @ [h])"
  using assms
  by (simp add: WithSerializable_def and_then_def driver_call_run CreateHousehold_def stmt_run insert_household_def
      insert_row_def map_err_def Let_def bump_def)

end
