(* ===== verification/Schema.thy ===== *)
theory Schema
  imports Repo_Work "HOL-Library.Sublist"
begin

text \<open>
  The invariant of the database. \<open>schema_ok\<close> states what the constraints of
  \<^verbatim>\<open>internal/db/migrations\<close> promise (keys, references, checks) and one thing no constraint
  says: the devices of a plan and of an automation belong to its household. \<open>since b\<close> relates a
  database to an earlier one, \<open>b\<close>: what the program never takes back. Every statement of the
  repository keeps both.
\<close>

section \<open>Keys and references\<close>

text \<open>Ids are distinct and none is ahead of the sequence that generates them.\<close>

definition keyed :: "('r \<Rightarrow> int) \<Rightarrow> 'r list \<Rightarrow> int \<Rightarrow> bool" where
  "keyed key rows n \<longleftrightarrow> distinct (map key rows) \<and> (\<forall>r\<in>set rows. 1 \<le> key r \<and> key r \<le> n) \<and> 0 \<le> n"

lemma keyed_Nil [simp]: "keyed key [] n \<longleftrightarrow> 0 \<le> n"
  by (auto simp: keyed_def)

lemma keyed_mono: "keyed key rows m \<Longrightarrow> m \<le> n \<Longrightarrow> keyed key rows n"
  by (auto simp: keyed_def)

lemma keyed_snoc: "keyed key rows n \<Longrightarrow> key r = n + 1 \<Longrightarrow> keyed key (rows @ [r]) (n + 1)"
  by (auto simp: keyed_def)

lemma keyed_update:
  "keyed key rows n \<Longrightarrow> (\<And>r. key (f r) = key r) \<Longrightarrow> keyed key (update_where p f rows) n"
  by (auto simp: keyed_def table_simps)

lemma keyed_filter: "keyed key rows n \<Longrightarrow> keyed key (filter p rows) n"
  by (auto simp: keyed_def distinct_map inj_on_def)

lemma keyed_inj: "keyed key rows n \<Longrightarrow> r \<in> set rows \<Longrightarrow> s \<in> set rows \<Longrightarrow> key r = key s \<Longrightarrow> r = s"
  by (auto simp: keyed_def distinct_map inj_on_def)

text \<open>The parents of a reference: ids with the household they belong to.\<close>

definition household_ids :: "database \<Rightarrow> int set" where
  "household_ids db = hh_ID ` set (db_households db)"

definition member_ids :: "database \<Rightarrow> int set" where
  "member_ids db = mem_ID ` set (db_members db)"

definition device_owners :: "database \<Rightarrow> (int \<times> int) set" where
  "device_owners db = (\<lambda>d. (dev_ID d, dev_HouseholdID d)) ` set (db_devices db)"

definition plan_owners :: "database \<Rightarrow> (int \<times> int) set" where
  "plan_owners db = (\<lambda>p. (plan_ID p, plan_HouseholdID p)) ` set (db_plans db)"

definition automation_owners :: "database \<Rightarrow> (int \<times> int) set" where
  "automation_owners db = (\<lambda>a. (aut_ID a, aut_HouseholdID a)) ` set (db_automations db)"

lemmas owners = household_ids_def member_ids_def device_owners_def plan_owners_def automation_owners_def

section \<open>Tables\<close>

definition households_ok :: "household list \<Rightarrow> int \<Rightarrow> bool" where
  "households_ok hs n \<longleftrightarrow> keyed hh_ID hs n \<and> (\<forall>h\<in>set hs. 0 \<le> hh_MonthlyBudgetCents h)"

definition members_ok :: "int set \<Rightarrow> member_row list \<Rightarrow> int \<Rightarrow> bool" where
  "members_ok hs ms n \<longleftrightarrow> keyed mem_ID ms n \<and>
     distinct (map (\<lambda>m. (mem_HouseholdID m, mem_Email m)) ms) \<and>
     (\<forall>m\<in>set ms. mem_HouseholdID m \<in> hs \<and> mem_Role m \<in> {RoleOwner, RoleOperator, RoleViewer})"

definition sessions_ok :: "int set \<Rightarrow> session list \<Rightarrow> bool" where
  "sessions_ok ms ss \<longleftrightarrow> distinct (map ses_ID ss) \<and> (\<forall>s\<in>set ss. ses_MemberID s \<in> ms)"

definition device_row_ok :: "int set \<Rightarrow> device \<Rightarrow> bool" where
  "device_row_ok hs d \<longleftrightarrow> dev_HouseholdID d \<in> hs \<and> (\<forall>s. dev_Kind d \<noteq> KindOther s) \<and>
     (\<forall>s. dev_State d \<noteq> DeviceOther s) \<and> 1 \<le> dev_Version d \<and> dev_Version d \<le> max_i64"

definition devices_ok :: "int set \<Rightarrow> device list \<Rightarrow> int \<Rightarrow> bool" where
  "devices_ok hs ds n \<longleftrightarrow> keyed dev_ID ds n \<and>
     distinct (map (\<lambda>d. (dev_HouseholdID d, dev_ExternalID d)) ds) \<and> (\<forall>d\<in>set ds. device_row_ok hs d)"

definition capabilities_ok :: "(int \<times> int) set \<Rightarrow> (int \<times> string) list \<Rightarrow> bool" where
  "capabilities_ok ds cs \<longleftrightarrow> distinct cs \<and> (\<forall>c\<in>set cs. fst c \<in> fst ` ds)"

definition telemetry_ok :: "(int \<times> int) set \<Rightarrow> telemetry list \<Rightarrow> int \<Rightarrow> bool" where
  "telemetry_ok ds ts n \<longleftrightarrow> keyed tel_ID ts n \<and>
     distinct (map (\<lambda>t. (tel_DeviceID t, tel_Sequence t)) ts) \<and> (\<forall>t\<in>set ts. tel_DeviceID t \<in> fst ` ds)"

definition plans_ok :: "int set \<Rightarrow> energy_plan list \<Rightarrow> int \<Rightarrow> bool" where
  "plans_ok hs ps n \<longleftrightarrow> keyed plan_ID ps n \<and>
     (\<forall>p\<in>set ps. plan_HouseholdID p \<in> hs \<and> 0 \<le> plan_BudgetCents p)"

definition plan_devices_ok :: "(int \<times> int) set \<Rightarrow> (int \<times> int) set \<Rightarrow> plan_device list \<Rightarrow> bool" where
  "plan_devices_ok ps ds ls \<longleftrightarrow> distinct (map (\<lambda>l. (pd_PlanID l, pd_DeviceID l)) ls) \<and>
     (\<forall>l\<in>set ls. \<not> pd_TargetWatts l < 0 \<and> (\<exists>h. (pd_PlanID l, h) \<in> ps \<and> (pd_DeviceID l, h) \<in> ds))"

definition automations_ok :: "int set \<Rightarrow> automation list \<Rightarrow> int \<Rightarrow> bool" where
  "automations_ok hs as n \<longleftrightarrow> keyed aut_ID as n \<and> (\<forall>a\<in>set as. aut_HouseholdID a \<in> hs)"

definition actions_ok :: "(int \<times> int) set \<Rightarrow> (int \<times> int) set \<Rightarrow> automation_action list \<Rightarrow> int \<Rightarrow> bool" where
  "actions_ok as ds xs n \<longleftrightarrow> keyed act_ID xs n \<and>
     distinct (map (\<lambda>x. (act_AutomationID x, act_Ordinal x)) xs) \<and>
     (\<forall>x\<in>set xs. 0 \<le> act_Ordinal x \<and> (\<exists>h. (act_AutomationID x, h) \<in> as \<and> (act_DeviceID x, h) \<in> ds))"

definition runs_ok :: "(int \<times> int) set \<Rightarrow> run_row list \<Rightarrow> int \<Rightarrow> bool" where
  "runs_ok as rs n \<longleftrightarrow> keyed rr_ID rs n \<and>
     distinct (map (\<lambda>r. (rr_AutomationID r, rr_IdempotencyKey r)) rs) \<and>
     (\<forall>r\<in>set rs. rr_AutomationID r \<in> fst ` as)"

definition alerts_ok :: "int set \<Rightarrow> (int \<times> int) set \<Rightarrow> alert_row list \<Rightarrow> int \<Rightarrow> bool" where
  "alerts_ok hs ds as n \<longleftrightarrow> keyed alr_ID as n \<and>
     (\<forall>a\<in>set as. alr_HouseholdID a \<in> hs \<and> (\<forall>d. alr_DeviceID a = Some d \<longrightarrow> d \<in> fst ` ds) \<and>
        alr_Severity a \<in> {''info'', ''warning'', ''critical''} \<and> alr_State a \<in> alert_states)"

definition audit_ok :: "int set \<Rightarrow> int set \<Rightarrow> audit_row list \<Rightarrow> int \<Rightarrow> bool" where
  "audit_ok hs ms as n \<longleftrightarrow> keyed aur_ID as n \<and>
     (\<forall>a\<in>set as. aur_HouseholdID a \<in> hs \<and> (\<forall>m. aur_ActorMemberID a = Some m \<longrightarrow> m \<in> ms))"

definition outbox_row_ok :: "int set \<Rightarrow> outbox_row \<Rightarrow> bool" where
  "outbox_row_ok hs r \<longleftrightarrow> obr_HouseholdID r \<in> hs \<and> 0 \<le> obr_Attempts r \<and> obr_Attempts r \<le> 2147483647 \<and>
     (obr_DeliveredAt r = None \<or> obr_FailedAt r = None) \<and> (pending r \<or> obr_LockedAt r = None)"

definition outbox_ok :: "int set \<Rightarrow> outbox_row list \<Rightarrow> int \<Rightarrow> bool" where
  "outbox_ok hs rs n \<longleftrightarrow> keyed obr_ID rs n \<and> (\<forall>r\<in>set rs. outbox_row_ok hs r)"

lemmas table_oks = households_ok_def members_ok_def sessions_ok_def devices_ok_def capabilities_ok_def
  telemetry_ok_def plans_ok_def plan_devices_ok_def automations_ok_def actions_ok_def runs_ok_def
  alerts_ok_def audit_ok_def outbox_ok_def

definition schema_ok :: "database \<Rightarrow> bool" where
  "schema_ok db \<longleftrightarrow>
     households_ok (db_households db) (seqs db THouseholds) \<and>
     members_ok (household_ids db) (db_members db) (seqs db TMembers) \<and>
     sessions_ok (member_ids db) (db_sessions db) \<and>
     devices_ok (household_ids db) (db_devices db) (seqs db TDevices) \<and>
     capabilities_ok (device_owners db) (db_capabilities db) \<and>
     telemetry_ok (device_owners db) (db_telemetry db) (seqs db TTelemetry) \<and>
     plans_ok (household_ids db) (db_plans db) (seqs db TPlans) \<and>
     plan_devices_ok (plan_owners db) (device_owners db) (db_plan_devices db) \<and>
     automations_ok (household_ids db) (db_automations db) (seqs db TAutomations) \<and>
     actions_ok (automation_owners db) (device_owners db) (db_actions db) (seqs db TActions) \<and>
     runs_ok (automation_owners db) (db_runs db) (seqs db TRuns) \<and>
     alerts_ok (household_ids db) (device_owners db) (db_alerts db) (seqs db TAlerts) \<and>
     audit_ok (household_ids db) (member_ids db) (db_audit db) (seqs db TAudit) \<and>
     outbox_ok (household_ids db) (db_outbox db) (seqs db TOutbox)"

section \<open>What is never taken back\<close>

text \<open>
  A device stays, with its household, external id and kind; its version never falls and counts
  the changes of its state. Audit events stay as they are, in order. A run stays under its key,
  and a finished run stays as it is; a delivered or failed message stays as it is.
\<close>

definition devices_since :: "device list \<Rightarrow> device list \<Rightarrow> bool" where
  "devices_since old new \<longleftrightarrow> (\<forall>d\<in>set old. \<exists>e\<in>set new. dev_ID e = dev_ID d \<and>
     dev_HouseholdID e = dev_HouseholdID d \<and> dev_ExternalID e = dev_ExternalID d \<and>
     dev_Kind e = dev_Kind d \<and> dev_Version d \<le> dev_Version e \<and>
     (dev_Version e = dev_Version d \<longrightarrow> dev_State e = dev_State d))"

definition finished :: "run_row \<Rightarrow> bool" where
  "finished r \<longleftrightarrow> rr_State r \<in> {RunSucceeded, RunFailed, RunCancelled}"

definition runs_since :: "run_row list \<Rightarrow> run_row list \<Rightarrow> bool" where
  "runs_since old new \<longleftrightarrow> (\<forall>r\<in>set old. \<exists>s\<in>set new. rr_ID s = rr_ID r \<and>
     rr_AutomationID s = rr_AutomationID r \<and> rr_IdempotencyKey s = rr_IdempotencyKey r \<and>
     (finished r \<longrightarrow> s = r))"

definition outbox_since :: "outbox_row list \<Rightarrow> outbox_row list \<Rightarrow> bool" where
  "outbox_since old new \<longleftrightarrow> (\<forall>r\<in>set old. \<exists>s\<in>set new. obr_ID s = obr_ID r \<and>
     obr_HouseholdID s = obr_HouseholdID r \<and> obr_Topic s = obr_Topic r \<and> (pending r \<or> s = r))"

definition since :: "database \<Rightarrow> database \<Rightarrow> bool" where
  "since b db \<longleftrightarrow> devices_since (db_devices b) (db_devices db) \<and> prefix (db_audit b) (db_audit db) \<and>
     runs_since (db_runs b) (db_runs db) \<and> outbox_since (db_outbox b) (db_outbox db)"

definition kept :: "database \<Rightarrow> database \<Rightarrow> bool" where
  "kept b db \<longleftrightarrow> schema_ok db \<and> since b db"

lemma since_refl [simp]: "since b b"
  by (auto simp: since_def devices_since_def runs_since_def outbox_since_def)

lemma keptI: "schema_ok db \<Longrightarrow> kept db db"
  by (simp add: kept_def)

text \<open>Adding a row and updating rows in place, for the relations above.\<close>

lemma devices_since_snoc: "devices_since old new \<Longrightarrow> devices_since old (new @ [d])"
  unfolding devices_since_def by fastforce

lemma runs_since_snoc: "runs_since old new \<Longrightarrow> runs_since old (new @ [d])"
  unfolding runs_since_def by fastforce

lemma outbox_since_snoc: "outbox_since old new \<Longrightarrow> outbox_since old (new @ [d])"
  unfolding outbox_since_def by fastforce

lemma devices_since_update:
  assumes "devices_since old new"
    and "\<And>d. p d \<Longrightarrow> dev_ID (f d) = dev_ID d \<and> dev_HouseholdID (f d) = dev_HouseholdID d \<and>
      dev_ExternalID (f d) = dev_ExternalID d \<and> dev_Kind (f d) = dev_Kind d \<and>
      (dev_Version d < dev_Version (f d) \<or> dev_Version (f d) = dev_Version d \<and> dev_State (f d) = dev_State d)"
  shows "devices_since old (update_where p f new)"
  unfolding devices_since_def
proof
  fix d
  assume "d \<in> set old"
  with assms(1) obtain e where e: "e \<in> set new" "dev_ID e = dev_ID d"
      "dev_HouseholdID e = dev_HouseholdID d" "dev_ExternalID e = dev_ExternalID d"
      "dev_Kind e = dev_Kind d" "dev_Version d \<le> dev_Version e"
      "dev_Version e = dev_Version d \<longrightarrow> dev_State e = dev_State d"
    unfolding devices_since_def by blast
  let ?e = "if p e then f e else e"
  have "?e \<in> set (update_where p f new)" using e(1) by (simp add: table_simps)
  moreover have "dev_ID ?e = dev_ID d \<and> dev_HouseholdID ?e = dev_HouseholdID d \<and>
      dev_ExternalID ?e = dev_ExternalID d \<and> dev_Kind ?e = dev_Kind d \<and>
      dev_Version d \<le> dev_Version ?e \<and> (dev_Version ?e = dev_Version d \<longrightarrow> dev_State ?e = dev_State d)"
    using e assms(2) [of e] by auto
  ultimately show "\<exists>e\<in>set (update_where p f new). dev_ID e = dev_ID d \<and>
      dev_HouseholdID e = dev_HouseholdID d \<and> dev_ExternalID e = dev_ExternalID d \<and>
      dev_Kind e = dev_Kind d \<and> dev_Version d \<le> dev_Version e \<and>
      (dev_Version e = dev_Version d \<longrightarrow> dev_State e = dev_State d)" by blast
qed

lemma runs_since_update:
  assumes "runs_since old new"
    and "\<And>r. r \<in> set new \<Longrightarrow> p r \<Longrightarrow> \<not> finished r \<and> rr_ID (f r) = rr_ID r \<and>
      rr_AutomationID (f r) = rr_AutomationID r \<and> rr_IdempotencyKey (f r) = rr_IdempotencyKey r"
  shows "runs_since old (update_where p f new)"
  unfolding runs_since_def
proof
  fix r
  assume "r \<in> set old"
  with assms(1) obtain s where s: "s \<in> set new" "rr_ID s = rr_ID r"
      "rr_AutomationID s = rr_AutomationID r" "rr_IdempotencyKey s = rr_IdempotencyKey r"
      "finished r \<longrightarrow> s = r"
    unfolding runs_since_def by blast
  let ?s = "if p s then f s else s"
  have "?s \<in> set (update_where p f new)" using s(1) by (simp add: table_simps)
  moreover have "rr_ID ?s = rr_ID r \<and> rr_AutomationID ?s = rr_AutomationID r \<and>
      rr_IdempotencyKey ?s = rr_IdempotencyKey r \<and> (finished r \<longrightarrow> ?s = r)"
    using s assms(2) [of s] by auto
  ultimately show "\<exists>s\<in>set (update_where p f new). rr_ID s = rr_ID r \<and>
      rr_AutomationID s = rr_AutomationID r \<and> rr_IdempotencyKey s = rr_IdempotencyKey r \<and>
      (finished r \<longrightarrow> s = r)" by blast
qed

lemma outbox_since_update:
  assumes "outbox_since old new"
    and "\<And>r. r \<in> set new \<Longrightarrow> p r \<Longrightarrow> pending r \<and> obr_ID (f r) = obr_ID r \<and>
      obr_HouseholdID (f r) = obr_HouseholdID r \<and> obr_Topic (f r) = obr_Topic r"
  shows "outbox_since old (update_where p f new)"
  unfolding outbox_since_def
proof
  fix r
  assume "r \<in> set old"
  with assms(1) obtain s where s: "s \<in> set new" "obr_ID s = obr_ID r"
      "obr_HouseholdID s = obr_HouseholdID r" "obr_Topic s = obr_Topic r" "pending r \<or> s = r"
    unfolding outbox_since_def by blast
  let ?s = "if p s then f s else s"
  have "?s \<in> set (update_where p f new)" using s(1) by (simp add: table_simps)
  moreover have "obr_ID ?s = obr_ID r \<and> obr_HouseholdID ?s = obr_HouseholdID r \<and>
      obr_Topic ?s = obr_Topic r \<and> (pending r \<or> ?s = r)"
    using s assms(2) [of s] by auto
  ultimately show "\<exists>s\<in>set (update_where p f new). obr_ID s = obr_ID r \<and>
      obr_HouseholdID s = obr_HouseholdID r \<and> obr_Topic s = obr_Topic r \<and> (pending r \<or> s = r)" by blast
qed

text \<open>An update by id of a row that satisfies a condition touches only such rows.\<close>

lemma least_by_Some:
  assumes "least_by key p rows = Some c"
  shows "c \<in> set rows \<and> p c \<and> (\<forall>r\<in>set rows. p r \<longrightarrow> key c \<le> key r)"
proof -
  let ?xs = "filter p rows"
  from assms obtain cs where cs: "slice_stable (\<lambda>a b. key a < key b) ?xs = c # cs"
    by (auto simp: least_by_def split: list.splits)
  have m: "set (slice_stable (\<lambda>a b. key a < key b) ?xs) = set ?xs"
    by simp
  with cs have "c \<in> set ?xs" by (metis list.set_intros(1))
  moreover have "key c \<le> key r" if "r \<in> set ?xs" for r
  proof -
    have "sorted (map key (c # cs))"
      using sorted_slice_stable_key [of key ?xs] by (simp only: cs)
    moreover from that m cs have "r \<in> set (c # cs)" by metis
    ultimately show ?thesis by auto
  qed
  ultimately show ?thesis by auto
qed

lemma least_by_None: "least_by key p rows = None \<longleftrightarrow> \<not> list_ex p rows"
proof -
  have "set (slice_stable (\<lambda>a b. key a < key b) (filter p rows)) = set (filter p rows)" by simp
  then show ?thesis
    by (cases "slice_stable (\<lambda>a b. key a < key b) (filter p rows)")
      (auto simp: least_by_def list_ex_iff filter_empty_conv split: list.splits)
qed

end
