(* ===== verification/Schema_Laws.thy ===== *)
theory Schema_Laws
  imports Schema
begin

text \<open>
  Every statement of the repository keeps the invariant \<open>kept b\<close> of \<^verbatim>\<open>Schema\<close>: a lemma per way
  of changing a table (adding a row, updating rows), then a lemma per statement.
\<close>

section \<open>Changing one table\<close>

lemma households_ok_mono: "households_ok hs m \<Longrightarrow> m \<le> n \<Longrightarrow> households_ok hs n"
  unfolding households_ok_def using keyed_mono by blast

lemma members_ok_mono: "members_ok a ms m \<Longrightarrow> a \<subseteq> a' \<Longrightarrow> m \<le> n \<Longrightarrow> members_ok a' ms n"
  unfolding members_ok_def using keyed_mono by blast

lemma sessions_ok_mono: "sessions_ok a ss \<Longrightarrow> a \<subseteq> a' \<Longrightarrow> sessions_ok a' ss"
  unfolding sessions_ok_def by blast

lemma devices_ok_mono: "devices_ok a ds m \<Longrightarrow> a \<subseteq> a' \<Longrightarrow> m \<le> n \<Longrightarrow> devices_ok a' ds n"
  unfolding devices_ok_def device_row_ok_def using keyed_mono by blast

lemma capabilities_ok_mono: "capabilities_ok a cs \<Longrightarrow> a \<subseteq> a' \<Longrightarrow> capabilities_ok a' cs"
  unfolding capabilities_ok_def by blast

lemma telemetry_ok_mono: "telemetry_ok a ts m \<Longrightarrow> a \<subseteq> a' \<Longrightarrow> m \<le> n \<Longrightarrow> telemetry_ok a' ts n"
  unfolding telemetry_ok_def using keyed_mono by blast

lemma plans_ok_mono: "plans_ok a ps m \<Longrightarrow> a \<subseteq> a' \<Longrightarrow> m \<le> n \<Longrightarrow> plans_ok a' ps n"
  unfolding plans_ok_def using keyed_mono by blast

lemma plan_devices_ok_mono:
  "plan_devices_ok a d ls \<Longrightarrow> a \<subseteq> a' \<Longrightarrow> d \<subseteq> d' \<Longrightarrow> plan_devices_ok a' d' ls"
  unfolding plan_devices_ok_def by blast

lemma automations_ok_mono: "automations_ok a xs m \<Longrightarrow> a \<subseteq> a' \<Longrightarrow> m \<le> n \<Longrightarrow> automations_ok a' xs n"
  unfolding automations_ok_def using keyed_mono by blast

lemma actions_ok_mono:
  "actions_ok a d xs m \<Longrightarrow> a \<subseteq> a' \<Longrightarrow> d \<subseteq> d' \<Longrightarrow> m \<le> n \<Longrightarrow> actions_ok a' d' xs n"
  unfolding actions_ok_def using keyed_mono by blast

lemma runs_ok_mono: "runs_ok a rs m \<Longrightarrow> a \<subseteq> a' \<Longrightarrow> m \<le> n \<Longrightarrow> runs_ok a' rs n"
  unfolding runs_ok_def using keyed_mono by blast

lemma alerts_ok_mono:
  "alerts_ok a d xs m \<Longrightarrow> a \<subseteq> a' \<Longrightarrow> d \<subseteq> d' \<Longrightarrow> m \<le> n \<Longrightarrow> alerts_ok a' d' xs n"
  unfolding alerts_ok_def using keyed_mono by blast

lemma audit_ok_mono: "audit_ok a d xs m \<Longrightarrow> a \<subseteq> a' \<Longrightarrow> d \<subseteq> d' \<Longrightarrow> m \<le> n \<Longrightarrow> audit_ok a' d' xs n"
  unfolding audit_ok_def using keyed_mono by blast

lemma outbox_row_ok_mono: "outbox_row_ok a r \<Longrightarrow> a \<subseteq> a' \<Longrightarrow> outbox_row_ok a' r"
  unfolding outbox_row_ok_def by (elim conjE, intro conjI) (rule subsetD)

lemma outbox_ok_mono: "outbox_ok a rs m \<Longrightarrow> a \<subseteq> a' \<Longrightarrow> m \<le> n \<Longrightarrow> outbox_ok a' rs n"
  unfolding outbox_ok_def by (auto intro: keyed_mono outbox_row_ok_mono)

lemmas ok_monos = households_ok_mono members_ok_mono sessions_ok_mono devices_ok_mono
  capabilities_ok_mono telemetry_ok_mono plans_ok_mono plan_devices_ok_mono automations_ok_mono
  actions_ok_mono runs_ok_mono alerts_ok_mono audit_ok_mono outbox_ok_mono

lemmas kept_defs = kept_def schema_ok_def since_def

lemma owners_seqs [simp]:
  "household_ids (db\<lparr>seqs := s\<rparr>) = household_ids db" "member_ids (db\<lparr>seqs := s\<rparr>) = member_ids db"
  "device_owners (db\<lparr>seqs := s\<rparr>) = device_owners db" "plan_owners (db\<lparr>seqs := s\<rparr>) = plan_owners db"
  "automation_owners (db\<lparr>seqs := s\<rparr>) = automation_owners db"
  by (simp_all add: owners)

lemma kept_seqs:
  assumes "kept b db" and le: "\<And>t. seqs db t \<le> s t"
  shows "kept b (db\<lparr>seqs := s\<rparr>)"
  using assms(1)
  by (simp add: kept_defs) (elim conjE, intro conjI; (assumption | (erule ok_monos; simp add: le)))

lemma kept_bump: "kept b db \<Longrightarrow> kept b (bump t db)"
  unfolding bump_def by (rule kept_seqs) auto

text \<open>Adding a row whose id is the next value of the sequence.\<close>

lemma kept_add_household:
  assumes "kept b db" and "hh_ID h = next_id THouseholds db" and "0 \<le> hh_MonthlyBudgetCents h"
  shows "kept b ((bump THouseholds db)\<lparr>db_households := db_households db @ [h]\<rparr>)"
proof -
  let ?db = "(bump THouseholds db)\<lparr>db_households := db_households db @ [h]\<rparr>"
  have o: "household_ids db \<subseteq> household_ids ?db" "member_ids ?db = member_ids db"
    "device_owners ?db = device_owners db" "plan_owners ?db = plan_owners db"
    "automation_owners ?db = automation_owners db"
    by (auto simp: owners)
  have "households_ok (db_households db @ [h]) (seqs db THouseholds + 1)"
    using assms by (auto simp: kept_defs households_ok_def next_id_def intro: keyed_snoc)
  with assms(1) o show ?thesis
    by (simp add: kept_defs) (elim conjE, (intro conjI)?; (assumption | (erule ok_monos; simp)))
qed

lemma kept_add_member:
  assumes "kept b db" and "mem_ID m = next_id TMembers db"
    and "mem_Role m \<in> {RoleOwner, RoleOperator, RoleViewer}" and "mem_HouseholdID m \<in> household_ids db"
    and "(mem_HouseholdID m, mem_Email m) \<notin> (\<lambda>m. (mem_HouseholdID m, mem_Email m)) ` set (db_members db)"
  shows "kept b ((bump TMembers db)\<lparr>db_members := db_members db @ [m]\<rparr>)"
proof -
  let ?db = "(bump TMembers db)\<lparr>db_members := db_members db @ [m]\<rparr>"
  have o: "household_ids ?db = household_ids db" "member_ids db \<subseteq> member_ids ?db"
    "device_owners ?db = device_owners db" "plan_owners ?db = plan_owners db"
    "automation_owners ?db = automation_owners db"
    by (auto simp: owners)
  have "members_ok (household_ids db) (db_members db @ [m]) (seqs db TMembers + 1)"
    using assms by (auto simp: kept_defs members_ok_def next_id_def intro: keyed_snoc)
  with assms(1) o show ?thesis
    by (simp add: kept_defs) (elim conjE, (intro conjI)?; (assumption | (erule ok_monos; simp)))
qed

lemma kept_add_device:
  assumes "kept b db" and "dev_ID d = next_id TDevices db" and "device_row_ok (household_ids db) d"
    and "(dev_HouseholdID d, dev_ExternalID d) \<notin> (\<lambda>d. (dev_HouseholdID d, dev_ExternalID d)) ` set (db_devices db)"
  shows "kept b ((bump TDevices db)\<lparr>db_devices := db_devices db @ [d]\<rparr>)"
proof -
  let ?db = "(bump TDevices db)\<lparr>db_devices := db_devices db @ [d]\<rparr>"
  have o: "household_ids ?db = household_ids db" "member_ids ?db = member_ids db"
    "device_owners db \<subseteq> device_owners ?db" "plan_owners ?db = plan_owners db"
    "automation_owners ?db = automation_owners db"
    by (auto simp: owners)
  have "devices_ok (household_ids db) (db_devices db @ [d]) (seqs db TDevices + 1)"
    using assms by (auto simp: kept_defs devices_ok_def next_id_def intro: keyed_snoc)
  with assms(1) o show ?thesis
    by (simp add: kept_defs) (elim conjE, (intro conjI)?;
      (assumption | (rule devices_since_snoc, assumption) | (erule ok_monos; simp)))
qed

lemma kept_add_plan:
  assumes "kept b db" and "plan_ID p = next_id TPlans db" and "0 \<le> plan_BudgetCents p"
    and "plan_HouseholdID p \<in> household_ids db"
  shows "kept b ((bump TPlans db)\<lparr>db_plans := db_plans db @ [p]\<rparr>)"
proof -
  let ?db = "(bump TPlans db)\<lparr>db_plans := db_plans db @ [p]\<rparr>"
  have o: "household_ids ?db = household_ids db" "member_ids ?db = member_ids db"
    "device_owners ?db = device_owners db" "plan_owners db \<subseteq> plan_owners ?db"
    "automation_owners ?db = automation_owners db"
    by (auto simp: owners)
  have "plans_ok (household_ids db) (db_plans db @ [p]) (seqs db TPlans + 1)"
    using assms by (auto simp: kept_defs plans_ok_def next_id_def intro: keyed_snoc)
  with assms(1) o show ?thesis
    by (simp add: kept_defs) (elim conjE, (intro conjI)?; (assumption | (erule ok_monos; simp)))
qed

lemma kept_add_automation:
  assumes "kept b db" and "aut_ID a = next_id TAutomations db" and "aut_HouseholdID a \<in> household_ids db"
  shows "kept b ((bump TAutomations db)\<lparr>db_automations := db_automations db @ [a]\<rparr>)"
proof -
  let ?db = "(bump TAutomations db)\<lparr>db_automations := db_automations db @ [a]\<rparr>"
  have o: "household_ids ?db = household_ids db" "member_ids ?db = member_ids db"
    "device_owners ?db = device_owners db" "plan_owners ?db = plan_owners db"
    "automation_owners db \<subseteq> automation_owners ?db"
    by (auto simp: owners)
  have "automations_ok (household_ids db) (db_automations db @ [a]) (seqs db TAutomations + 1)"
    using assms by (auto simp: kept_defs automations_ok_def next_id_def intro: keyed_snoc)
  with assms(1) o show ?thesis
    by (simp add: kept_defs) (elim conjE, (intro conjI)?; (assumption | (erule ok_monos; simp)))
qed

text \<open>The tables nothing refers to.\<close>

lemma kept_set_sessions:
  "kept b db \<Longrightarrow> sessions_ok (member_ids db) xs \<Longrightarrow> kept b (db\<lparr>db_sessions := xs\<rparr>)"
  by (simp add: kept_defs owners)

lemma kept_set_capabilities:
  "kept b db \<Longrightarrow> capabilities_ok (device_owners db) xs \<Longrightarrow> kept b (db\<lparr>db_capabilities := xs\<rparr>)"
  by (simp add: kept_defs owners)

lemma kept_set_telemetry:
  "kept b db \<Longrightarrow> telemetry_ok (device_owners db) xs (seqs db TTelemetry) \<Longrightarrow> kept b (db\<lparr>db_telemetry := xs\<rparr>)"
  by (simp add: kept_defs owners)

lemma kept_set_plan_devices:
  "kept b db \<Longrightarrow> plan_devices_ok (plan_owners db) (device_owners db) xs \<Longrightarrow>
     kept b (db\<lparr>db_plan_devices := xs\<rparr>)"
  by (simp add: kept_defs owners)

lemma kept_set_actions:
  "kept b db \<Longrightarrow> actions_ok (automation_owners db) (device_owners db) xs (seqs db TActions) \<Longrightarrow>
     kept b (db\<lparr>db_actions := xs\<rparr>)"
  by (simp add: kept_defs owners)

lemma kept_set_runs:
  "kept b db \<Longrightarrow> runs_ok (automation_owners db) xs (seqs db TRuns) \<Longrightarrow> runs_since (db_runs b) xs \<Longrightarrow>
     kept b (db\<lparr>db_runs := xs\<rparr>)"
  by (simp add: kept_defs owners)

lemma kept_set_alerts:
  "kept b db \<Longrightarrow> alerts_ok (household_ids db) (device_owners db) xs (seqs db TAlerts) \<Longrightarrow>
     kept b (db\<lparr>db_alerts := xs\<rparr>)"
  by (simp add: kept_defs owners)

lemma kept_set_audit:
  "kept b db \<Longrightarrow> audit_ok (household_ids db) (member_ids db) xs (seqs db TAudit) \<Longrightarrow>
     prefix (db_audit b) xs \<Longrightarrow> kept b (db\<lparr>db_audit := xs\<rparr>)"
  by (simp add: kept_defs owners)

lemma kept_set_outbox:
  "kept b db \<Longrightarrow> outbox_ok (household_ids db) xs (seqs db TOutbox) \<Longrightarrow>
     outbox_since (db_outbox b) xs \<Longrightarrow> kept b (db\<lparr>db_outbox := xs\<rparr>)"
  by (simp add: kept_defs owners)

text \<open>Updates of the tables others refer to keep the ids and owners.\<close>

lemma kept_update_members:
  assumes "kept b db" and "\<And>m. mem_ID (f m) = mem_ID m \<and> mem_HouseholdID (f m) = mem_HouseholdID m \<and>
    mem_Email (f m) = mem_Email m \<and> mem_Role (f m) = mem_Role m"
  shows "kept b (db\<lparr>db_members := update_where p f (db_members db)\<rparr>)"
proof -
  let ?db = "db\<lparr>db_members := update_where p f (db_members db)\<rparr>"
  have m: "map mem_ID (update_where p f (db_members db)) = map mem_ID (db_members db)"
    using assms(2) by (simp add: table_simps)
  from arg_cong [OF m, of set] have o: "member_ids ?db = member_ids db"
    by (simp add: owners)
  have "members_ok (household_ids db) (db_members db) (seqs db TMembers) \<Longrightarrow>
      members_ok (household_ids db) (update_where p f (db_members db)) (seqs db TMembers)"
    using assms(2) by (auto simp: members_ok_def table_simps intro!: keyed_update)
  with assms(1) o show ?thesis
    by (simp add: kept_defs household_ids_def device_owners_def plan_owners_def automation_owners_def)
qed

lemma kept_update_devices:
  assumes "kept b db"
    and "\<And>d. dev_ID (f d) = dev_ID d \<and> dev_HouseholdID (f d) = dev_HouseholdID d \<and>
      dev_ExternalID (f d) = dev_ExternalID d \<and> dev_Kind (f d) = dev_Kind d"
    and "\<And>d. d \<in> set (db_devices db) \<Longrightarrow> device_row_ok (household_ids db) d \<Longrightarrow> p d \<Longrightarrow>
      device_row_ok (household_ids db) (f d)"
    and "\<And>d. p d \<Longrightarrow> dev_Version d < dev_Version (f d) \<or>
      dev_Version (f d) = dev_Version d \<and> dev_State (f d) = dev_State d"
  shows "kept b (db\<lparr>db_devices := update_where p f (db_devices db)\<rparr>)"
proof -
  let ?ds = "update_where p f (db_devices db)" and ?db = "db\<lparr>db_devices := update_where p f (db_devices db)\<rparr>"
  have m: "map (\<lambda>d. (dev_ID d, dev_HouseholdID d)) ?ds = map (\<lambda>d. (dev_ID d, dev_HouseholdID d)) (db_devices db)"
    using assms(2) by (simp add: table_simps)
  from arg_cong [OF m, of set] have o: "device_owners ?db = device_owners db"
    by (simp add: owners)
  from assms(1) have ok: "devices_ok (household_ids db) (db_devices db) (seqs db TDevices)"
    by (simp add: kept_defs)
  have u: "map (\<lambda>d. (dev_HouseholdID d, dev_ExternalID d)) ?ds
      = map (\<lambda>d. (dev_HouseholdID d, dev_ExternalID d)) (db_devices db)"
    using assms(2) by (simp add: table_simps)
  have "devices_ok (household_ids db) ?ds (seqs db TDevices)"
    using ok assms(2,3) unfolding devices_ok_def u by (auto simp: table_simps intro!: keyed_update)
  moreover have "devices_since (db_devices b) ?ds"
    using assms by (intro devices_since_update) (auto simp: kept_defs)
  ultimately show ?thesis
    using assms(1) o by (simp add: kept_defs household_ids_def member_ids_def plan_owners_def automation_owners_def)
qed

lemma kept_update_plans:
  assumes "kept b db" and "\<And>p. plan_ID (f p) = plan_ID p \<and> plan_HouseholdID (f p) = plan_HouseholdID p \<and>
    plan_BudgetCents (f p) = plan_BudgetCents p"
  shows "kept b (db\<lparr>db_plans := update_where p f (db_plans db)\<rparr>)"
proof -
  let ?db = "db\<lparr>db_plans := update_where p f (db_plans db)\<rparr>"
  have m: "map (\<lambda>p. (plan_ID p, plan_HouseholdID p)) (db_plans ?db) = map (\<lambda>p. (plan_ID p, plan_HouseholdID p)) (db_plans db)"
    using assms(2) by (simp add: table_simps)
  from arg_cong [OF m, of set] have o: "plan_owners ?db = plan_owners db"
    by (simp add: owners)
  have "plans_ok (household_ids db) (db_plans db) (seqs db TPlans) \<Longrightarrow>
      plans_ok (household_ids db) (update_where p f (db_plans db)) (seqs db TPlans)"
    using assms(2) by (auto simp: plans_ok_def table_simps intro!: keyed_update)
  with assms(1) o show ?thesis
    by (simp add: kept_defs household_ids_def member_ids_def device_owners_def automation_owners_def)
qed

lemma kept_update_automations:
  assumes "kept b db" and "\<And>a. aut_ID (f a) = aut_ID a \<and> aut_HouseholdID (f a) = aut_HouseholdID a"
  shows "kept b (db\<lparr>db_automations := update_where p f (db_automations db)\<rparr>)"
proof -
  let ?db = "db\<lparr>db_automations := update_where p f (db_automations db)\<rparr>"
  have m: "map (\<lambda>p. (aut_ID p, aut_HouseholdID p)) (db_automations ?db) = map (\<lambda>p. (aut_ID p, aut_HouseholdID p)) (db_automations db)"
    using assms(2) by (simp add: table_simps)
  from arg_cong [OF m, of set] have o: "automation_owners ?db = automation_owners db"
    by (simp add: owners)
  have "automations_ok (household_ids db) (db_automations db) (seqs db TAutomations) \<Longrightarrow>
      automations_ok (household_ids db) (update_where p f (db_automations db)) (seqs db TAutomations)"
    using assms(2) by (auto simp: automations_ok_def table_simps intro!: keyed_update)
  with assms(1) o show ?thesis
    by (simp add: kept_defs household_ids_def member_ids_def device_owners_def plan_owners_def)
qed

section \<open>Statements\<close>

definition grown :: "database \<Rightarrow> database \<Rightarrow> database \<Rightarrow> bool" where
  "grown b db d \<longleftrightarrow> kept b d \<and> (\<forall>t. seqs db t \<le> seqs d t)"

lemma growsI: "(\<And>now db. kept b db \<Longrightarrow> grown b db (snd (f now db))) \<Longrightarrow> grows (kept b) f"
  by (simp add: grows_def grown_def)

lemma grown_refl [simp]: "kept b db \<Longrightarrow> grown b db db"
  by (simp add: grown_def)

lemma grown_bump [simp]: "kept b db \<Longrightarrow> grown b db (bump t db)"
  by (simp add: grown_def kept_bump)

lemma grown_seqs: "kept b d \<Longrightarrow> seqs d = seqs db \<or> seqs d = seqs (bump t db) \<Longrightarrow> grown b db d"
  by (auto simp: grown_def)

lemma grown_insert_row:
  assumes "kept b db"
    and "list_all fst cs \<Longrightarrow> kept b (add (bump t db)) \<and> seqs (add (bump t db)) = seqs (bump t db)"
  shows "grown b db (snd (insert_row t cs x add db))"
  using assms unfolding insert_row_def
  by (auto simp: first_violation_None [symmetric] intro: grown_seqs split: option.split)

lemma grows_insert_household: "grows (kept b) (insert_household name timezone budget)"
  by (rule growsI, unfold insert_household_def Let_def, rule grown_insert_row)
    (auto intro!: kept_add_household simp: next_id_def)

lemma grows_insert_member: "grows (kept b) (insert_member h email hash r)"
  by (rule growsI, unfold insert_member_def Let_def, rule grown_insert_row)
    (auto intro!: kept_add_member simp: next_id_def household_ids_def)

lemma grows_update_member_active: "grows (kept b) (update_member_active i active)"
  by (rule growsI) (auto simp: update_member_active_def Let_def intro!: grown_seqs kept_update_members)

lemma grows_insert_session: "grows (kept b) (insert_session uuid s)"
proof (rule growsI)
  fix now db
  assume k: "kept b db"
  then have "sessions_ok (member_ids db) (db_sessions db)" by (simp add: kept_defs)
  with k show "grown b db (snd (insert_session uuid s now db))"
    by (auto simp: insert_session_def sessions_ok_def member_ids_def
      intro!: grown_seqs kept_set_sessions split: option.split)
qed

lemma sessions_ok_update:
  "sessions_ok ms ss \<Longrightarrow> (\<And>s. ses_ID (f s) = ses_ID s \<and> ses_MemberID (f s) = ses_MemberID s) \<Longrightarrow>
     sessions_ok ms (update_where p f ss)"
  by (auto simp: sessions_ok_def table_simps)

lemma grows_update_session_revoked: "grows (kept b) (update_session_revoked uuid i at_time)"
proof (rule growsI)
  fix now db
  assume k: "kept b db"
  then have "sessions_ok (member_ids db) (db_sessions db)" by (simp add: kept_defs)
  with k show "grown b db (snd (update_session_revoked uuid i at_time now db))"
    by (auto simp: update_session_revoked_def Let_def
      intro!: grown_seqs kept_set_sessions sessions_ok_update split: option.split)
qed

lemma grows_delete_expired_sessions: "grows (kept b) (delete_expired_sessions cutoff)"
proof (rule growsI)
  fix now db
  assume k: "kept b db"
  then have "sessions_ok (member_ids db) (db_sessions db)" by (simp add: kept_defs)
  then have "sessions_ok (member_ids db) (filter q (db_sessions db))" for q
    by (auto simp: sessions_ok_def distinct_map inj_on_def)
  with k show "grown b db (snd (delete_expired_sessions cutoff now db))"
    by (auto simp: delete_expired_sessions_def Let_def intro!: grown_seqs kept_set_sessions)
qed

lemma kind_known: "(case k of KindOther s \<Rightarrow> False | _ \<Rightarrow> True) \<longleftrightarrow> (\<forall>s. k \<noteq> KindOther s)"
  by (cases k) auto

lemma state_known: "(case st of DeviceOther s \<Rightarrow> True | _ \<Rightarrow> False) \<longleftrightarrow> (\<exists>s. st = DeviceOther s)"
  by (cases st) auto

lemma grows_insert_device: "grows (kept b) (insert_device d)"
  by (rule growsI, unfold insert_device_def Let_def, rule grown_insert_row)
    (auto intro!: kept_add_device simp: next_id_def device_row_ok_def household_ids_def kind_known max_i64_def)

lemma grown_insert_capability: "kept b db \<Longrightarrow> grown b db (snd (insert_capability i c now db))"
proof -
  assume k: "kept b db"
  then have "capabilities_ok (device_owners db) (db_capabilities db)" by (simp add: kept_defs)
  moreover have "fst ` device_owners db = dev_ID ` set (db_devices db)"
    by (simp add: device_owners_def image_image)
  ultimately show ?thesis using k
    by (auto simp: insert_capability_def capabilities_ok_def intro!: grown_seqs kept_set_capabilities
      split: option.split)
qed

lemma grows_insert_capability: "grows (kept b) (insert_capability i c)"
  by (rule growsI) (rule grown_insert_capability)

lemma grows_upsert_capability: "grows (kept b) (upsert_capability i c)"
  by (rule growsI) (simp add: upsert_capability_def grown_insert_capability)

lemma grows_update_device_state: "grows (kept b) (update_device_state i from to v)"
proof (rule growsI)
  fix now db
  assume k: "kept b db"
  then show "grown b db (snd (update_device_state i from to v now db))"
    by (auto simp: update_device_state_def Let_def state_known device_row_ok_def
      intro!: grown_seqs kept_update_devices split: device_state.splits)
qed

lemma grows_update_device_seen: "grows (kept b) (update_device_seen i at_time)"
  by (rule growsI) (auto simp: update_device_seen_def Let_def device_row_ok_def
    intro!: grown_seqs kept_update_devices)

lemma kept_add_telemetry:
  assumes "kept b db" and "tel_ID r = next_id TTelemetry db" and "(tel_DeviceID r, h) \<in> device_owners db"
    and "(tel_DeviceID r, tel_Sequence r) \<notin> (\<lambda>t. (tel_DeviceID t, tel_Sequence t)) ` set (db_telemetry db)"
  shows "kept b ((bump TTelemetry db)\<lparr>db_telemetry := db_telemetry db @ [r]\<rparr>)"
proof (rule kept_set_telemetry)
  show "kept b (bump TTelemetry db)" using assms(1) by (rule kept_bump)
  have "device_owners (bump TTelemetry db) = device_owners db" by (simp add: owners)
  moreover have "telemetry_ok (device_owners db) (db_telemetry db) (seqs db TTelemetry)"
    using assms(1) by (simp add: kept_defs)
  ultimately show "telemetry_ok (device_owners (bump TTelemetry db)) (db_telemetry db @ [r])
      (seqs (bump TTelemetry db) TTelemetry)"
    using assms(2-4) by (auto simp: telemetry_ok_def next_id_def intro: keyed_snoc rev_image_eqI)
qed

lemma enabled_owner:
  "list_ex (\<lambda>d. dev_ID d = i \<and> dev_State d = DeviceEnabled) (db_devices db) \<Longrightarrow>
     \<exists>h. (i, h) \<in> device_owners db"
proof -
  assume "list_ex (\<lambda>d. dev_ID d = i \<and> dev_State d = DeviceEnabled) (db_devices db)"
  then obtain d where "d \<in> set (db_devices db)" "dev_ID d = i"
    by (auto simp: list_ex_iff)
  then have "(i, dev_HouseholdID d) \<in> device_owners db"
    by (auto simp: device_owners_def intro: rev_image_eqI)
  then show ?thesis ..
qed

lemma grows_insert_telemetry: "grows (kept b) (insert_telemetry p t)"
proof (rule growsI)
  fix now db
  assume k: "kept b db"
  show "grown b db (snd (insert_telemetry p t now db))"
  proof (cases "list_ex (\<lambda>d. dev_ID d = tel_DeviceID t \<and> dev_State d = DeviceEnabled) (db_devices db)")
    case False
    with k show ?thesis by (simp add: insert_telemetry_def)
  next
    case True
    from enabled_owner [OF True] obtain h where own: "(tel_DeviceID t, h) \<in> device_owners db" ..
    show ?thesis
      using k True own unfolding insert_telemetry_def Let_def
      by (auto intro!: grown_insert_row kept_add_telemetry [where h = h] simp: next_id_def
        split: sum.split)
  qed
qed

lemma grows_delete_telemetry_before: "grows (kept b) (delete_telemetry_before cutoff)"
proof (rule growsI)
  fix now db
  assume k: "kept b db"
  then have "telemetry_ok (device_owners db) (db_telemetry db) (seqs db TTelemetry)" by (simp add: kept_defs)
  then have "telemetry_ok (device_owners db) (filter q (db_telemetry db)) (seqs db TTelemetry)" for q
    by (auto simp: telemetry_ok_def distinct_map inj_on_def intro: keyed_filter)
  with k show "grown b db (snd (delete_telemetry_before cutoff now db))"
    by (auto simp: delete_telemetry_before_def Let_def intro!: grown_seqs kept_set_telemetry)
qed

lemma grows_insert_plan: "grows (kept b) (insert_plan p)"
  by (rule growsI, unfold insert_plan_def Let_def, rule grown_insert_row)
    (auto intro!: kept_add_plan simp: next_id_def household_ids_def)

text \<open>
  A link of a plan is of one household when the caller names the household of the plan; this is
  what \<^verbatim>\<open>CreatePlan\<close> does, the plan it names being the one it has just inserted.
\<close>

lemma enabled_in_owner: "list_ex (enabled_in i h) (db_devices db) \<Longrightarrow> (i, h) \<in> device_owners db"
  by (auto simp: list_ex_iff enabled_in_def device_owners_def)

lemma grown_insert_plan_device:
  assumes k: "kept b db" and own: "(planID, h) \<in> plan_owners db"
  shows "grown b db (snd (insert_plan_device pg planID i w h now db))"
proof -
  have "plan_devices_ok (plan_owners db) (device_owners db) (db_plan_devices db)"
    using k by (simp add: kept_defs)
  then have "plan_devices_ok (plan_owners db) (device_owners db)
      (db_plan_devices db @ [\<lparr>pd_PlanID = planID, pd_DeviceID = i, pd_TargetWatts = v\<rparr>])"
    if "list_ex (enabled_in i h) (db_devices db)" "\<not> v < 0"
      "(planID, i) \<notin> (\<lambda>l. (pd_PlanID l, pd_DeviceID l)) ` set (db_plan_devices db)" for v
    using that own enabled_in_owner [OF that(1)] by (auto simp: plan_devices_ok_def)
  with k show ?thesis
    by (auto simp: insert_plan_device_def intro!: grown_seqs kept_set_plan_devices
      split: sum.split option.split)
qed

lemma grows_update_plan_state: "grows (kept b) (update_plan_state i from to)"
  by (rule growsI) (auto simp: update_plan_state_def Let_def intro!: grown_seqs kept_update_plans)

lemma grows_expire_plans: "grows (kept b) (expire_plans cutoff)"
  by (rule growsI) (auto simp: expire_plans_def Let_def intro!: grown_seqs kept_update_plans)

lemma grows_insert_automation: "grows (kept b) (insert_automation a)"
  by (rule growsI, unfold insert_automation_def Let_def, rule grown_insert_row)
    (auto intro!: kept_add_automation simp: next_id_def household_ids_def)

lemma kept_add_action:
  assumes "kept b db" and "act_ID r = next_id TActions db" and "0 \<le> act_Ordinal r"
    and "(act_AutomationID r, h) \<in> automation_owners db" and "(act_DeviceID r, h) \<in> device_owners db"
    and "(act_AutomationID r, act_Ordinal r) \<notin> (\<lambda>x. (act_AutomationID x, act_Ordinal x)) ` set (db_actions db)"
  shows "kept b ((bump TActions db)\<lparr>db_actions := db_actions db @ [r]\<rparr>)"
proof (rule kept_set_actions)
  show "kept b (bump TActions db)" using assms(1) by (rule kept_bump)
  have "device_owners (bump TActions db) = device_owners db"
    "automation_owners (bump TActions db) = automation_owners db" by (simp_all add: owners)
  moreover have "actions_ok (automation_owners db) (device_owners db) (db_actions db) (seqs db TActions)"
    using assms(1) by (simp add: kept_defs)
  ultimately show "actions_ok (automation_owners (bump TActions db)) (device_owners (bump TActions db))
      (db_actions db @ [r]) (seqs (bump TActions db) TActions)"
    using assms(2-6) by (auto simp: actions_ok_def next_id_def intro: keyed_snoc)
qed

lemma grown_insert_action:
  assumes k: "kept b db" and own: "(automationID, h) \<in> automation_owners db"
  shows "grown b db (snd (insert_action automationID a h now db))"
  using k own enabled_in_owner [of "act_DeviceID a" h db]
  by (auto simp: insert_action_def Let_def next_id_def
    intro!: grown_insert_row kept_add_action [where h = h])

lemma grows_update_automation_state: "grows (kept b) (update_automation_state i from to)"
  by (rule growsI) (auto simp: update_automation_state_def Let_def intro!: grown_seqs kept_update_automations)

lemma kept_runs_ok: "kept b db \<Longrightarrow> runs_ok (automation_owners db) (db_runs db) (seqs db TRuns)"
  by (simp add: kept_defs)

lemma kept_runs_since: "kept b db \<Longrightarrow> runs_since (db_runs b) (db_runs db)"
  by (simp add: kept_defs)

lemma grows_upsert_run: "grows (kept b) (upsert_run i key)"
proof (rule growsI)
  fix now db
  assume k: "kept b db"
  have same: "automation_owners (bump TRuns db) = automation_owners db" by (simp add: owners)
  define r where "r = \<lparr>rr_ID = next_id TRuns db, rr_AutomationID = i, rr_IdempotencyKey = key,
      rr_State = RunQueued, rr_ErrorText = None, rr_StartedAt = None, rr_FinishedAt = None\<rparr>"
  have "kept b ((bump TRuns db)\<lparr>db_runs := db_runs db @ [r]\<rparr>)"
    if "list_ex (\<lambda>a. aut_ID a = i \<and> aut_State a = AutomationActive) (db_automations db)"
      and "\<not> list_ex (\<lambda>r. rr_AutomationID r = i \<and> rr_IdempotencyKey r = key) (db_runs db)"
  proof (rule kept_set_runs)
    show "kept b (bump TRuns db)" using k by (rule kept_bump)
    show "runs_since (db_runs b) (db_runs db @ [r])"
      using k by (intro runs_since_snoc kept_runs_since)
    from that(1) have "i \<in> fst ` automation_owners db"
      by (auto simp: owners image_image list_ex_iff intro: rev_image_eqI)
    with that(2) kept_runs_ok [OF k]
    show "runs_ok (automation_owners (bump TRuns db)) (db_runs db @ [r]) (seqs (bump TRuns db) TRuns)"
      by (auto simp: runs_ok_def same r_def next_id_def list_ex_iff intro!: keyed_snoc)
  qed
  with k show "grown b db (snd (upsert_run i key now db))"
    by (auto simp: upsert_run_def Let_def r_def one_row_Inl intro!: grown_seqs split: sum.split)
qed

lemma kept_update_runs:
  assumes k: "kept b db"
    and f: "\<And>r. rr_ID (f r) = rr_ID r \<and> rr_AutomationID (f r) = rr_AutomationID r \<and>
      rr_IdempotencyKey (f r) = rr_IdempotencyKey r"
    and p: "\<And>r. r \<in> set (db_runs db) \<Longrightarrow> p r \<Longrightarrow> \<not> finished r"
  shows "kept b (db\<lparr>db_runs := update_where p f (db_runs db)\<rparr>)"
proof (rule kept_set_runs [OF k])
  have "map (\<lambda>r. (rr_AutomationID r, rr_IdempotencyKey r)) (update_where p f (db_runs db))
      = map (\<lambda>r. (rr_AutomationID r, rr_IdempotencyKey r)) (db_runs db)"
    using f by (simp add: table_simps)
  with kept_runs_ok [OF k] f
  show "runs_ok (automation_owners db) (update_where p f (db_runs db)) (seqs db TRuns)"
    by (auto simp: runs_ok_def table_simps intro!: keyed_update)
  show "runs_since (db_runs b) (update_where p f (db_runs db))"
    using f p by (intro runs_since_update kept_runs_since [OF k]) auto
qed

lemma grows_claim_run: "grows (kept b) claim_run"
proof (rule growsI)
  fix now db
  assume k: "kept b db"
  show "grown b db (snd (claim_run now db))"
  proof (cases "least_by rr_ID (\<lambda>r. rr_State r = RunQueued) (db_runs db)")
    case None
    with k show ?thesis by (simp add: claim_run_def)
  next
    case (Some c)
    from least_by_Some [OF this] have c: "c \<in> set (db_runs db)" "rr_State c = RunQueued" by auto
    have "\<not> finished r" if "r \<in> set (db_runs db)" "rr_ID r = rr_ID c" for r
    proof -
      from kept_runs_ok [OF k] have "keyed rr_ID (db_runs db) (seqs db TRuns)" by (simp add: runs_ok_def)
      from keyed_inj [OF this that(1) c(1) that(2)] c(2) show ?thesis by (simp add: finished_def)
    qed
    with Some k show ?thesis
      by (auto simp: claim_run_def intro!: grown_seqs kept_update_runs)
  qed
qed

lemma grows_update_run:
  assumes "\<And>r. rr_ID (f r) = rr_ID r \<and> rr_AutomationID (f r) = rr_AutomationID r \<and>
      rr_IdempotencyKey (f r) = rr_IdempotencyKey r"
  shows "grows (kept b) (update_run i f)"
  using assms by (intro growsI)
    (auto simp: update_run_def running_def finished_def intro!: grown_seqs kept_update_runs)

lemma grows_fail_stale_runs: "grows (kept b) (fail_stale_runs cutoff)"
  by (rule growsI)
    (auto simp: fail_stale_runs_def Let_def finished_def intro!: grown_seqs kept_update_runs)

lemma kept_add_audit:
  assumes k: "kept b db" and "aur_ID r = next_id TAudit db" and "aur_HouseholdID r \<in> household_ids db"
    and "\<And>m. aur_ActorMemberID r = Some m \<Longrightarrow> m \<in> member_ids db"
  shows "kept b ((bump TAudit db)\<lparr>db_audit := db_audit db @ [r]\<rparr>)"
proof (rule kept_set_audit)
  show "kept b (bump TAudit db)" using k by (rule kept_bump)
  have "household_ids (bump TAudit db) = household_ids db" "member_ids (bump TAudit db) = member_ids db"
    by (simp_all add: owners)
  moreover have "audit_ok (household_ids db) (member_ids db) (db_audit db) (seqs db TAudit)"
    using k by (simp add: kept_defs)
  ultimately show "audit_ok (household_ids (bump TAudit db)) (member_ids (bump TAudit db))
      (db_audit db @ [r]) (seqs (bump TAudit db) TAudit)"
    using assms(2-4) by (auto simp: audit_ok_def next_id_def intro: keyed_snoc)
  show "prefix (db_audit b) (db_audit db @ [r])" using k by (simp add: kept_defs)
qed

lemma grown_insert_audit_row:
  "kept b db \<Longrightarrow> grown b db (snd (insert_audit_row h actor request otype oid act payload now db))"
  unfolding insert_audit_row_def Let_def
  by (rule grown_insert_row)
    (auto intro!: kept_add_audit simp: next_id_def household_ids_def member_ids_def split: option.splits)

lemma grows_insert_audit_row: "grows (kept b) (insert_audit_row h actor request otype oid act payload)"
  by (rule growsI) (rule grown_insert_audit_row)

lemma grows_insert_audit: "grows (kept b) (insert_audit p e)"
  by (rule growsI) (simp add: insert_audit_def grown_insert_audit_row split: sum.split)

lemma kept_outbox_ok: "kept b db \<Longrightarrow> outbox_ok (household_ids db) (db_outbox db) (seqs db TOutbox)"
  by (simp add: kept_defs)

lemma kept_outbox_since: "kept b db \<Longrightarrow> outbox_since (db_outbox b) (db_outbox db)"
  by (simp add: kept_defs)

lemma kept_add_outbox:
  assumes k: "kept b db" and "obr_ID r = next_id TOutbox db" and "outbox_row_ok (household_ids db) r"
  shows "kept b ((bump TOutbox db)\<lparr>db_outbox := db_outbox db @ [r]\<rparr>)"
proof (rule kept_set_outbox)
  show "kept b (bump TOutbox db)" using k by (rule kept_bump)
  have "household_ids (bump TOutbox db) = household_ids db" by (simp add: owners)
  with kept_outbox_ok [OF k] assms(2,3)
  show "outbox_ok (household_ids (bump TOutbox db)) (db_outbox db @ [r]) (seqs (bump TOutbox db) TOutbox)"
    by (auto simp: outbox_ok_def next_id_def intro: keyed_snoc)
  show "outbox_since (db_outbox b) (db_outbox db @ [r])"
    by (intro outbox_since_snoc kept_outbox_since k)
qed

lemma grown_insert_outbox_row:
  "kept b db \<Longrightarrow> grown b db (snd (insert_outbox_row h topic payload available now db))"
  unfolding insert_outbox_row_def Let_def
  by (rule grown_insert_row)
    (auto intro!: kept_add_outbox simp: next_id_def household_ids_def outbox_row_ok_def pending_def)

lemma grows_insert_outbox_row: "grows (kept b) (insert_outbox_row h topic payload available)"
  by (rule growsI) (rule grown_insert_outbox_row)

lemma grows_insert_outbox: "grows (kept b) (insert_outbox p m)"
  by (rule growsI) (simp add: insert_outbox_def grown_insert_outbox_row split: sum.split)

lemma kept_update_outbox:
  assumes k: "kept b db"
    and id: "\<And>r. obr_ID (f r) = obr_ID r"
    and f: "\<And>r. r \<in> set (db_outbox db) \<Longrightarrow> outbox_row_ok (household_ids db) r \<Longrightarrow> p r \<Longrightarrow>
      pending r \<and> obr_HouseholdID (f r) = obr_HouseholdID r \<and> obr_Topic (f r) = obr_Topic r \<and>
      outbox_row_ok (household_ids db) (f r)"
  shows "kept b (db\<lparr>db_outbox := update_where p f (db_outbox db)\<rparr>)"
proof (rule kept_set_outbox [OF k])
  from kept_outbox_ok [OF k] have rows: "outbox_row_ok (household_ids db) r" if "r \<in> set (db_outbox db)" for r
    using that by (simp add: outbox_ok_def)
  with kept_outbox_ok [OF k] id f
  show "outbox_ok (household_ids db) (update_where p f (db_outbox db)) (seqs db TOutbox)"
    by (auto simp: outbox_ok_def table_simps intro!: keyed_update)
  show "outbox_since (db_outbox b) (update_where p f (db_outbox db))"
    using id f rows by (intro outbox_since_update kept_outbox_since [OF k]) auto
qed

lemma grows_claim_outbox: "grows (kept b) (claim_outbox p)"
proof (rule growsI)
  fix now db
  assume k: "kept b db"
  show "grown b db (snd (claim_outbox p now db))"
  proof (cases "least_by obr_ID (claimable now) (db_outbox db)")
    case None
    with k show ?thesis by (simp add: claim_outbox_def)
  next
    case (Some c)
    from least_by_Some [OF this] have c: "c \<in> set (db_outbox db)" "claimable now c" by auto
    have "r = c" if "r \<in> set (db_outbox db)" "obr_ID r = obr_ID c" for r
      using kept_outbox_ok [OF k] keyed_inj [of obr_ID _ _ r c] that c(1) by (auto simp: outbox_ok_def)
    note only = this
    show ?thesis
    proof (cases "obr_Attempts c = 2147483647")
      case True
      with Some k show ?thesis by (simp add: claim_outbox_def)
    next
      case False
      let ?f = "\<lambda>r. r\<lparr>obr_LockedAt := Some now, obr_Attempts := obr_Attempts r + 1\<rparr>"
      have "kept b (db\<lparr>db_outbox := update_where (\<lambda>r. obr_ID r = obr_ID c) ?f (db_outbox db)\<rparr>)"
      proof (rule kept_update_outbox [OF k])
        fix r
        assume "r \<in> set (db_outbox db)" "obr_ID r = obr_ID c" "outbox_row_ok (household_ids db) r"
        with only [of r] c False show "pending r \<and> obr_HouseholdID (?f r) = obr_HouseholdID r \<and>
            obr_Topic (?f r) = obr_Topic r \<and> outbox_row_ok (household_ids db) (?f r)"
          by (simp add: outbox_row_ok_def claimable_def pending_def)
      qed simp
      with Some False show ?thesis
        by (simp add: claim_outbox_def Let_def grown_seqs)
    qed
  qed
qed

lemma grown_update_pending:
  assumes "kept b db" and "\<And>r. obr_ID (f now r) = obr_ID r"
    and "\<And>r. outbox_row_ok (household_ids db) r \<Longrightarrow> pending r \<Longrightarrow>
      obr_HouseholdID (f now r) = obr_HouseholdID r \<and> obr_Topic (f now r) = obr_Topic r \<and>
      outbox_row_ok (household_ids db) (f now r)"
  shows "grown b db (snd (update_pending i f now db))"
  using assms by (auto simp: update_pending_def Let_def intro!: grown_seqs kept_update_outbox)

lemma grows_update_pending:
  assumes "\<And>now r. obr_ID (f now r) = obr_ID r"
    and "\<And>hs now r. outbox_row_ok hs r \<Longrightarrow> pending r \<Longrightarrow>
      obr_HouseholdID (f now r) = obr_HouseholdID r \<and> obr_Topic (f now r) = obr_Topic r \<and>
      outbox_row_ok hs (f now r)"
  shows "grows (kept b) (update_pending i f)"
  using assms by (intro growsI grown_update_pending) auto

lemma grows_reschedule_outbox: "grows (kept b) (reschedule_outbox p quoted i attempt next_at e)"
proof (rule growsI)
  fix now db
  assume k: "kept b db"
  have none: "grown b db (snd (update_pending i f now db))"
    if "\<not> list_ex (\<lambda>r. obr_ID r = i \<and> pending r) (db_outbox db)" for f
    using that k by (simp add: update_pending_def Let_def update_where_none)
  have some: "grown b db (snd (update_pending i (\<lambda>now r. r\<lparr>obr_Attempts := attempt, obr_AvailableAt := next_at,
      obr_LockedAt := None, obr_Payload := jsonb_concat (obr_Payload r) j\<rparr>) now db))"
    if "fits_int4 attempt" "0 \<le> attempt" for j
    using k that by (intro grown_update_pending) (auto simp: outbox_row_ok_def pending_def fits_int4_def)
  show "grown b db (snd (reschedule_outbox p quoted i attempt next_at e now db))"
    using k none some
    by (cases "attempt < 0") (simp_all add: reschedule_outbox_def split: sum.split)
qed

lemma kept_alerts_ok:
  "kept b db \<Longrightarrow> alerts_ok (household_ids db) (device_owners db) (db_alerts db) (seqs db TAlerts)"
  by (simp add: kept_defs)

lemma kept_add_alert:
  assumes k: "kept b db" and "alr_ID r = next_id TAlerts db" and "alr_HouseholdID r \<in> household_ids db"
    and "\<And>d. alr_DeviceID r = Some d \<Longrightarrow> d \<in> fst ` device_owners db"
    and "alr_Severity r \<in> {''info'', ''warning'', ''critical''}" and "alr_State r \<in> alert_states"
  shows "kept b ((bump TAlerts db)\<lparr>db_alerts := db_alerts db @ [r]\<rparr>)"
proof (rule kept_set_alerts)
  show "kept b (bump TAlerts db)" using k by (rule kept_bump)
  have "household_ids (bump TAlerts db) = household_ids db" "device_owners (bump TAlerts db) = device_owners db"
    by (simp_all add: owners)
  with kept_alerts_ok [OF k] assms(2-6)
  show "alerts_ok (household_ids (bump TAlerts db)) (device_owners (bump TAlerts db))
      (db_alerts db @ [r]) (seqs (bump TAlerts db) TAlerts)"
    by (auto simp: alerts_ok_def next_id_def intro: keyed_snoc)
qed

lemma grows_insert_alert: "grows (kept b) (insert_alert p a)"
proof (rule growsI)
  fix now db
  assume k: "kept b db"
  then show "grown b db (snd (insert_alert p a now db))"
    by (auto simp: insert_alert_def Let_def next_id_def household_ids_def device_owners_def
      image_image alert_states_def intro!: grown_insert_row kept_add_alert split: sum.split option.splits)
qed

lemma grows_update_alert_state: "grows (kept b) (update_alert_state i from to at_time)"
proof (rule growsI)
  fix now db
  assume k: "kept b db"
  let ?hit = "\<lambda>a. alr_ID a = i \<and> alr_State a = from"
  let ?f = "\<lambda>a. a\<lparr>alr_State := to, alr_ResolvedAt := (if to = ''resolved'' then Some at_time else alr_ResolvedAt a)\<rparr>"
  have "alerts_ok (household_ids db) (device_owners db) (update_where ?hit ?f (db_alerts db)) (seqs db TAlerts)"
    if "\<not> (list_ex ?hit (db_alerts db) \<and> to \<notin> alert_states)"
    using kept_alerts_ok [OF k] that
    by (auto simp: alerts_ok_def table_simps list_ex_iff intro!: keyed_update)
  with k show "grown b db (snd (update_alert_state i from to at_time now db))"
    by (auto simp: update_alert_state_def Let_def intro!: grown_seqs kept_set_alerts)
qed

end
