(* ===== verification/Repo_Laws.thy ===== *)
theory Repo_Laws
  imports Schema_Laws
begin

text \<open>
  What the whole repository guarantees: the methods of \<^verbatim>\<open>internal/repo\<close> as one type of calls,
  the worlds a sequence of calls reaches from the empty database whatever the driver does, the
  invariant of these worlds, and that a call that returns an error leaves every table as it was.
\<close>

section \<open>Methods keep the invariant\<close>

interpretation history: table_invariant "kept b" for b
  by unfold_locales (rule kept_seqs)

interpretation plan_link: table_invariant "\<lambda>db. kept b db \<and> (i, h) \<in> plan_owners db" for b i h
  by unfold_locales (auto intro: kept_seqs)

interpretation automation_link: table_invariant "\<lambda>db. kept b db \<and> (i, h) \<in> automation_owners db" for b i h
  by unfold_locales (auto intro: kept_seqs)

text \<open>A sequence whose second part needs what the first part achieved.\<close>

lemma steady_then:
  assumes m: "steady I m"
    and k: "\<And>w x w'. I (wdb w) \<Longrightarrow> m w = (Inr x, w') \<Longrightarrow> J x (wdb w')"
    and J: "\<And>x. steady (\<lambda>db. I db \<and> J x db) (k x)"
  shows "steady I (and_then m k)"
  unfolding steady_def
proof (intro allI keepsI)
  fix base and w :: world
  assume w: "I (wdb w) \<and> (\<forall>t. base t \<le> seqs (wdb w) t)"
  show "I (wdb (snd (and_then m k w))) \<and> (\<forall>t. base t \<le> seqs (wdb (snd (and_then m k w))) t)"
  proof (cases "m w")
    case (Pair r w')
    have w': "I (wdb w')" "\<forall>t. base t \<le> seqs (wdb w') t"
      using steadyD [OF m, of w] steady_seqs [OF m, of w] w Pair by (auto intro: order_trans)
    show ?thesis
    proof (cases r)
      case (Inl e)
      with Pair w' show ?thesis by (simp add: and_then_def)
    next
      case (Inr x)
      with k [of w x w'] Pair w w'(1) have j: "I (wdb w') \<and> J x (wdb w')" by simp
      have "I (wdb (snd (k x w'))) \<and> (\<forall>t. base t \<le> seqs (wdb (snd (k x w'))) t)"
        using steadyD [OF J, of w' x] steady_seqs [OF J, of w' x] j w'(2) by (auto intro: order_trans)
      with Pair Inr show ?thesis by (simp add: and_then_def)
    qed
  qed
qed

lemma grows_insert_plan_device:
  "grows (\<lambda>db. kept b db \<and> (i, h) \<in> plan_owners db) (insert_plan_device pg i d w h)"
proof -
  have "plan_owners (snd (insert_plan_device pg i d w h now db)) = plan_owners db" for now db
    by (auto simp: insert_plan_device_def owners split: sum.split option.split)
  then show ?thesis
    using grown_insert_plan_device [where planID = i and h = h] unfolding grows_def grown_def by auto
qed

lemma grows_insert_action:
  "grows (\<lambda>db. kept b db \<and> (i, h) \<in> automation_owners db) (insert_action i a h)"
proof -
  have "automation_owners (snd (insert_action i a h now db)) = automation_owners db" for now db
    by (auto simp: insert_action_def insert_row_def Let_def owners split: option.split)
  then show ?thesis
    using grown_insert_action [where automationID = i and h = h] unfolding grows_def grown_def by auto
qed

lemma steady_CreatePlan: "steady (kept b) (CreatePlan pg p devices)"
  unfolding CreatePlan_def
proof (intro history.steady_WithTx)
  let ?loop = "\<lambda>out. and_then
          (for_each (\<lambda>d.
             and_then (map_err classify_write_error
                (stmt (insert_plan_device pg (plan_ID out) (pd_DeviceID d) (pd_TargetWatts d)
                         (plan_HouseholdID p)))) (\<lambda>n.
             if n \<noteq> 1 then fail (Wrapf [] ErrConflict ('': plan device '' @ show_int (pd_DeviceID d) @
                 '' is not enabled in household '' @ show_int (plan_HouseholdID p)))
             else ret ())) devices) (\<lambda>_. ret out)"
  show "steady (kept b) (and_then (map_err classify_write_error (stmt (insert_plan p))) ?loop)"
  proof (rule steady_then [where J = "\<lambda>out db. (plan_ID out, plan_HouseholdID p) \<in> plan_owners db"])
    show "steady (kept b) (map_err classify_write_error (stmt (insert_plan p)))"
      by (intro history.steady_map_err history.steady_stmt grows_insert_plan)
  next
    fix w x w'
    assume "map_err classify_write_error (stmt (insert_plan p)) w = (Inr x, w')"
    then have "insert_plan p (wnow w) (wdb w) = (Inr x, wdb w')" by (auto dest: stmt_Inr)
    then show "(plan_ID x, plan_HouseholdID p) \<in> plan_owners (wdb w')"
      by (auto simp: insert_plan_def Let_def insert_row_Inr owners)
  next
    fix out
    show "steady (\<lambda>db. kept b db \<and> (plan_ID out, plan_HouseholdID p) \<in> plan_owners db) (?loop out)"
      by (intro plan_link.steady_and_then plan_link.steady_for_each plan_link.steady_map_err
        plan_link.steady_stmt grows_insert_plan_device) auto
  qed
qed

lemma steady_CreateAutomation: "steady (kept b) (CreateAutomation a actions)"
  unfolding CreateAutomation_def
proof (intro history.steady_WithTx)
  let ?loop = "\<lambda>out. and_then
          (for_each (\<lambda>x.
             and_then (map_err classify_write_error
                (stmt (insert_action (aut_ID out) x (aut_HouseholdID a)))) (\<lambda>n.
             if n \<noteq> 1 then fail (Wrapf [] ErrConflict ('': automation device '' @ show_int (act_DeviceID x) @
                 '' is not enabled in household '' @ show_int (aut_HouseholdID a)))
             else ret ())) actions) (\<lambda>_. ret out)"
  show "steady (kept b) (and_then (map_err classify_write_error (stmt (insert_automation a))) ?loop)"
  proof (rule steady_then [where J = "\<lambda>out db. (aut_ID out, aut_HouseholdID a) \<in> automation_owners db"])
    show "steady (kept b) (map_err classify_write_error (stmt (insert_automation a)))"
      by (intro history.steady_map_err history.steady_stmt grows_insert_automation)
  next
    fix w x w'
    assume "map_err classify_write_error (stmt (insert_automation a)) w = (Inr x, w')"
    then have "insert_automation a (wnow w) (wdb w) = (Inr x, wdb w')" by (auto dest: stmt_Inr)
    then show "(aut_ID x, aut_HouseholdID a) \<in> automation_owners (wdb w')"
      by (auto simp: insert_automation_def Let_def insert_row_Inr owners)
  next
    fix out
    show "steady (\<lambda>db. kept b db \<and> (aut_ID out, aut_HouseholdID a) \<in> automation_owners db) (?loop out)"
      by (intro automation_link.steady_and_then automation_link.steady_for_each
        automation_link.steady_map_err automation_link.steady_stmt grows_insert_action) auto
  qed
qed

section \<open>Calls\<close>

text \<open>The environment of the repository: the server's conversions, \<^verbatim>\<open>UUID\<close> input and
  \<^verbatim>\<open>json.Marshal\<close> of a string.\<close>

record env =
  env_pg :: pg
  env_uuid :: uuid_in
  env_quoted :: "string \<Rightarrow> string"

datatype repo_call =
    Call_CreateHousehold string string int
  | Call_AddMember int string string role
  | Call_CreateHouseholdWithOwner string string int string string
  | Call_SetMemberActive int bool
  | Call_CreateSession session
  | Call_RevokeSession string time
  | Call_DeleteExpiredSessions time
  | Call_CreateDevice device "string list"
  | Call_TransitionDevice int device_state device_state int
  | Call_TouchDevice int time
  | Call_AddCapability int string
  | Call_InsertTelemetry telemetry
  | Call_DeleteTelemetryBefore time
  | Call_CreatePlan energy_plan "plan_device list"
  | Call_SetPlanState int plan_state plan_state
  | Call_ExpirePlans time
  | Call_CreateAutomation automation "automation_action list"
  | Call_SetAutomationState int automation_state automation_state
  | Call_QueueRun int string
  | Call_ClaimRun
  | Call_FinishRun int run_state string time
  | Call_RequeueRun int
  | Call_FinishStaleRuns time
  | Call_ExecuteAutomationRun int time
  | Call_AddAudit audit_event
  | Call_AddOutbox outbox_message
  | Call_ClaimOutbox
  | Call_MarkOutbox int bool time
  | Call_MarkOutboxFailed int string
  | Call_RescheduleOutbox int int time "err option"
  | Call_CreateAlert alert
  | Call_TransitionAlert int string string time
  | Call_TransitionWithAudit device_update
  | Call_AuditAndMessage audit_event outbox_message
  | Call_AppendAuditAndOutbox audit_event outbox_message
  | Call_RollbackProof
  | Call_Read "database \<Rightarrow> err + unit"

definition discard :: "'a repo \<Rightarrow> unit repo" where
  "discard m = and_then m (\<lambda>_. ret ())"

fun run_call :: "env \<Rightarrow> repo_call \<Rightarrow> unit repo" where
  "run_call e (Call_CreateHousehold name tz budget) = discard (CreateHousehold name tz budget)"
| "run_call e (Call_AddMember h email hash r) = discard (AddMember h email hash r)"
| "run_call e (Call_CreateHouseholdWithOwner name tz budget email hash) =
     discard (CreateHouseholdWithOwner name tz budget email hash)"
| "run_call e (Call_SetMemberActive i active) = SetMemberActive i active"
| "run_call e (Call_CreateSession s) = CreateSession (env_uuid e) s"
| "run_call e (Call_RevokeSession i now) = RevokeSession (env_uuid e) i now"
| "run_call e (Call_DeleteExpiredSessions now) = discard (DeleteExpiredSessions now)"
| "run_call e (Call_CreateDevice d caps) = discard (CreateDevice d caps)"
| "run_call e (Call_TransitionDevice i from to v) = TransitionDevice i from to v"
| "run_call e (Call_TouchDevice i when) = TouchDevice i when"
| "run_call e (Call_AddCapability i c) = AddCapability i c"
| "run_call e (Call_InsertTelemetry t) = InsertTelemetry (env_pg e) t"
| "run_call e (Call_DeleteTelemetryBefore cutoff) = discard (DeleteTelemetryBefore cutoff)"
| "run_call e (Call_CreatePlan p devices) = discard (CreatePlan (env_pg e) p devices)"
| "run_call e (Call_SetPlanState i from to) = SetPlanState i from to"
| "run_call e (Call_ExpirePlans now) = discard (ExpirePlans now)"
| "run_call e (Call_CreateAutomation a actions) = discard (CreateAutomation a actions)"
| "run_call e (Call_SetAutomationState i from to) = SetAutomationState i from to"
| "run_call e (Call_QueueRun i key) = discard (QueueRun i key)"
| "run_call e Call_ClaimRun = discard ClaimRun"
| "run_call e (Call_FinishRun i state cause now) = FinishRun i state cause now"
| "run_call e (Call_RequeueRun i) = RequeueRun i"
| "run_call e (Call_FinishStaleRuns cutoff) = discard (FinishStaleRuns cutoff)"
| "run_call e (Call_ExecuteAutomationRun i now) = ExecuteAutomationRun i now"
| "run_call e (Call_AddAudit a) = AddAudit (env_pg e) a"
| "run_call e (Call_AddOutbox m) = AddOutbox (env_pg e) m"
| "run_call e Call_ClaimOutbox = discard (ClaimOutbox (env_pg e))"
| "run_call e (Call_MarkOutbox i delivered next_at) = MarkOutbox i delivered next_at"
| "run_call e (Call_MarkOutboxFailed i reason) = MarkOutboxFailed i reason"
| "run_call e (Call_RescheduleOutbox i attempt next_at x) =
     RescheduleOutbox (env_pg e) (env_quoted e) i attempt next_at x"
| "run_call e (Call_CreateAlert a) = discard (CreateAlert (env_pg e) a)"
| "run_call e (Call_TransitionAlert i from to now) = TransitionAlert i from to now"
| "run_call e (Call_TransitionWithAudit u) = TransitionWithAudit (env_pg e) u"
| "run_call e (Call_AuditAndMessage a m) = AuditAndMessage (env_pg e) a m"
| "run_call e (Call_AppendAuditAndOutbox a m) = AppendAuditAndOutbox (env_pg e) a m"
| "run_call e Call_RollbackProof = RollbackProof"
| "run_call e (Call_Read f) = query f"

lemmas grows_statements [intro] = grows_insert_household grows_insert_member grows_update_member_active
  grows_insert_session grows_update_session_revoked grows_delete_expired_sessions grows_insert_device
  grows_insert_capability grows_upsert_capability grows_update_device_state grows_update_device_seen
  grows_insert_telemetry grows_delete_telemetry_before grows_update_plan_state grows_expire_plans
  grows_update_automation_state grows_upsert_run grows_claim_run grows_fail_stale_runs
  grows_insert_audit_row grows_insert_audit grows_insert_outbox_row grows_insert_outbox
  grows_claim_outbox grows_reschedule_outbox grows_insert_alert grows_update_alert_state

lemma grows_closing_updates [intro]:
  "grows (kept b) (update_pending i (\<lambda>now r. r\<lparr>obr_DeliveredAt := Some now, obr_LockedAt := None\<rparr>))"
  "grows (kept b) (update_pending i (\<lambda>now r. r\<lparr>obr_LockedAt := None, obr_AvailableAt := next_at\<rparr>))"
  "grows (kept b) (update_pending i (\<lambda>now r. r\<lparr>obr_LockedAt := None, obr_FailedAt := Some now,
     obr_FailureReason := Some reason\<rparr>))"
  by (rule grows_update_pending; auto simp: outbox_row_ok_def pending_def)+

lemma grows_run_updates [intro]:
  "grows (kept b) (update_run i (\<lambda>r. r\<lparr>rr_State := state, rr_ErrorText := text, rr_FinishedAt := at_time\<rparr>))"
  "grows (kept b) (update_run i (\<lambda>r. r\<lparr>rr_State := RunQueued, rr_StartedAt := None, rr_ErrorText := None,
     rr_FinishedAt := None\<rparr>))"
  by (rule grows_update_run; simp)+

lemmas steady_intros = history.steady_WithTx history.steady_and_then history.steady_map_err
  history.steady_for_each history.steady_stmt history.steady_if history.steady_ret history.steady_fail
  history.steady_query

lemma steady_case_prod: "(\<And>x y. steady I (f x y)) \<Longrightarrow> steady I (case z of (x, y) \<Rightarrow> f x y)"
  by (cases z) simp

lemmas single_statement_defs = CreateHousehold_def AddMember_def SetMemberActive_def CreateSession_def
  RevokeSession_def DeleteExpiredSessions_def TransitionDevice_def TouchDevice_def AddCapability_def
  InsertTelemetry_def DeleteTelemetryBefore_def SetPlanState_def ExpirePlans_def
  SetAutomationState_def QueueRun_def ClaimRun_def FinishRun_def RequeueRun_def FinishStaleRuns_def
  AddAudit_def AddOutbox_def ClaimOutbox_def MarkOutbox_def MarkOutboxFailed_def RescheduleOutbox_def
  CreateAlert_def TransitionAlert_def

lemma steady_discard: "steady (kept b) m \<Longrightarrow> steady (kept b) (discard m)"
  unfolding discard_def by (intro history.steady_and_then history.steady_ret)

lemma steady_AddAudit: "steady (kept b) (AddAudit p e)"
  unfolding AddAudit_def by (intro steady_intros grows_statements)

lemma steady_AddOutbox: "steady (kept b) (AddOutbox p m)"
  unfolding AddOutbox_def by (intro steady_intros grows_statements)

lemma steady_CreateHousehold: "steady (kept b) (CreateHousehold name tz budget)"
  unfolding CreateHousehold_def by (intro steady_intros grows_statements)

lemma steady_AddMember: "steady (kept b) (AddMember h email hash r)"
  unfolding AddMember_def by (intro steady_intros grows_statements)

lemma steady_transactions:
  "steady (kept b) (CreateHouseholdWithOwner name tz budget email hash)"
  "steady (kept b) (CreateDevice d caps)"
  "steady (kept b) (TransitionWithAudit p u)"
  "steady (kept b) (AuditAndMessage p a m)"
  "steady (kept b) (AppendAuditAndOutbox p a m)"
  "steady (kept b) RollbackProof"
  unfolding CreateHouseholdWithOwner_def CreateDevice_def TransitionWithAudit_def AuditAndMessage_def
    AppendAuditAndOutbox_def RollbackProof_def
  by (intro steady_intros grows_statements steady_AddAudit steady_AddOutbox steady_CreateHousehold
      steady_AddMember)+

lemma steady_ExecuteAutomationRun: "steady (kept b) (ExecuteAutomationRun i now)"
  unfolding ExecuteAutomationRun_def enqueue_action_def driver_call_def query_def [symmetric]
  by (intro steady_intros steady_case_prod grows_statements grows_run_updates)

lemma steady_run_call: "steady (kept b) (run_call e c)"
proof (cases c)
  case (Call_CreatePlan p ds)
  then show ?thesis by (simp add: steady_discard steady_CreatePlan)
next
  case (Call_CreateAutomation a xs)
  then show ?thesis by (simp add: steady_discard steady_CreateAutomation)
next
  case (Call_Read f)
  then show ?thesis by simp
qed (simp, (unfold single_statement_defs)?, (rule steady_ExecuteAutomationRun | intro steady_discard steady_intros steady_transactions grows_statements
    grows_closing_updates grows_run_updates))+

section \<open>Reachable worlds\<close>

text \<open>
  From the empty database, any call at any later time with any outcomes of its driver calls.
\<close>

inductive reachable :: "env \<Rightarrow> world \<Rightarrow> bool" for e :: env where
  start: "reachable e \<lparr>wdb = empty_db, wnow = t, wfaults = []\<rparr>"
| call: "reachable e w \<Longrightarrow> wnow w \<le> t \<Longrightarrow> reachable e (snd (run_call e c (w\<lparr>wnow := t, wfaults := fs\<rparr>)))"

lemma schema_ok_empty: "schema_ok empty_db"
  by (simp add: schema_ok_def table_oks empty_db_def)

lemma schema_ok_call: "schema_ok (wdb w) \<Longrightarrow> schema_ok (wdb (snd (run_call e c w)))"
  using steadyD [OF steady_run_call, of "wdb w" w e c] by (simp add: kept_def)

lemmas [intro] = reachable.intros

text \<open>A sequence of calls, each at its time and with its driver outcomes.\<close>

fun run_calls :: "env \<Rightarrow> (repo_call \<times> time \<times> err option list) list \<Rightarrow> world \<Rightarrow> world" where
  "run_calls e [] w = w"
| "run_calls e ((c, t, fs) # cs) w = run_calls e cs (snd (run_call e c (w\<lparr>wnow := t, wfaults := fs\<rparr>)))"

lemma kept_run_calls: "kept b (wdb w) \<Longrightarrow> kept b (wdb (run_calls e cs w))"
proof (induction cs arbitrary: w)
  case Nil
  then show ?case by simp
next
  case (Cons x cs)
  obtain c t fs where x: "x = (c, t, fs)" by (cases x)
  have "kept b (wdb (snd (run_call e c (w\<lparr>wnow := t, wfaults := fs\<rparr>))))"
    by (rule steadyD [OF steady_run_call]) (simp add: Cons.prems)
  with x Cons.IH show ?case by simp
qed

section \<open>A failed call changes no table\<close>

definition atomic :: "(database \<Rightarrow> bool) \<Rightarrow> 'a repo \<Rightarrow> bool" where
  "atomic I m \<longleftrightarrow> (\<forall>w e w'. I (wdb w) \<longrightarrow> m w = (Inl e, w') \<longrightarrow> same_tables (wdb w) (wdb w'))"

lemma atomicD: "atomic I m \<Longrightarrow> I (wdb w) \<Longrightarrow> m w = (Inl e, w') \<Longrightarrow> same_tables (wdb w) (wdb w')"
  by (simp add: atomic_def)

lemma atomic_WithTx [intro]: "atomic I (WithTx m)"
  by (auto simp: atomic_def dest: WithTx_Inl)

lemma atomic_map_err [intro]: "atomic I m \<Longrightarrow> atomic I (map_err g m)"
  unfolding atomic_def by (auto simp: map_err_eq_Inl)

lemma atomic_fail [intro]: "atomic I (fail e)"
  by (simp add: atomic_def)

lemma atomic_if [intro]: "(c \<Longrightarrow> atomic I m) \<Longrightarrow> (\<not> c \<Longrightarrow> atomic I n) \<Longrightarrow> atomic I (if c then m else n)"
  by simp

lemma atomic_discard [intro]: "atomic I m \<Longrightarrow> atomic I (discard m)"
  unfolding atomic_def discard_def by (auto simp: and_then_eq_Inl)

text \<open>A statement that reports an error has changed sequences at most.\<close>

definition clean :: "'a statement \<Rightarrow> bool" where
  "clean f \<longleftrightarrow> (\<forall>now db e d. f now db = (Inl e, d) \<longrightarrow> same_tables db d)"

lemma atomic_stmt:
  assumes "clean f"
  shows "atomic I (stmt f)"
  unfolding atomic_def
proof (intro allI impI)
  fix w e w'
  assume "stmt f w = (Inl e, w')"
  with assms show "same_tables (wdb w) (wdb w')"
    by (cases f w rule: stmt_cases) (auto simp: clean_def)
qed

lemma clean_insert_row: "(\<And>now db. f now db = insert_row t (cs now db) (x now db) (add now db) db) \<Longrightarrow> clean f"
  by (auto simp: clean_def dest!: insert_row_Inl)

lemma clean_update: "(\<And>now db. f now db = (Inr (n now db), d now db)) \<Longrightarrow> clean f"
  by (simp add: clean_def)

lemma clean_query: "clean (\<lambda>_ db. (f db, db))"
  by (simp add: clean_def)

lemma clean_inserts:
  "clean (insert_household name tz budget)" "clean (insert_member h email hash r)"
  "clean (insert_device d)" "clean (insert_plan p)" "clean (insert_automation a)"
  by (rule clean_insert_row, simp add: insert_household_def insert_member_def insert_device_def
      insert_plan_def insert_automation_def Let_def)+

lemma clean_others:
  "clean (insert_session uuid s)" "clean (update_session_revoked uuid sid when)"
  "clean (update_device_state i from to v)" "clean (upsert_capability i c)"
  "clean (insert_telemetry pg t)" "clean (upsert_run i key)" "clean claim_run"
  "clean (insert_audit pg a)" "clean (insert_outbox pg m)" "clean (claim_outbox pg)"
  "clean (reschedule_outbox pg quoted i attempt next_at x)" "clean (insert_alert pg al)"
  "clean (update_alert_state i s1 s2 when)"
  unfolding clean_def insert_session_def update_session_revoked_def update_device_state_def
    upsert_capability_def insert_capability_def insert_telemetry_def upsert_run_def claim_run_def
    insert_audit_def insert_audit_row_def insert_outbox_def insert_outbox_row_def claim_outbox_def
    reschedule_outbox_def insert_alert_def update_alert_state_def update_pending_def Let_def
  by (auto dest!: insert_row_Inl split: option.splits sum.splits if_splits)

lemma clean_updates:
  "clean (update_member_active i active)" "clean (delete_expired_sessions now)"
  "clean (update_device_seen i when)" "clean (delete_telemetry_before cutoff)"
  "clean (update_plan_state i ps ps')" "clean (expire_plans now)"
  "clean (update_automation_state i s s')" "clean (update_run i f)" "clean (fail_stale_runs cutoff)"
  "clean (update_pending i g)"
  by (simp_all add: clean_def update_member_active_def delete_expired_sessions_def update_device_seen_def
    delete_telemetry_before_def update_plan_state_def expire_plans_def update_automation_state_def
    update_run_def fail_stale_runs_def update_pending_def Let_def)

text \<open>The test of the number of affected rows fails only when no row was affected.\<close>

definition counted :: "(database \<Rightarrow> bool) \<Rightarrow> (int \<Rightarrow> bool) \<Rightarrow> int statement \<Rightarrow> bool" where
  "counted I bad f \<longleftrightarrow> (\<forall>now db n d. I db \<longrightarrow> f now db = (Inr n, d) \<longrightarrow> bad n \<longrightarrow> same_tables db d)"

lemma atomic_check:
  assumes "clean f" and "counted I bad f"
  shows "atomic I (and_then (stmt f) (\<lambda>n. if bad n then fail e else ret ()))"
  unfolding atomic_def
proof (intro allI impI)
  fix w e' w'
  assume i: "I (wdb w)" and r: "and_then (stmt f) (\<lambda>n. if bad n then fail e else ret ()) w = (Inl e', w')"
  from r consider "stmt f w = (Inl e', w')"
    | n where "stmt f w = (Inr n, w')" "bad n"
    by (auto simp: and_then_eq_Inl split: if_splits)
  then show "same_tables (wdb w) (wdb w')"
  proof cases
    case 1
    from atomic_stmt [OF assms(1)] i 1 show ?thesis by (rule atomicD)
  next
    case 2
    from stmt_Inr [OF 2(1)] assms(2) i 2(2) show ?thesis by (auto simp: counted_def)
  qed
qed

lemma atomic_check':
  assumes "clean f" and "counted I bad f"
  shows "atomic I (and_then (map_err g (stmt f)) (\<lambda>n. if bad n then fail e else ret ()))"
proof -
  have "same_tables (wdb w) (wdb w')"
    if "I (wdb w)" "and_then (map_err g (stmt f)) (\<lambda>n. if bad n then fail e else ret ()) w = (Inl e', w')"
    for w e' w'
  proof -
    from that(2) obtain e'' where "and_then (stmt f) (\<lambda>n. if bad n then fail e else ret ()) w = (Inl e'', w')"
      by (auto simp: and_then_eq_Inl map_err_eq_Inl)
    with atomic_check [OF assms] that(1) show ?thesis by (rule atomicD)
  qed
  then show ?thesis by (auto simp: atomic_def)
qed

lemma same_tables_I: "d = db \<Longrightarrow> same_tables db d"
  by simp

lemma count_not_1:
  assumes "keyed key rows N" and "\<And>r. p r \<Longrightarrow> key r = k" and "count_where p rows \<noteq> 1"
  shows "update_where p f rows = rows"
  using count_where_key [of key rows p k] assms
  by (auto simp: keyed_def update_where_none split: if_splits)

lemma count_and_not_1:
  "keyed key rows N \<Longrightarrow> count_where (\<lambda>r. key r = k \<and> q r) rows \<noteq> 1 \<Longrightarrow>
     update_where (\<lambda>r. key r = k \<and> q r) f rows = rows"
  by (rule count_not_1 [where key = key and k = k]) auto

lemma schema_keyed:
  assumes "schema_ok db"
  shows "keyed mem_ID (db_members db) (seqs db TMembers)"
    and "keyed dev_ID (db_devices db) (seqs db TDevices)"
    and "keyed plan_ID (db_plans db) (seqs db TPlans)"
    and "keyed aut_ID (db_automations db) (seqs db TAutomations)"
    and "keyed rr_ID (db_runs db) (seqs db TRuns)"
    and "keyed alr_ID (db_alerts db) (seqs db TAlerts)"
    and "keyed obr_ID (db_outbox db) (seqs db TOutbox)"
  using assms by (auto simp: schema_ok_def members_ok_def devices_ok_def plans_ok_def
    automations_ok_def runs_ok_def alerts_ok_def outbox_ok_def)

lemma counted_updates:
  "counted schema_ok (\<lambda>n. n \<noteq> 1) (update_member_active i active)"
  "counted schema_ok (\<lambda>n. n \<noteq> 1) (update_automation_state i s s')"
  "counted schema_ok (\<lambda>n. n \<noteq> 1) (update_run i f)"
  "counted schema_ok (\<lambda>n. n \<noteq> 1) (update_pending i g)"
  unfolding counted_def update_member_active_def update_automation_state_def update_run_def
    update_pending_def running_def Let_def
  by (auto intro!: same_tables_I
    simp: count_not_1 [OF schema_keyed(1), where k = i] count_and_not_1 [OF schema_keyed(4)]
      count_and_not_1 [OF schema_keyed(5)] count_and_not_1 [OF schema_keyed(7)])

lemma counted_zero:
  "counted I (\<lambda>n. n = 0) (update_device_state i from to v)"
  "counted I (\<lambda>n. n = 0) (update_device_seen i when)"
  "counted I (\<lambda>n. n = 0) (update_plan_state i ps ps')"
  "counted I (\<lambda>n. n = 0) (update_session_revoked uuid sid when)"
  "counted I (\<lambda>n. n = 0) (update_alert_state i s1 s2 when)"
  "counted I (\<lambda>n. n \<noteq> 1) (insert_telemetry pg t)"
  "counted schema_ok (\<lambda>n. n \<noteq> 1) (reschedule_outbox pg quoted i attempt next_at x)"
proof -
  show "counted schema_ok (\<lambda>n. n \<noteq> 1) (reschedule_outbox pg quoted i attempt next_at x)"
    using counted_updates(4) unfolding counted_def reschedule_outbox_def
    by (auto split: if_splits sum.splits)
qed (auto simp: counted_def update_device_state_def update_device_seen_def update_plan_state_def
    update_session_revoked_def update_alert_state_def insert_telemetry_def Let_def count_where_eq_0
    update_where_none insert_row_Inr split: if_splits option.splits sum.splits)

lemmas atomic_intros = atomic_WithTx atomic_if atomic_fail atomic_discard atomic_check atomic_check'
  atomic_map_err atomic_stmt clean_inserts clean_others clean_updates counted_updates counted_zero

lemma atomic_MarkOutbox: "atomic schema_ok (MarkOutbox i delivered next_at)"
proof (cases delivered)
  case True
  then show ?thesis unfolding MarkOutbox_def if_P [OF True] by (intro atomic_intros)
next
  case False
  then show ?thesis unfolding MarkOutbox_def if_not_P [OF False] by (intro atomic_intros)
qed

lemma atomic_run_call: "atomic schema_ok (run_call e c)"
proof (cases c)
  case (Call_MarkOutbox i d n)
  then show ?thesis by (simp add: atomic_MarkOutbox)
next
  case (Call_Read f)
  then show ?thesis by (simp add: query_def) (intro atomic_stmt clean_query)
qed (simp, unfold single_statement_defs CreateHouseholdWithOwner_def CreateDevice_def CreatePlan_def
  CreateAutomation_def ExecuteAutomationRun_def TransitionWithAudit_def AuditAndMessage_def
  AppendAuditAndOutbox_def RollbackProof_def, intro atomic_intros)+

end
