(* ===== verification/Frames.thy ===== *)
theory Frames
  imports Repo_Laws
begin

text \<open>
  Frames: what a repository method does not touch. A projection of the tables that does not look at
  the sequences is left alone by a transaction whose statements leave it alone; with this, a
  property of one table needs an argument only for the calls that write the table.
\<close>

definition leaves :: "(database \<Rightarrow> 'v) \<Rightarrow> 'a repo \<Rightarrow> bool" where
  "leaves p m \<longleftrightarrow> (\<forall>x. keeps (\<lambda>w. p (wdb w) = x) m)"

lemma leavesD: "leaves p m \<Longrightarrow> p (wdb (snd (m w))) = p (wdb w)"
  by (simp add: leaves_def keeps_def)

locale table_view =
  fixes p :: "database \<Rightarrow> 'v"
  assumes no_seqs: "p (db\<lparr>seqs := s\<rparr>) = p db"
begin

lemma leaves_ret: "leaves p (ret x)"
  by (simp add: leaves_def)

lemma leaves_fail: "leaves p (fail e)"
  by (simp add: leaves_def)

lemma leaves_and_then: "leaves p m \<Longrightarrow> (\<And>x. leaves p (k x)) \<Longrightarrow> leaves p (and_then m k)"
  by (auto simp: leaves_def)

lemma leaves_map_err: "leaves p m \<Longrightarrow> leaves p (map_err g m)"
  by (auto simp: leaves_def)

lemma leaves_for_each: "(\<And>x. leaves p (f x)) \<Longrightarrow> leaves p (for_each f xs)"
  by (auto simp: leaves_def)

lemma leaves_if: "(c \<Longrightarrow> leaves p m) \<Longrightarrow> (\<not> c \<Longrightarrow> leaves p n) \<Longrightarrow> leaves p (if c then m else n)"
  by simp

lemma leaves_case_prod: "(\<And>x y. leaves p (f x y)) \<Longrightarrow> leaves p (case z of (x, y) \<Rightarrow> f x y)"
  by (cases z) simp

lemma leaves_stmt: "(\<And>now db. p (snd (f now db)) = p db) \<Longrightarrow> leaves p (stmt f)"
  unfolding leaves_def keeps_def
proof (intro allI impI)
  fix x and w :: world
  assume f: "\<And>now db. p (snd (f now db)) = p db" and "p (wdb w) = x"
  with f [of "wnow w" "wdb w"] show "p (wdb (snd (stmt f w))) = x"
    by (cases f w rule: stmt_cases) auto
qed

lemma leaves_query: "leaves p (query f)"
  unfolding query_def by (rule leaves_stmt) simp

lemma leaves_WithTx: "leaves p m \<Longrightarrow> leaves p (WithTx m)"
  unfolding leaves_def keeps_def
proof (intro allI impI)
  fix x and w :: world
  assume m: "\<forall>x w. p (wdb w) = x \<longrightarrow> p (wdb (snd (m w))) = x" and w: "p (wdb w) = x"
  show "p (wdb (snd (WithTx m w))) = x"
  proof (cases "WithTx m w")
    case (Pair r w')
    show ?thesis
    proof (cases r)
      case (Inl e)
      with Pair have "WithTx m w = (Inl e, w')" by simp
      from WithTx_Inl_state [OF this] w no_seqs Pair show ?thesis by auto
    next
      case (Inr y)
      with Pair obtain w1 w2 where "wdb w1 = wdb w" "m w1 = (Inr y, w2)" "wdb w' = wdb w2"
        by (auto elim: WithTx_Inr)
      with m [rule_format, of w1 x] w Pair show ?thesis by auto
    qed
  qed
qed

lemma leaves_discard: "leaves p m \<Longrightarrow> leaves p (discard m)"
  unfolding discard_def by (intro leaves_and_then leaves_ret)

lemmas leaves_intros = leaves_WithTx leaves_and_then leaves_map_err leaves_for_each leaves_if leaves_ret
  leaves_fail leaves_query leaves_discard leaves_case_prod leaves_stmt

end

lemma insert_row_view:
  "p (bump t db) = p db \<Longrightarrow> p (add (bump t db)) = p db \<Longrightarrow> p (snd (insert_row t cs x add db)) = p db"
  by (simp add: insert_row_def split: option.split)

section \<open>Sessions\<close>

interpretation sessions: table_view db_sessions
  by unfold_locales simp

lemma statement_sessions:
  "db_sessions (snd (insert_household name tz budget now db)) = db_sessions db"
  "db_sessions (snd (insert_member h email hash r now db)) = db_sessions db"
  "db_sessions (snd (update_member_active i active now db)) = db_sessions db"
  "db_sessions (snd (insert_device d now db)) = db_sessions db"
  "db_sessions (snd (insert_capability i c now db)) = db_sessions db"
  "db_sessions (snd (upsert_capability i c now db)) = db_sessions db"
  "db_sessions (snd (update_device_state i s s' v now db)) = db_sessions db"
  "db_sessions (snd (update_device_seen i t now db)) = db_sessions db"
  "db_sessions (snd (insert_telemetry pg tel now db)) = db_sessions db"
  "db_sessions (snd (delete_telemetry_before t now db)) = db_sessions db"
  "db_sessions (snd (insert_plan p now db)) = db_sessions db"
  "db_sessions (snd (insert_plan_device pg i j x h now db)) = db_sessions db"
  "db_sessions (snd (update_plan_state i ps ps' now db)) = db_sessions db"
  "db_sessions (snd (expire_plans t now db)) = db_sessions db"
  "db_sessions (snd (insert_automation a now db)) = db_sessions db"
  "db_sessions (snd (insert_action i act h now db)) = db_sessions db"
  "db_sessions (snd (update_automation_state i as as' now db)) = db_sessions db"
  "db_sessions (snd (upsert_run i key now db)) = db_sessions db"
  "db_sessions (snd (claim_run now db)) = db_sessions db"
  "db_sessions (snd (update_run i f now db)) = db_sessions db"
  "db_sessions (snd (fail_stale_runs t now db)) = db_sessions db"
  by (auto simp: insert_household_def insert_member_def update_member_active_def insert_device_def
      insert_capability_def upsert_capability_def update_device_state_def update_device_seen_def
      insert_telemetry_def delete_telemetry_before_def insert_plan_def insert_plan_device_def
      update_plan_state_def expire_plans_def insert_automation_def insert_action_def
      update_automation_state_def upsert_run_def claim_run_def update_run_def fail_stale_runs_def Let_def
      insert_row_def split: option.split sum.split)

lemma statement_sessions':
  "db_sessions (snd (insert_audit_row h act ot oid ac pl rid now db)) = db_sessions db"
  "db_sessions (snd (insert_audit pg au now db)) = db_sessions db"
  "db_sessions (snd (insert_outbox_row h topic pl2 t now db)) = db_sessions db"
  "db_sessions (snd (insert_outbox pg m now db)) = db_sessions db"
  "db_sessions (snd (claim_outbox pg now db)) = db_sessions db"
  "db_sessions (snd (update_pending i g now db)) = db_sessions db"
  "db_sessions (snd (reschedule_outbox pg quoted i attempt t x now db)) = db_sessions db"
  "db_sessions (snd (insert_alert pg al now db)) = db_sessions db"
  "db_sessions (snd (update_alert_state i st st' t now db)) = db_sessions db"
  by (auto simp: insert_audit_row_def insert_audit_def insert_outbox_row_def insert_outbox_def
      claim_outbox_def update_pending_def reschedule_outbox_def insert_alert_def update_alert_state_def
      Let_def insert_row_def split: option.split sum.split)

text \<open>The calls that write sessions.\<close>

fun writes_sessions :: "repo_call \<Rightarrow> bool" where
  "writes_sessions (Call_CreateSession s) = True"
| "writes_sessions (Call_RevokeSession i now) = True"
| "writes_sessions (Call_DeleteExpiredSessions now) = True"
| "writes_sessions _ = False"

lemma sessions_frame: "\<not> writes_sessions c \<Longrightarrow> leaves db_sessions (run_call e c)"
  apply (cases c; simp)
  apply (unfold single_statement_defs CreateHouseholdWithOwner_def CreateDevice_def
    CreatePlan_def CreateAutomation_def ExecuteAutomationRun_def enqueue_action_def driver_call_def
    TransitionWithAudit_def AuditAndMessage_def AppendAuditAndOutbox_def RollbackProof_def query_def [symmetric])
  apply (intro sessions.leaves_intros statement_sessions statement_sessions')+
  done

section \<open>The outbox\<close>

interpretation outbox: table_view db_outbox
  by unfold_locales simp

lemma statement_outbox:
  "db_outbox (snd (insert_household name tz budget now db)) = db_outbox db"
  "db_outbox (snd (insert_member h email hash r now db)) = db_outbox db"
  "db_outbox (snd (update_member_active i active now db)) = db_outbox db"
  "db_outbox (snd (insert_device d now db)) = db_outbox db"
  "db_outbox (snd (insert_capability i c now db)) = db_outbox db"
  "db_outbox (snd (upsert_capability i c now db)) = db_outbox db"
  "db_outbox (snd (update_device_state i s s' v now db)) = db_outbox db"
  "db_outbox (snd (update_device_seen i t now db)) = db_outbox db"
  "db_outbox (snd (insert_telemetry pg tel now db)) = db_outbox db"
  "db_outbox (snd (delete_telemetry_before t now db)) = db_outbox db"
  "db_outbox (snd (insert_plan p now db)) = db_outbox db"
  "db_outbox (snd (insert_plan_device pg i j x h now db)) = db_outbox db"
  "db_outbox (snd (update_plan_state i ps ps' now db)) = db_outbox db"
  "db_outbox (snd (expire_plans t now db)) = db_outbox db"
  "db_outbox (snd (insert_automation a now db)) = db_outbox db"
  "db_outbox (snd (insert_action i act h now db)) = db_outbox db"
  "db_outbox (snd (update_automation_state i as as' now db)) = db_outbox db"
  "db_outbox (snd (upsert_run i key now db)) = db_outbox db"
  "db_outbox (snd (claim_run now db)) = db_outbox db"
  "db_outbox (snd (update_run i f now db)) = db_outbox db"
  "db_outbox (snd (fail_stale_runs t now db)) = db_outbox db"
  "db_outbox (snd (insert_session uuid ses now db)) = db_outbox db"
  "db_outbox (snd (update_session_revoked uuid sid rt now db)) = db_outbox db"
  "db_outbox (snd (delete_expired_sessions t now db)) = db_outbox db"
  "db_outbox (snd (insert_audit_row owner what ot oid ac pl rid now db)) = db_outbox db"
  "db_outbox (snd (insert_audit pg au now db)) = db_outbox db"
  "db_outbox (snd (insert_alert pg al now db)) = db_outbox db"
  "db_outbox (snd (update_alert_state i st st' t now db)) = db_outbox db"
  by (auto simp: insert_session_def update_session_revoked_def delete_expired_sessions_def insert_audit_row_def
      insert_audit_def insert_alert_def update_alert_state_def insert_household_def insert_member_def update_member_active_def insert_device_def
      insert_capability_def upsert_capability_def update_device_state_def update_device_seen_def
      insert_telemetry_def delete_telemetry_before_def insert_plan_def insert_plan_device_def
      update_plan_state_def expire_plans_def insert_automation_def insert_action_def
      update_automation_state_def upsert_run_def claim_run_def update_run_def fail_stale_runs_def Let_def
      insert_row_def split: option.split sum.split)

text \<open>The calls that write the outbox.\<close>

fun writes_outbox :: "repo_call \<Rightarrow> bool" where
  "writes_outbox (Call_ExecuteAutomationRun i now) = True"
| "writes_outbox (Call_AddOutbox m) = True"
| "writes_outbox Call_ClaimOutbox = True"
| "writes_outbox (Call_MarkOutbox i delivered next_at) = True"
| "writes_outbox (Call_MarkOutboxFailed i reason) = True"
| "writes_outbox (Call_RescheduleOutbox i attempt next_at x) = True"
| "writes_outbox (Call_TransitionWithAudit u) = True"
| "writes_outbox (Call_AuditAndMessage a m) = True"
| "writes_outbox (Call_AppendAuditAndOutbox a m) = True"
| "writes_outbox _ = False"

lemma outbox_frame: "\<not> writes_outbox c \<Longrightarrow> leaves db_outbox (run_call e c)"
  apply (cases c; simp)
  apply (unfold single_statement_defs CreateHouseholdWithOwner_def CreateDevice_def
    CreatePlan_def CreateAutomation_def driver_call_def RollbackProof_def query_def [symmetric])
  apply (intro outbox.leaves_intros statement_outbox)+
  done

end
