(* ===== verification/Repo_Properties.thy ===== *)
theory Repo_Properties
  imports Frames
begin

text \<open>
  The properties of the repository. They quantify over all outcomes of the driver calls, and
  those about a later time over all calls in between.
\<close>

section \<open>A sample database\<close>

text \<open>One household with a lamp, an automation with a running run, and two outbox messages.\<close>

definition sample_env :: env where
  "sample_env = \<lparr>env_pg = \<lparr>jsonb_in = (\<lambda>s. if s = [] then Inl (pg_invalid_text ''json'') else Inr (JStr s)),
     jsonb_out = (\<lambda>_. ''{}''), numeric_12_3 = Inr, numeric_8_3 = Inr\<rparr>, env_uuid = Some, env_quoted = id\<rparr>"

definition sample_db :: database where
  "sample_db = empty_db\<lparr>
     db_households := [\<lparr>hh_ID = 1, hh_Name = ''Home'', hh_Timezone = ''UTC'', hh_MonthlyBudgetCents = 100,
       hh_CreatedAt = 1\<rparr>],
     db_devices := [\<lparr>dev_ID = 1, dev_HouseholdID = 1, dev_ExternalID = ''lamp'', dev_Kind = KindLight,
       dev_State = DeviceEnabled, dev_Firmware = ''f1'', dev_Version = 3, dev_LastSeenAt = None,
       dev_CreatedAt = 1\<rparr>],
     db_automations := [\<lparr>aut_ID = 1, aut_HouseholdID = 1, aut_Name = ''night'',
       aut_State = AutomationActive, aut_TriggerKind = ''manual'', aut_CreatedAt = 1\<rparr>],
     db_actions := [\<lparr>act_ID = 1, act_AutomationID = 1, act_DeviceID = 1, act_Action = ''off'',
       act_Ordinal = 0\<rparr>],
     db_runs := [\<lparr>rr_ID = 1, rr_AutomationID = 1, rr_IdempotencyKey = ''k'', rr_State = RunRunning,
       rr_ErrorText = None, rr_StartedAt = Some 2, rr_FinishedAt = None\<rparr>],
     db_outbox := [\<lparr>obr_ID = 1, obr_HouseholdID = 1, obr_Topic = ''t'', obr_Payload = JNull,
         obr_Attempts = 0, obr_AvailableAt = 1, obr_LockedAt = None, obr_DeliveredAt = None,
         obr_FailedAt = None, obr_FailureReason = None\<rparr>,
       \<lparr>obr_ID = 2, obr_HouseholdID = 1, obr_Topic = ''t'', obr_Payload = JNull,
         obr_Attempts = 1, obr_AvailableAt = 1, obr_LockedAt = None, obr_DeliveredAt = Some 2,
         obr_FailedAt = None, obr_FailureReason = None\<rparr>],
     seqs := (\<lambda>_. 2)\<rparr>"

definition sample :: world where
  "sample = \<lparr>wdb = sample_db, wnow = 3, wfaults = []\<rparr>"

lemma sample_simps [simp]:
  "wfaults sample = []" "wnow sample = 3" "wdb sample = sample_db"
  by (simp_all add: sample_def)

lemma sample_ok: "schema_ok sample_db"
  by (simp add: sample_db_def empty_db_def schema_ok_def table_oks keyed_def owners device_row_ok_def
      max_i64_def outbox_row_ok_def pending_def)

lemma outcome_pair: "fst x = Inr u \<Longrightarrow> x = (Inr u, snd x)"
  by (cases x) simp

lemma later:
  assumes "schema_ok (wdb w)"
  shows "since (wdb w) (wdb (run_calls e cs w))" and "schema_ok (wdb (run_calls e cs w))"
  using kept_run_calls [OF keptI [OF assms], of e cs] by (simp_all add: kept_def)

lemma update_where_mem: "r \<in> set rows \<Longrightarrow> p r \<Longrightarrow> f r \<in> set (update_where p f rows)"
  by (force simp: update_where_def)

lemma one_row_update:
  assumes "\<And>r. key (f r) = key r"
  shows "one_row (\<lambda>r. key r = k) (update_where p f rows) =
    map_sum id (\<lambda>r. if p r then f r else r) (one_row (\<lambda>r. key r = k) rows)"
proof (induction rows)
  case Nil
  then show ?case by (simp add: one_row_def update_where_def)
next
  case (Cons r rows)
  then show ?case using assms by (auto simp: one_row_def update_where_def)
qed

lemma one_row_update_other:
  assumes "\<And>r. key (f r) = key r" and "\<And>r. p r \<Longrightarrow> key r \<noteq> k"
  shows "one_row (\<lambda>r. key r = k) (update_where p f rows) = one_row (\<lambda>r. key r = k) rows"
proof (induction rows)
  case Nil
  then show ?case by (simp add: one_row_def update_where_def)
next
  case (Cons r rows)
  then show ?case using assms by (auto simp: one_row_def update_where_def)
qed

section \<open>Device versions\<close>

lemma TransitionDevice_Inr:
  assumes "TransitionDevice i from to v w = (Inr (), w')"
  obtains d where "d \<in> set (db_devices (wdb w))" "dev_ID d = i" "dev_State d = from" "dev_Version d = v"
    and "wdb w' = (wdb w)\<lparr>db_devices := update_where
      (\<lambda>d. dev_ID d = i \<and> dev_State d = from \<and> dev_Version d = v)
      (\<lambda>d. d\<lparr>dev_State := to, dev_Version := dev_Version d + 1\<rparr>) (db_devices (wdb w))\<rparr>"
proof -
  from assms obtain n w1 where "stmt (update_device_state i from to v) w = (Inr n, w1)"
      and n: "n \<noteq> 0" "w' = w1"
    by (auto simp: TransitionDevice_def and_then_eq_Inr split: if_splits)
  from stmt_Inr [OF this(1)] n(2)
  have r: "update_device_state i from to v (wnow w) (wdb w) = (Inr n, wdb w')" by simp
  with n(1) have ex: "list_ex (\<lambda>d. dev_ID d = i \<and> dev_State d = from \<and> dev_Version d = v) (db_devices (wdb w))"
    by (auto simp: update_device_state_def Let_def split: if_splits)
  moreover from r n(1) have "wdb w' = (wdb w)\<lparr>db_devices := update_where
      (\<lambda>d. dev_ID d = i \<and> dev_State d = from \<and> dev_Version d = v)
      (\<lambda>d. d\<lparr>dev_State := to, dev_Version := dev_Version d + 1\<rparr>) (db_devices (wdb w))\<rparr>"
    by (simp add: update_device_state_def Let_def split: if_splits)
  ultimately show thesis using that by (auto simp: list_ex_iff)
qed

lemma since_device:
  assumes "since b db" and "d \<in> set (db_devices b)"
  obtains e where "e \<in> set (db_devices db)" "dev_ID e = dev_ID d" "dev_Version d \<le> dev_Version e"
  using assms unfolding since_def devices_since_def by blast

text \<open>C12. Optimistic locking: once a transition of a device from a version has succeeded, no other
  transition from that version succeeds, whatever calls lie between the two.\<close>

theorem one_transition_per_version:
  assumes "schema_ok (wdb w)" and "TransitionDevice i from to v w = (Inr (), w1)"
  shows "fst (TransitionDevice i from' to' v (run_calls e cs w1)) \<noteq> Inr ()"
proof
  let ?w2 = "run_calls e cs w1"
  assume "fst (TransitionDevice i from' to' v ?w2) = Inr ()"
  then have "TransitionDevice i from' to' v ?w2 = (Inr (), snd (TransitionDevice i from' to' v ?w2))"
    by (cases "TransitionDevice i from' to' v ?w2") simp
  then obtain e2 where e2: "e2 \<in> set (db_devices (wdb ?w2))" "dev_ID e2 = i" "dev_Version e2 = v"
    by (rule TransitionDevice_Inr)
  have ok1: "schema_ok (wdb w1)"
    using schema_ok_call [OF assms(1), of e "Call_TransitionDevice i from to v"] assms(2) by simp
  from assms(2) obtain d where d: "d \<in> set (db_devices (wdb w))" "dev_ID d = i" "dev_State d = from"
      "dev_Version d = v" and w1: "wdb w1 = (wdb w)\<lparr>db_devices := update_where
      (\<lambda>d. dev_ID d = i \<and> dev_State d = from \<and> dev_Version d = v)
      (\<lambda>d. d\<lparr>dev_State := to, dev_Version := dev_Version d + 1\<rparr>) (db_devices (wdb w))\<rparr>"
    by (rule TransitionDevice_Inr)
  let ?f = "\<lambda>d. d\<lparr>dev_State := to, dev_Version := dev_Version d + 1\<rparr>"
  have "?f d \<in> set (update_where (\<lambda>d. dev_ID d = i \<and> dev_State d = from \<and> dev_Version d = v) ?f
      (db_devices (wdb w)))"
    by (rule update_where_mem) (use d in simp_all)
  then have "?f d \<in> set (db_devices (wdb w1))"
    unfolding w1 by simp
  from since_device [OF later(1) [OF ok1] this] obtain e1 where
      "e1 \<in> set (db_devices (wdb ?w2))" "dev_ID e1 = i" "v + 1 \<le> dev_Version e1"
    using d(2,4) by auto
  with e2 keyed_inj [OF schema_keyed(2) [OF later(2) [OF ok1]], of e1 e cs e2] show False by auto
qed

lemma map_sum_Inr: "map_sum g f x = Inr d \<longleftrightarrow> (\<exists>y. x = Inr y \<and> d = f y)"
  by (cases x) auto

lemma map_sum_id_Inr [simp]: "map_sum g id x = Inr d \<longleftrightarrow> x = Inr d"
  by (cases x) auto

lemma GetDevice_run:
  "wfaults w = [] \<Longrightarrow> GetDevice i w =
     (map_sum classify_read_error id (one_row (\<lambda>d. dev_ID d = i) (db_devices (wdb w))), w)"
  by (simp add: GetDevice_def query_def map_err_def stmt_run split: sum.split)

text \<open>A transition succeeds exactly when the device is in the expected state and version, the
  version can still grow and the new state is a known one; it then sets the state, counts the
  version up and leaves every other device alone.\<close>

lemma TransitionDevice_effect:
  assumes ok: "schema_ok (wdb w)" and f: "wfaults w = []" and d: "fst (GetDevice i w) = Inr d"
  shows "(fst (TransitionDevice i from to v w) = Inr () \<longleftrightarrow>
      dev_State d = from \<and> dev_Version d = v \<and> v < max_i64 \<and> (\<forall>s. to \<noteq> DeviceOther s)) \<and>
    (fst (TransitionDevice i from to v w) = Inr () \<longrightarrow>
      fst (GetDevice j (snd (TransitionDevice i from to v w))) =
        (if j = i then Inr (d\<lparr>dev_State := to, dev_Version := v + 1\<rparr>) else fst (GetDevice j w)))"
proof -
  have keyed: "keyed dev_ID (db_devices (wdb w)) (seqs (wdb w) TDevices)" by (rule schema_keyed(2) [OF ok])
  from d have row: "one_row (\<lambda>d. dev_ID d = i) (db_devices (wdb w)) = Inr d"
    by (simp add: GetDevice_run [OF f] split: sum.splits)
  from one_row_Inr [OF row] have dm: "d \<in> set (db_devices (wdb w))" "dev_ID d = i" by auto
  have hit: "list_ex (\<lambda>d. dev_ID d = i \<and> dev_State d = from \<and> dev_Version d = v) (db_devices (wdb w)) \<longleftrightarrow>
      dev_State d = from \<and> dev_Version d = v"
    using dm keyed_inj [OF keyed] by (auto simp: list_ex_iff)
  have cnt: "count_where (\<lambda>d. dev_ID d = i \<and> dev_State d = from \<and> dev_Version d = v) (db_devices (wdb w)) = 0
      \<longleftrightarrow> \<not> (dev_State d = from \<and> dev_Version d = v)"
    by (simp add: count_where_eq_0 hit)
  have "dev_Version d \<le> max_i64"
    using ok dm by (auto simp: schema_ok_def devices_ok_def device_row_ok_def)
  moreover have "one_row (\<lambda>r. dev_ID r = j) (update_where
      (\<lambda>d. dev_ID d = i \<and> dev_State d = from \<and> dev_Version d = v)
      (\<lambda>d. d\<lparr>dev_State := to, dev_Version := dev_Version d + 1\<rparr>) (db_devices (wdb w)))
      = (if j = i then Inr (if dev_State d = from \<and> dev_Version d = v
             then d\<lparr>dev_State := to, dev_Version := v + 1\<rparr> else d)
         else one_row (\<lambda>r. dev_ID r = j) (db_devices (wdb w)))"
  proof (cases "j = i")
    case True
    with row dm(2) show ?thesis by (simp add: one_row_update)
  next
    case False
    have "one_row (\<lambda>r. dev_ID r = j) (update_where
        (\<lambda>d. dev_ID d = i \<and> dev_State d = from \<and> dev_Version d = v)
        (\<lambda>d. d\<lparr>dev_State := to, dev_Version := dev_Version d + 1\<rparr>) (db_devices (wdb w)))
        = one_row (\<lambda>r. dev_ID r = j) (db_devices (wdb w))"
      by (rule one_row_update_other) (use False in auto)
    with False show ?thesis by simp
  qed
  ultimately show ?thesis
    using f cnt
    by (auto simp: TransitionDevice_def and_then_def map_err_def stmt_run update_device_state_def Let_def hit
        state_known GetDevice_run)
qed

section \<open>Runs\<close>

lemma since_run:
  assumes "since b db" and "r \<in> set (db_runs b)"
  obtains s where "s \<in> set (db_runs db)" "rr_ID s = rr_ID r" "rr_AutomationID s = rr_AutomationID r"
    "rr_IdempotencyKey s = rr_IdempotencyKey r" "finished r \<longrightarrow> s = r"
  using assms unfolding since_def runs_since_def by blast

lemma schema_run_keys:
  assumes "schema_ok db" and "r \<in> set (db_runs db)" and "s \<in> set (db_runs db)"
    and "rr_AutomationID r = rr_AutomationID s" and "rr_IdempotencyKey r = rr_IdempotencyKey s"
  shows "r = s"
  using assms by (auto simp: schema_ok_def runs_ok_def distinct_map inj_on_def)

lemma QueueRun_Inr:
  assumes "QueueRun i key w = (Inr run, w')"
  obtains r where "r \<in> set (db_runs (wdb w'))" "rr_ID r = run_ID run" "rr_AutomationID r = i"
    "rr_IdempotencyKey r = key"
    "r \<in> set (db_runs (wdb w)) \<longrightarrow> db_runs (wdb w') = db_runs (wdb w)"
    "r \<notin> set (db_runs (wdb w)) \<longrightarrow> db_runs (wdb w') = db_runs (wdb w) @ [r] \<and> rr_State r = RunQueued \<and>
       rr_ID r = next_id TRuns (wdb w) \<and>
       \<not> list_ex (\<lambda>r. rr_AutomationID r = i \<and> rr_IdempotencyKey r = key) (db_runs (wdb w))"
proof -
  from assms have "stmt (upsert_run i key) w = (Inr run, w')"
    by (simp add: QueueRun_def)
  from stmt_Inr [OF this] have u: "upsert_run i key (wnow w) (wdb w) = (Inr run, wdb w')" by simp
  show thesis
  proof (cases "one_row (\<lambda>r. rr_AutomationID r = i \<and> rr_IdempotencyKey r = key) (db_runs (wdb w))")
    case (Inr r)
    from one_row_Inr [OF Inr] have r: "r \<in> set (db_runs (wdb w))" "rr_AutomationID r = i" "rr_IdempotencyKey r = key"
      by auto
    from u Inr have "run = scan_run r" "wdb w' = bump TRuns (wdb w)"
      by (auto simp: upsert_run_def split: if_splits)
    with r show thesis by (intro that [of r]) (auto simp: scan_run_def)
  next
    case (Inl e)
    define r where "r = \<lparr>rr_ID = next_id TRuns (wdb w), rr_AutomationID = i, rr_IdempotencyKey = key,
        rr_State = RunQueued, rr_ErrorText = None, rr_StartedAt = None, rr_FinishedAt = None\<rparr>"
    from u Inl have "run = scan_run r" "wdb w' = (bump TRuns (wdb w))\<lparr>db_runs := db_runs (wdb w) @ [r]\<rparr>"
      by (auto simp: upsert_run_def r_def Let_def split: if_splits)
    moreover have none: "\<not> list_ex (\<lambda>r. rr_AutomationID r = i \<and> rr_IdempotencyKey r = key) (db_runs (wdb w))"
      using Inl by (simp add: one_row_Inl)
    moreover from none have "r \<notin> set (db_runs (wdb w))"
      by (auto simp: r_def list_ex_iff)
    ultimately show thesis by (intro that [of r]) (auto simp: scan_run_def r_def)
  qed
qed

text \<open>C18. Queueing is idempotent: a second request with the key of a queued run, however much later,
  yields that run and adds none.\<close>

theorem QueueRun_idempotent:
  assumes ok: "schema_ok (wdb w)" and q1: "QueueRun i key w = (Inr run1, w1)"
    and q2: "QueueRun i key (run_calls e cs w1) = (Inr run2, w3)"
  shows "run_ID run2 = run_ID run1 \<and> db_runs (wdb w3) = db_runs (wdb (run_calls e cs w1))"
proof -
  let ?w2 = "run_calls e cs w1"
  from q1 obtain r1 where r1: "r1 \<in> set (db_runs (wdb w1))" "rr_ID r1 = run_ID run1" "rr_AutomationID r1 = i"
      "rr_IdempotencyKey r1 = key" by (rule QueueRun_Inr)
  have ok1: "schema_ok (wdb w1)"
    using schema_ok_call [OF ok, of e "Call_QueueRun i key"] q1 by (simp add: discard_def and_then_def)
  from since_run [OF later(1) [OF ok1] r1(1)] obtain s where s: "s \<in> set (db_runs (wdb ?w2))"
      "rr_ID s = rr_ID r1" "rr_AutomationID s = i" "rr_IdempotencyKey s = key"
    using r1(3,4) by metis
  from q2 obtain r2 where r2: "r2 \<in> set (db_runs (wdb w3))" "rr_ID r2 = run_ID run2"
      "rr_AutomationID r2 = i" "rr_IdempotencyKey r2 = key"
      "r2 \<in> set (db_runs (wdb ?w2)) \<longrightarrow> db_runs (wdb w3) = db_runs (wdb ?w2)"
      "r2 \<notin> set (db_runs (wdb ?w2)) \<longrightarrow> db_runs (wdb w3) = db_runs (wdb ?w2) @ [r2] \<and> rr_State r2 = RunQueued \<and>
         rr_ID r2 = next_id TRuns (wdb ?w2) \<and>
         \<not> list_ex (\<lambda>r. rr_AutomationID r = i \<and> rr_IdempotencyKey r = key) (db_runs (wdb ?w2))"
    by (rule QueueRun_Inr)
  with s have old: "r2 \<in> set (db_runs (wdb ?w2))" by (auto simp: list_ex_iff)
  with s r2(3,4) have "r2 = s" by (intro schema_run_keys [OF later(2) [OF ok1]]) auto
  with old r1(2) r2(2,5) s(2) show ?thesis by simp
qed

section \<open>Executing a run\<close>

text \<open>The message a run sends for an action.\<close>

definition action_message :: "int \<Rightarrow> int \<Rightarrow> int \<Rightarrow> time \<Rightarrow> loaded_action \<Rightarrow> outbox_row \<Rightarrow> bool" where
  "action_message h automationID runID t x r \<longleftrightarrow>
     obr_HouseholdID r = h \<and> obr_Topic r = ''device.command'' \<and>
     obr_Payload r = command_payload automationID runID x \<and> obr_AvailableAt r = t \<and>
     obr_Attempts r = 0 \<and> pending r"

lemma enqueue_action_Inr:
  assumes "enqueue_action h a i t x w = (Inr u, w')"
  shows "la_household x = h \<and> la_state x = DeviceEnabled \<and> (\<exists>m. action_message h a i t x m \<and>
    db_outbox (wdb w') = db_outbox (wdb w) @ [m]) \<and> db_runs (wdb w') = db_runs (wdb w) \<and>
    db_audit (wdb w') = db_audit (wdb w)"
proof -
  from assms have dev: "la_household x = h" "la_state x = DeviceEnabled"
      and "stmt (insert_outbox_row h ''device.command'' (command_payload a i x) t) w = (Inr (), w')"
    by (auto simp: enqueue_action_def split: if_splits)
  from stmt_Inr [OF this(3)] dev show ?thesis
    by (auto simp: insert_outbox_row_def Let_def insert_row_Inr action_message_def pending_def)
qed

lemma enqueue_all_Inr:
  "for_each (enqueue_action h a i t) xs w = (Inr u, w') \<Longrightarrow>
     (\<forall>x\<in>set xs. la_household x = h \<and> la_state x = DeviceEnabled) \<and> (\<exists>ms.
       list_all2 (action_message h a i t) xs ms \<and> db_outbox (wdb w') = db_outbox (wdb w) @ ms) \<and>
     db_runs (wdb w') = db_runs (wdb w) \<and> db_audit (wdb w') = db_audit (wdb w)"
proof (induction xs arbitrary: w)
  case Nil
  then show ?case by simp
next
  case (Cons x xs)
  then obtain w1 where 1: "enqueue_action h a i t x w = (Inr (), w1)"
      and 2: "for_each (enqueue_action h a i t) xs w1 = (Inr u, w')"
    by (auto simp: and_then_eq_Inr)
  from enqueue_action_Inr [OF 1] obtain m where m: "action_message h a i t x m"
      "db_outbox (wdb w1) = db_outbox (wdb w) @ [m]" by blast
  from Cons.IH [OF 2] obtain ms where ms: "list_all2 (action_message h a i t) xs ms"
      "db_outbox (wdb w') = db_outbox (wdb w1) @ ms" by blast
  from m ms have "list_all2 (action_message h a i t) (x # xs) (m # ms)"
    "db_outbox (wdb w') = db_outbox (wdb w) @ m # ms" by simp_all
  with enqueue_action_Inr [OF 1] Cons.IH [OF 2] show ?case by auto
qed

text \<open>What a successful execution did.\<close>

definition executed :: "int \<Rightarrow> time \<Rightarrow> database \<Rightarrow> database \<Rightarrow> bool" where
  "executed i t db db' \<longleftrightarrow> (\<exists>automationID h xs ms ev.
     load_run i db = Inr (automationID, h) \<and> load_actions automationID db = Inr xs \<and> xs \<noteq> [] \<and>
     (\<forall>x\<in>set xs. la_household x = h \<and> la_state x = DeviceEnabled) \<and>
     list_all2 (action_message h automationID i t) xs ms \<and> db_outbox db' = db_outbox db @ ms \<and>
     db_audit db' = db_audit db @ [ev] \<and> aur_HouseholdID ev = h \<and> aur_ObjectID ev = show_int i \<and>
     aur_Action ev = ''dispatched'' \<and>
     db_runs db' = update_where (running i) (\<lambda>r. r\<lparr>rr_State := RunSucceeded, rr_ErrorText := None,
        rr_FinishedAt := Some t\<rparr>) (db_runs db))"

lemma ExecuteAutomationRun_Inr:
  assumes "ExecuteAutomationRun i t w = (Inr u, w')"
  shows "executed i t (wdb w) (wdb w')"
proof -
  note [simp] = and_then_eq_Inr
  from assms obtain w0 w1 w2 w3 w4 w5 w6 automationID h xs n where
    w0: "wdb w0 = wdb w"
    and 1: "query (load_run i) w0 = (Inr (automationID, h), w1)"
    and 2: "query (load_actions automationID) w1 = (Inr xs, w2)"
    and 3: "driver_call w2 = (Inr (), w3)" and xs: "xs \<noteq> []"
    and 4: "for_each (enqueue_action h automationID i t) xs w3 = (Inr (), w4)"
    and 5: "stmt (insert_audit_row h None (run_request_id i) ''automation_run''
              (show_int i) ''dispatched'' (JObj [(''action_count'', JNum (of_nat (length xs)))])) w4 = (Inr (), w5)"
    and 6: "stmt (update_run i (\<lambda>r. r\<lparr>rr_State := RunSucceeded, rr_ErrorText := None,
              rr_FinishedAt := Some t\<rparr>)) w5 = (Inr n, w6)"
    and w6: "wdb w' = wdb w6"
    by (auto simp: ExecuteAutomationRun_def elim!: WithTx_Inr split: if_splits)
  from query_Inr [OF 1] query_Inr [OF 2] driver_call_state [OF 3] w0
  have loads: "load_run i (wdb w) = Inr (automationID, h)" "load_actions automationID (wdb w) = Inr xs"
    and w3: "wdb w3 = wdb w" by auto
  from enqueue_all_Inr [OF 4] w3 obtain ms where
    ms: "list_all2 (action_message h automationID i t) xs ms" "db_outbox (wdb w4) = db_outbox (wdb w) @ ms"
    and dev: "\<forall>x\<in>set xs. la_household x = h \<and> la_state x = DeviceEnabled"
    and w4: "db_runs (wdb w4) = db_runs (wdb w)" "db_audit (wdb w4) = db_audit (wdb w)" by auto
  from stmt_Inr [OF 5] w4 ms(2) obtain ev where ev: "db_audit (wdb w5) = db_audit (wdb w) @ [ev]"
      "aur_HouseholdID ev = h" "aur_ObjectID ev = show_int i" "aur_Action ev = ''dispatched''"
    and w5: "db_runs (wdb w5) = db_runs (wdb w)" "db_outbox (wdb w5) = db_outbox (wdb w) @ ms"
    by (auto simp: insert_audit_row_def Let_def insert_row_Inr)
  have "wdb w' = snd (update_run i (\<lambda>r. r\<lparr>rr_State := RunSucceeded, rr_ErrorText := None,
      rr_FinishedAt := Some t\<rparr>) (wnow w5) (wdb w5))"
    using stmt_Inr [OF 6] w6 by simp
  with w5 ev(1) have "db_audit (wdb w') = db_audit (wdb w) @ [ev]"
      "db_outbox (wdb w') = db_outbox (wdb w) @ ms"
      "db_runs (wdb w') = update_where (running i) (\<lambda>r. r\<lparr>rr_State := RunSucceeded, rr_ErrorText := None,
        rr_FinishedAt := Some t\<rparr>) (db_runs (wdb w))"
    by (simp_all add: update_run_def)
  with loads xs dev ms(1) ev(2-4) show ?thesis unfolding executed_def by blast
qed

text \<open>C14. A run is dispatched at most once: after it was executed no later execution of it succeeds,
  whatever calls lie between.\<close>

theorem run_dispatched_once:
  assumes ok: "schema_ok (wdb w)" and x1: "ExecuteAutomationRun i t w = (Inr (), w1)"
  shows "fst (ExecuteAutomationRun i t' (run_calls e cs w1)) \<noteq> Inr ()"
proof
  let ?w2 = "run_calls e cs w1"
  assume "fst (ExecuteAutomationRun i t' ?w2) = Inr ()"
  then obtain w3 where "ExecuteAutomationRun i t' ?w2 = (Inr (), w3)"
    by (cases "ExecuteAutomationRun i t' ?w2") auto
  from ExecuteAutomationRun_Inr [OF this] obtain a h where "load_run i (wdb ?w2) = Inr (a, h)"
    unfolding executed_def by blast
  then obtain s where s: "s \<in> set (db_runs (wdb ?w2))" "running i s"
    by (auto simp: load_run_def dest: one_row_Inr split: sum.splits)
  from ExecuteAutomationRun_Inr [OF x1] obtain a h where "load_run i (wdb w) = Inr (a, h)"
    and runs: "db_runs (wdb w1) = update_where (running i) (\<lambda>r. r\<lparr>rr_State := RunSucceeded,
      rr_ErrorText := None, rr_FinishedAt := Some t\<rparr>) (db_runs (wdb w))"
    unfolding executed_def by blast
  then obtain r where r: "r \<in> set (db_runs (wdb w))" "running i r"
    by (auto simp: load_run_def dest: one_row_Inr split: sum.splits)
  let ?f = "\<lambda>r. r\<lparr>rr_State := RunSucceeded, rr_ErrorText := None, rr_FinishedAt := Some t\<rparr>"
  let ?r = "?f r"
  have m1: "?r \<in> set (db_runs (wdb w1))"
    unfolding runs using r update_where_mem [of r "db_runs (wdb w)" "running i" ?f] by simp
  have ok1: "schema_ok (wdb w1)"
    using schema_ok_call [OF ok, of e "Call_ExecuteAutomationRun i t"] x1 by simp
  from since_run [OF later(1) [OF ok1] m1] obtain s' where
      s': "s' \<in> set (db_runs (wdb ?w2))" "finished ?r \<longrightarrow> s' = ?r" .
  then have "s' = ?r" by (simp add: finished_def)
  with s'(1) r(2) have "?r \<in> set (db_runs (wdb ?w2))" "rr_ID ?r = rr_ID s"
    using s(2) by (simp_all add: running_def)
  from keyed_inj [OF schema_keyed(5) [OF later(2) [OF ok1]] this(1) s(1) this(2)] s(2) show False
    by (auto simp: running_def)
qed

section \<open>Claims\<close>

lemma ClaimOutbox_Inr:
  assumes "ClaimOutbox p w = (Inr m, w')"
  obtains c where "c \<in> set (db_outbox (wdb w))" "claimable (wnow w) c" "out_ID m = obr_ID c"
    "\<forall>r\<in>set (db_outbox (wdb w)). claimable (wnow w) r \<longrightarrow> obr_ID c \<le> obr_ID r"
    "wdb w' = (wdb w)\<lparr>db_outbox := update_where (\<lambda>r. obr_ID r = obr_ID c)
       (\<lambda>r. r\<lparr>obr_LockedAt := Some (wnow w), obr_Attempts := obr_Attempts r + 1\<rparr>) (db_outbox (wdb w))\<rparr>"
proof -
  from assms have "stmt (claim_outbox p) w = (Inr m, w')" by (simp add: ClaimOutbox_def)
  from stmt_Inr [OF this] have u: "claim_outbox p (wnow w) (wdb w) = (Inr m, wdb w')" by simp
  then obtain c where c: "least_by obr_ID (claimable (wnow w)) (db_outbox (wdb w)) = Some c"
    by (auto simp: claim_outbox_def split: option.splits)
  with u have "wdb w' = (wdb w)\<lparr>db_outbox := update_where (\<lambda>r. obr_ID r = obr_ID c)
       (\<lambda>r. r\<lparr>obr_LockedAt := Some (wnow w), obr_Attempts := obr_Attempts r + 1\<rparr>) (db_outbox (wdb w))\<rparr>"
    "out_ID m = obr_ID c"
    by (auto simp: claim_outbox_def Let_def scan_outbox_def split: if_splits)
  with least_by_Some [OF c] that show thesis by blast
qed

text \<open>A delivered or failed message is never claimed again.\<close>

lemma closed_message_never_claimed:
  assumes ok: "schema_ok (wdb w)" and closed: "r \<in> set (db_outbox (wdb w))" "\<not> pending r"
    and claim: "ClaimOutbox p (run_calls e cs w) = (Inr m, w')"
  shows "out_ID m \<noteq> obr_ID r"
proof
  let ?w2 = "run_calls e cs w"
  assume same: "out_ID m = obr_ID r"
  from claim obtain c where c: "c \<in> set (db_outbox (wdb ?w2))" "claimable (wnow ?w2) c" "out_ID m = obr_ID c"
    by (rule ClaimOutbox_Inr)
  from later(1) [OF ok, of e cs] closed have "r \<in> set (db_outbox (wdb ?w2))"
    unfolding since_def outbox_since_def by blast
  with c same keyed_inj [OF schema_keyed(7) [OF later(2) [OF ok]], of r e cs c] have "r = c" by simp
  with c(2) closed(2) show False by (simp add: claimable_def)
qed

text \<open>Message \<open>i\<close> is closed or has been leased since \<open>s\<close>.\<close>

definition leased :: "int \<Rightarrow> time \<Rightarrow> database \<Rightarrow> bool" where
  "leased i s db \<longleftrightarrow> i \<le> seqs db TOutbox \<and>
     (\<forall>r\<in>set (db_outbox db). obr_ID r = i \<longrightarrow> pending r \<longrightarrow> (\<exists>l. obr_LockedAt r = Some l \<and> s \<le> l))"

interpretation lease: table_invariant "\<lambda>db. kept b db \<and> leased i s db" for b i s
  by unfold_locales (auto intro: kept_seqs order_trans simp: leased_def)

lemma grows_leased:
  assumes "grows (kept b) f" "\<And>now db. leased i s db \<Longrightarrow> i \<le> seqs (snd (f now db)) TOutbox \<Longrightarrow> leased i s (snd (f now db))"
  shows "grows (\<lambda>db. kept b db \<and> leased i s db) f"
  unfolding grows_def
proof (intro allI impI)
  fix now db
  assume db: "kept b db \<and> leased i s db"
  with assms(1) have g: "kept b (snd (f now db))" "seqs db t \<le> seqs (snd (f now db)) t" for t
    by (simp_all add: grows_def)
  with db have "i \<le> seqs (snd (f now db)) TOutbox" by (auto simp: leased_def intro: order_trans)
  with db g assms(2) show "(kept b (snd (f now db)) \<and> leased i s (snd (f now db))) \<and> (\<forall>t. seqs db t \<le> seqs (snd (f now db)) t)"
    by blast
qed

lemma leased_same: "db_outbox d = db_outbox db \<Longrightarrow> leased i s db \<Longrightarrow> i \<le> seqs d TOutbox \<Longrightarrow> leased i s d"
  by (simp add: leased_def)

lemma leased_insert_outbox_row:
  "leased i s db \<Longrightarrow> i \<le> seqs (snd (insert_outbox_row h topic pl t now db)) TOutbox \<Longrightarrow>
     leased i s (snd (insert_outbox_row h topic pl t now db))"
  by (auto simp: leased_def insert_outbox_row_def insert_row_def Let_def next_id_def split: option.splits)

lemma leased_update_pending:
  assumes "leased i s db" "j = i \<longrightarrow> (\<forall>r. \<not> pending (f now r))" "\<forall>r. obr_ID (f now r) = obr_ID r"
  shows "leased i s (snd (update_pending j f now db))"
  using assms by (auto simp: leased_def update_pending_def Let_def set_update_where split: if_splits)

lemma leased_claim_outbox: "leased i s db \<Longrightarrow> leased i s (snd (claim_outbox p now db))"
  by (auto simp: leased_def claim_outbox_def Let_def set_update_where claimable_def pending_def
      dest!: least_by_Some split: option.splits if_splits)

lemma grows_leases:
  "grows (\<lambda>db. kept b db \<and> leased i s db) (insert_outbox_row h topic pl t)"
  "grows (\<lambda>db. kept b db \<and> leased i s db) (insert_outbox p m)"
  "grows (\<lambda>db. kept b db \<and> leased i s db) (claim_outbox p)"
  "grows (\<lambda>db. kept b db \<and> leased i s db)
     (update_pending j (\<lambda>now r. r\<lparr>obr_DeliveredAt := Some now, obr_LockedAt := None\<rparr>))"
  "grows (\<lambda>db. kept b db \<and> leased i s db) (update_pending j (\<lambda>now r. r\<lparr>obr_LockedAt := None, obr_FailedAt := Some now,
     obr_FailureReason := Some reason\<rparr>))"
  "j \<noteq> i \<Longrightarrow> grows (\<lambda>db. kept b db \<and> leased i s db)
     (update_pending j (\<lambda>now r. r\<lparr>obr_LockedAt := None, obr_AvailableAt := next_at\<rparr>))"
  "j \<noteq> i \<Longrightarrow> grows (\<lambda>db. kept b db \<and> leased i s db) (reschedule_outbox p q j n t x)"
  by (rule grows_leased; (rule grows_statements grows_closing_updates)?;
      (auto simp: insert_outbox_def reschedule_outbox_def pending_def
        intro!: leased_insert_outbox_row leased_claim_outbox leased_update_pending split: sum.split)?)+

lemma grows_leased_others:
  "grows (\<lambda>db. kept b db \<and> leased i s db) (insert_audit p a)"
  "grows (\<lambda>db. kept b db \<and> leased i s db) (insert_audit_row h act ot oid ac pl rid)"
  "grows (\<lambda>db. kept b db \<and> leased i s db) (update_device_state j ds ds' v)"
  "grows (\<lambda>db. kept b db \<and> leased i s db)
     (update_run j (\<lambda>r. r\<lparr>rr_State := state, rr_ErrorText := text, rr_FinishedAt := at_time\<rparr>))"
  by (rule grows_leased; (rule grows_statements grows_run_updates)?; (erule leased_same [rotated]; simp add: statement_outbox)?)+

lemmas lease_intros = lease.steady_WithTx lease.steady_and_then lease.steady_map_err lease.steady_for_each
  lease.steady_stmt lease.steady_if lease.steady_ret lease.steady_fail lease.steady_query steady_case_prod
  grows_leases grows_leased_others

text \<open>The calls that give message \<open>i\<close> back before its lease is over.\<close>

fun gives_back :: "int \<Rightarrow> repo_call \<Rightarrow> bool" where
  "gives_back i (Call_MarkOutbox j delivered next_at) \<longleftrightarrow> j = i \<and> \<not> delivered"
| "gives_back i (Call_RescheduleOutbox j attempt next_at x) \<longleftrightarrow> j = i"
| "gives_back i _ \<longleftrightarrow> False"

lemma leased_call:
  assumes "kept b (wdb w) \<and> leased i s (wdb w)" "\<not> gives_back i c"
  shows "kept b (wdb (snd (run_call e c w))) \<and> leased i s (wdb (snd (run_call e c w)))"
proof (cases "writes_outbox c")
  case False
  have k: "kept b (wdb (snd (run_call e c w)))" using steadyD [OF steady_run_call] assms(1) by blast
  moreover have "i \<le> seqs (wdb (snd (run_call e c w))) TOutbox"
    using steady_seqs [OF steady_run_call, of b w TOutbox e c] assms(1) by (auto simp: leased_def)
  ultimately show ?thesis
    using leased_same [OF leavesD [OF outbox_frame [OF False]]] assms(1) by blast
next
  case True
  have "steady (\<lambda>db. kept b db \<and> leased i s db) (run_call e c)"
    using True assms(2)
    by (cases c)
      (simp_all, unfold discard_def AddOutbox_def ClaimOutbox_def MarkOutbox_def MarkOutboxFailed_def RescheduleOutbox_def
        TransitionWithAudit_def AuditAndMessage_def AppendAuditAndOutbox_def AddAudit_def ExecuteAutomationRun_def
        enqueue_action_def driver_call_def query_def [symmetric],
        (intro lease_intros; simp)+)
  from steadyD [OF this, of w] assms(1) show ?thesis by blast
qed

lemma leased_calls:
  assumes "kept b (wdb w) \<and> leased i s (wdb w)" "\<forall>(c, t, fs)\<in>set cs. \<not> gives_back i c"
  shows "leased i s (wdb (run_calls e cs w))"
  using assms
proof (induction cs arbitrary: w)
  case Nil
  then show ?case by simp
next
  case (Cons x cs)
  obtain c t fs where x: "x = (c, t, fs)" by (cases x)
  have "kept b (wdb (w\<lparr>wnow := t, wfaults := fs\<rparr>)) \<and> leased i s (wdb (w\<lparr>wnow := t, wfaults := fs\<rparr>))"
    using Cons.prems(1) by simp
  from leased_call [OF this, of c e] Cons x show ?case by simp
qed

text \<open>C17. A worker that has claimed a message holds it alone for five minutes: whatever calls are made then, by
  whomever, at whatever times and with whatever failures of the driver, no claim gets the message within the
  lease, unless one of them gave it back by rescheduling it or marking it as not delivered.\<close>

theorem leases_disjoint:
  assumes ok: "schema_ok (wdb w)" and claim: "ClaimOutbox p w = (Inr m, w1)"
    and others: "\<forall>(c, t, fs)\<in>set cs. \<not> gives_back (out_ID m) c"
    and again: "ClaimOutbox q ((run_calls e cs w1)\<lparr>wnow := t, wfaults := fs\<rparr>) = (Inr m', w')"
    and soon: "t \<le> wnow w + 5 * minute"
  shows "out_ID m' \<noteq> out_ID m"
proof -
  from claim obtain c where c: "c \<in> set (db_outbox (wdb w))" "out_ID m = obr_ID c"
      and w1: "wdb w1 = (wdb w)\<lparr>db_outbox := update_where (\<lambda>r. obr_ID r = obr_ID c)
        (\<lambda>r. r\<lparr>obr_LockedAt := Some (wnow w), obr_Attempts := obr_Attempts r + 1\<rparr>) (db_outbox (wdb w))\<rparr>"
    by (rule ClaimOutbox_Inr)
  have "kept (wdb w) (wdb w1)"
    using steadyD [OF steady_run_call, of "wdb w" w undefined Call_ClaimOutbox] keptI [OF ok] claim
      steadyD [OF history.steady_stmt [OF grows_claim_outbox], of "wdb w" w p] by (simp add: ClaimOutbox_def)
  moreover have "obr_ID c \<le> seqs (wdb w) TOutbox"
    using schema_keyed(7) [OF ok] c(1) by (auto simp: keyed_def)
  then have "leased (out_ID m) (wnow w) (wdb w1)"
    by (auto simp: leased_def w1 c(2) set_update_where)
  ultimately have held: "leased (out_ID m) (wnow w) (wdb (run_calls e cs w1))"
    using leased_calls [OF _ others] by blast
  from again obtain d where "d \<in> set (db_outbox (wdb (run_calls e cs w1)))" "claimable t d" "out_ID m' = obr_ID d"
    by (rule ClaimOutbox_Inr) simp
  with held soon show ?thesis by (fastforce simp: leased_def claimable_def)
qed

lemma enqueue_all_run:
  "wfaults w = [] \<Longrightarrow> h \<in> household_ids (wdb w) \<Longrightarrow>
     \<forall>x\<in>set xs. la_household x = h \<and> la_state x = DeviceEnabled \<Longrightarrow>
     \<exists>w'. for_each (enqueue_action h a i t) xs w = (Inr (), w') \<and> wfaults w' = [] \<and>
       household_ids (wdb w') = household_ids (wdb w) \<and> db_runs (wdb w') = db_runs (wdb w)"
proof (induction xs arbitrary: w)
  case Nil
  then show ?case by simp
next
  case (Cons x xs)
  from Cons.prems obtain w1 where "enqueue_action h a i t x w = (Inr (), w1)" "wfaults w1 = []"
      "household_ids (wdb w1) = household_ids (wdb w)" "db_runs (wdb w1) = db_runs (wdb w)"
    by (auto simp: enqueue_action_def map_err_def stmt_run insert_outbox_row_def insert_row_def Let_def
      household_ids_def)
  moreover from this Cons.prems obtain w2 where "for_each (enqueue_action h a i t) xs w1 = (Inr (), w2)"
      "wfaults w2 = []" "household_ids (wdb w2) = household_ids (wdb w1)" "db_runs (wdb w2) = db_runs (wdb w1)"
    using Cons.IH [of w1] by auto
  ultimately show ?case by (auto simp: and_then_def)
qed

text \<open>The household of a loaded run exists, and its automation's devices belong to it.\<close>

lemma load_run_household:
  assumes "schema_ok db" and "load_run i db = Inr (a, h)"
  shows "h \<in> household_ids db" and "(a, h) \<in> automation_owners db"
    and "\<exists>r\<in>set (db_runs db). running i r"
proof -
  from assms(2) obtain r x where r: "r \<in> set (db_runs db)" "running i r"
      and x: "x \<in> set (db_automations db)" "aut_ID x = a" "aut_HouseholdID x = h"
    by (auto simp: load_run_def map_sum_Inr dest!: one_row_Inr split: sum.splits)
  from x assms(1) show "h \<in> household_ids db"
    by (auto simp: schema_ok_def automations_ok_def)
  from x show "(a, h) \<in> automation_owners db"
    by (force simp: automation_owners_def)
  from r show "\<exists>r\<in>set (db_runs db). running i r" by blast
qed

lemma load_actions_household:
  assumes ok: "schema_ok db" and own: "(a, h) \<in> automation_owners db"
    and "load_actions a db = Inr xs" and "x \<in> set xs"
  shows "la_household x = h"
proof -
  from assms(3,4) obtain ac d where ac: "ac \<in> set (db_actions db)" "act_AutomationID ac = a"
      and d: "d \<in> set (db_devices db)" "dev_ID d = act_DeviceID ac" "la_household x = dev_HouseholdID d"
    by (auto simp: load_actions_def)
  from ok ac obtain h' where h': "(a, h') \<in> automation_owners db" "(act_DeviceID ac, h') \<in> device_owners db"
    by (auto simp: schema_ok_def actions_ok_def)
  from own h'(1) keyed_inj [OF schema_keyed(4) [OF ok]] have "h' = h"
    by (auto simp: automation_owners_def)
  moreover have "dev_HouseholdID d = h'"
  proof -
    from h'(2) obtain d' where d': "d' \<in> set (db_devices db)" "dev_ID d' = act_DeviceID ac" "dev_HouseholdID d' = h'"
      by (auto simp: device_owners_def)
    with keyed_inj [OF schema_keyed(2) [OF ok] d(1) d'(1)] d(2) show ?thesis by simp
  qed
  ultimately show ?thesis using d(3) by simp
qed

lemma ExecuteAutomationRun_runs:
  assumes ok: "schema_ok (wdb w)" and f: "wfaults w = []" and i: "0 < i" "t \<noteq> 0"
    and run: "load_run i (wdb w) = Inr (a, h)" and acts: "load_actions a (wdb w) = Inr xs" "xs \<noteq> []"
    and enabled: "\<forall>x\<in>set xs. la_state x = DeviceEnabled"
  shows "fst (ExecuteAutomationRun i t w) = Inr ()"
proof -
  note hh = load_run_household [OF ok run]
  have "\<forall>x\<in>set xs. la_household x = h \<and> la_state x = DeviceEnabled"
    using load_actions_household [OF ok hh(2) acts(1)] enabled by blast
  from enqueue_all_run [OF f hh(1) this] obtain w1 where
    loop: "for_each (enqueue_action h a i t) xs w = (Inr (), w1)" and w1: "wfaults w1 = []"
    and h1: "household_ids (wdb w1) = household_ids (wdb w)" and r1: "db_runs (wdb w1) = db_runs (wdb w)"
    by blast
  have ex: "list_ex (running i) (db_runs (wdb w))" using hh(3) by (auto simp: list_ex_iff)
  have cnt: "count_where (running i) (db_runs (wdb w)) = 1"
    using count_where_key [of rr_ID "db_runs (wdb w)" "running i" i] schema_keyed(5) [OF ok] ex
    by (auto simp: keyed_def running_def)
  define w2 where "w2 = snd (stmt (insert_audit_row h None (run_request_id i) ''automation_run''
      (show_int i) ''dispatched'' (JObj [(''action_count'', JNum (of_nat (length xs)))])) w1)"
  have audit: "stmt (insert_audit_row h None (run_request_id i) ''automation_run''
      (show_int i) ''dispatched'' (JObj [(''action_count'', JNum (of_nat (length xs)))])) w1 = (Inr (), w2)"
      and w2: "wfaults w2 = []" "db_runs (wdb w2) = db_runs (wdb w)"
    using w1 h1 r1 hh(1)
    by (auto simp: w2_def stmt_run insert_audit_row_def insert_row_def Let_def household_ids_def)
  let ?f = "\<lambda>r. r\<lparr>rr_State := RunSucceeded, rr_ErrorText := None, rr_FinishedAt := Some t\<rparr>"
  obtain w3 where fin: "stmt (update_run i ?f) w2 = (Inr 1, w3)" "wfaults w3 = []"
    using w2 cnt by (simp add: stmt_run update_run_def)
  have q: "query (load_run i) w = (Inr (a, h), w)" "query (load_actions a) w = (Inr xs, w)"
    using f run acts(1) by (simp_all add: query_def stmt_run)
  have d: "driver_call w = (Inr (), w)" by (rule driver_call_run [OF f])
  have "ExecuteAutomationRun i t w = (Inr (), w3)"
    using i unfolding ExecuteAutomationRun_def
    by simp (rule WithTx_run [OF f _ fin(2)],
      simp add: and_then_def map_err_def q d loop audit fin acts(2) split del: if_split)
  then show ?thesis by simp
qed

text \<open>C13. When the driver does not fail, an execution succeeds exactly when the arguments are valid, the
  run is running and its automation has actions whose devices are all enabled (that they belong to
  the automation's household is an invariant).\<close>

theorem run_executes_iff:
  assumes ok: "schema_ok (wdb w)" and f: "wfaults w = []"
  shows "fst (ExecuteAutomationRun i t w) = Inr () \<longleftrightarrow>
    0 < i \<and> t \<noteq> 0 \<and> (\<exists>a h xs. load_run i (wdb w) = Inr (a, h) \<and> load_actions a (wdb w) = Inr xs \<and> xs \<noteq> [] \<and>
      (\<forall>x\<in>set xs. la_state x = DeviceEnabled))"
proof
  assume "fst (ExecuteAutomationRun i t w) = Inr ()"
  then obtain w' where w': "ExecuteAutomationRun i t w = (Inr (), w')"
    by (cases "ExecuteAutomationRun i t w") auto
  from w' have "0 < i \<and> t \<noteq> 0" by (auto simp: ExecuteAutomationRun_def split: if_splits)
  with ExecuteAutomationRun_Inr [OF w'] show "0 < i \<and> t \<noteq> 0 \<and> (\<exists>a h xs. load_run i (wdb w) = Inr (a, h) \<and>
      load_actions a (wdb w) = Inr xs \<and> xs \<noteq> [] \<and> (\<forall>x\<in>set xs. la_state x = DeviceEnabled))"
    unfolding executed_def by blast
next
  assume "0 < i \<and> t \<noteq> 0 \<and> (\<exists>a h xs. load_run i (wdb w) = Inr (a, h) \<and> load_actions a (wdb w) = Inr xs \<and>
    xs \<noteq> [] \<and> (\<forall>x\<in>set xs. la_state x = DeviceEnabled))"
  then show "fst (ExecuteAutomationRun i t w) = Inr ()"
    using ExecuteAutomationRun_runs [OF ok f] by blast
qed

text \<open>C2. An execution dispatches a run completely or not at all: on success every action has its one
  pending command in order, the dispatch is audited and the run has succeeded; on any error no table
  has changed.\<close>

theorem run_all_or_nothing:
  "case ExecuteAutomationRun i t w of
     (Inr _, w') \<Rightarrow> executed i t (wdb w) (wdb w')
   | (Inl _, w') \<Rightarrow> same_tables (wdb w) (wdb w')"
  using ExecuteAutomationRun_Inr [of i t w] WithTx_Inl
  by (cases "ExecuteAutomationRun i t w")
    (auto simp: ExecuteAutomationRun_def split: sum.splits if_splits)

section \<open>The database\<close>

text \<open>C1. Every world the program reaches from the empty database satisfies the schema: keys,
  references and checks hold, and the devices of a plan or an automation are of its household, which
  no constraint of the database enforces.\<close>

theorem reachable_schema_ok: "reachable e w \<Longrightarrow> schema_ok (wdb w)"
proof (induction rule: reachable.induct)
  case (start t)
  show ?case by (simp add: schema_ok_empty)
next
  case (call w t c fs)
  then show ?case by (intro schema_ok_call) simp
qed

text \<open>C11. A call that returns an error has left every table as it was; at most sequence values are
  used up.\<close>

theorem failed_call_changes_no_table:
  assumes "schema_ok (wdb w)" and "run_call e c w = (Inl x, w')"
  shows "same_tables (wdb w) (wdb w')"
  using atomic_run_call assms by (rule atomicD)

section \<open>Witnesses\<close>

text \<open>Each property with a hypothesis, applied to the sample world.\<close>

lemmas sample_defs = sample_db_def empty_db_def

lemma sample_transition:
  "fst (TransitionDevice 1 DeviceEnabled DeviceDisabled 3 sample) = Inr ()"
  by (simp add: TransitionDevice_def and_then_def map_err_def stmt_run update_device_state_def
    sample_defs max_i64_def count_where_def)

lemma one_transition_per_version_witness:
  "schema_ok (wdb sample) \<and>
   fst (TransitionDevice 1 DeviceEnabled DeviceRetired 3
     (run_calls sample_env [(Call_TouchDevice 1 5, 6, [])]
       (snd (TransitionDevice 1 DeviceEnabled DeviceDisabled 3 sample)))) \<noteq> Inr ()"
  using one_transition_per_version [OF _ outcome_pair [OF sample_transition]] sample_ok
  by (simp del: run_calls.simps)

lemma sample_queue: "fst (QueueRun 1 ''k'' sample) = Inr (scan_run (hd (db_runs sample_db)))"
  by (simp add: QueueRun_def map_err_def stmt_run upsert_run_def sample_defs one_row_def)

lemma sample_queue_again:
  "fst (QueueRun 1 ''k'' (run_calls sample_env [(Call_TouchDevice 1 5, 6, [])] (snd (QueueRun 1 ''k'' sample)))) =
     Inr (scan_run (hd (db_runs sample_db)))"
  by (simp add: QueueRun_def map_err_def stmt_run upsert_run_def sample_defs one_row_def bump_def
    TouchDevice_def and_then_def update_device_seen_def count_where_def update_where_def)

lemma QueueRun_idempotent_witness:
  "db_runs (wdb (snd (QueueRun 1 ''k'' (run_calls sample_env [(Call_TouchDevice 1 5, 6, [])]
       (snd (QueueRun 1 ''k'' sample)))))) =
   db_runs (wdb (run_calls sample_env [(Call_TouchDevice 1 5, 6, [])] (snd (QueueRun 1 ''k'' sample))))"
  using QueueRun_idempotent [OF _ outcome_pair [OF sample_queue] outcome_pair [OF sample_queue_again]]
    sample_ok by simp

lemma sample_load: "load_run 1 sample_db = Inr (1, 1)"
  "load_actions 1 sample_db = Inr [\<lparr>la_deviceID = 1, la_action = ''off'', la_ordinal = 0,
     la_household = 1, la_state = DeviceEnabled\<rparr>]"
  by (simp_all add: load_run_def load_actions_def sample_defs one_row_def running_def)

lemma sample_execute: "fst (ExecuteAutomationRun 1 5 sample) = Inr ()"
  by (rule ExecuteAutomationRun_runs) (auto simp: sample_ok sample_load)

lemma run_executes_iff_witness:
  "schema_ok (wdb sample) \<and> wfaults sample = [] \<and> fst (ExecuteAutomationRun 1 5 sample) = Inr () \<and>
   fst (ExecuteAutomationRun 2 5 sample) \<noteq> Inr ()"
  using run_executes_iff [of sample 1 5] run_executes_iff [of sample 2 5] sample_ok sample_load
  by (auto simp: load_run_def sample_defs one_row_def running_def)

lemma run_dispatched_once_witness:
  "schema_ok (wdb sample) \<and> fst (ExecuteAutomationRun 1 7
     (run_calls sample_env [(Call_RequeueRun 1, 6, []), (Call_ClaimRun, 6, [])]
       (snd (ExecuteAutomationRun 1 5 sample)))) \<noteq> Inr ()"
  using run_dispatched_once [OF _ outcome_pair [OF sample_execute]] sample_ok
  by (simp del: run_calls.simps)

lemma sample_claim:
  "fst (ClaimOutbox (env_pg sample_env) sample) = Inr \<lparr>out_ID = 1, out_HouseholdID = 1, out_Topic = ''t'',
     out_Payload = ''{}'', out_Attempts = 1, out_AvailableAt = 1, out_LockedAt = Some 3,
     out_DeliveredAt = None, out_FailedAt = None, out_FailureReason = None\<rparr>"
  by (simp add: ClaimOutbox_def stmt_run claim_outbox_def sample_defs least_by_def claimable_def
    pending_def scan_outbox_def sample_env_def)

text \<open>Another worker claims a minute later: it gets a message that was added meanwhile.\<close>

definition added_meanwhile :: "(repo_call \<times> time \<times> err option list) list" where
  "added_meanwhile = [(Call_MarkOutboxFailed 9 ''x'', 4, []), (Call_AddOutbox \<lparr>out_ID = 0, out_HouseholdID = 1,
     out_Topic = ''t'', out_Payload = ''{}'', out_Attempts = 0, out_AvailableAt = 1, out_LockedAt = None,
     out_DeliveredAt = None, out_FailedAt = None, out_FailureReason = None\<rparr>, 5, [])]"

lemma leases_disjoint_witness:
  "\<exists>m w1 m' w'. ClaimOutbox (env_pg sample_env) sample = (Inr m, w1) \<and>
     ClaimOutbox (env_pg sample_env) ((run_calls sample_env added_meanwhile w1)\<lparr>wnow := minute, wfaults := []\<rparr>) = (Inr m', w') \<and>
     out_ID m' \<noteq> out_ID m"
proof -
  let ?c = "ClaimOutbox (env_pg sample_env) sample"
  let ?d = "ClaimOutbox (env_pg sample_env) ((run_calls sample_env added_meanwhile (snd ?c))\<lparr>wnow := minute, wfaults := []\<rparr>)"
  have "map_sum id out_ID (fst ?c) = Inr 1" "map_sum id out_ID (fst ?d) = Inr 3" by code_simp+
  then obtain m m' where c: "?c = (Inr m, snd ?c)" and d: "?d = (Inr m', snd ?d)" "out_ID m = 1"
    by (cases "fst ?c"; cases "fst ?d") (auto simp: prod_eq_iff)
  have "schema_ok (wdb sample)" "\<forall>(x, t, fs)\<in>set added_meanwhile. \<not> gives_back (out_ID m) x" "minute \<le> wnow sample + 5 * minute"
    using sample_ok by (simp_all add: added_meanwhile_def)
  from leases_disjoint [OF this(1) c this(2) d(1) this(3)] have "out_ID m' \<noteq> out_ID m" .
  with c d(1) show ?thesis by blast
qed

lemma reachable_schema_ok_witness:
  "schema_ok (wdb (snd (run_call sample_env (Call_CreateHousehold ''Home'' ''UTC'' 100)
     (\<lparr>wdb = empty_db, wnow = 0, wfaults = []\<rparr>\<lparr>wnow := 1, wfaults := []\<rparr>))))"
  by (rule reachable_schema_ok [OF reachable.call [OF reachable.start]]) simp

lemma failed_call_changes_no_table_witness:
  "\<exists>x w'. run_call sample_env (Call_MarkOutbox 2 True 9) sample = (Inl x, w') \<and>
     same_tables (wdb sample) (wdb w')"
proof -
  have "fst (run_call sample_env (Call_MarkOutbox 2 True 9) sample) = Inl ErrConflict"
    by (simp add: MarkOutbox_def and_then_def stmt_run update_pending_def count_where_def pending_def sample_defs)
  then obtain w' where w': "run_call sample_env (Call_MarkOutbox 2 True 9) sample = (Inl ErrConflict, w')"
    by (cases "run_call sample_env (Call_MarkOutbox 2 True 9) sample") auto
  from failed_call_changes_no_table [OF _ this] w' sample_ok show ?thesis by auto
qed

end
