(* ===== verification/Clocks.thy ===== *)
theory Clocks
  imports Entities
begin

text \<open>
  \<^verbatim>\<open>model.Clock\<close> and the clocks of \<^verbatim>\<open>internal/service/clock.go\<close>. Reading a clock yields a
  time and may change the state that carries it.
\<close>

type_synonym 'w clock = "'w \<Rightarrow> time \<times> 'w"

definition with_now :: "'w clock \<Rightarrow> (time \<Rightarrow> ('w, 'a) action) \<Rightarrow> ('w, 'a) action" where
  "with_now clock k w = (case clock w of (t, w') \<Rightarrow> k t w')"

definition FixedClock_Now :: "time \<Rightarrow> 'w clock" where
  "FixedClock_Now v w = (v, w)"

text \<open>The index starts at 0 and only grows.\<close>

record sequence_clock =
  sqc_Values :: "time list"
  sqc_Index :: nat

definition SequenceClock_Now :: "sequence_clock clock" where
  "SequenceClock_Now c =
     (if sqc_Values c = [] then (0, c)
      else if sqc_Index c \<ge> length (sqc_Values c) then (sqc_Values c ! (length (sqc_Values c) - 1), c)
      else (sqc_Values c ! sqc_Index c, c\<lparr>sqc_Index := sqc_Index c + 1\<rparr>))"

fun clock_readings :: "nat \<Rightarrow> 'w clock \<Rightarrow> 'w \<Rightarrow> time list" where
  "clock_readings 0 clock w = []"
| "clock_readings (Suc n) clock w = (case clock w of (t, w') \<Rightarrow> t # clock_readings n clock w')"

text \<open>\<open>n\<close> readings of a sequence clock are its values in order, the last one repeated.\<close>

lemma SequenceClock_readings:
  "vs \<noteq> [] \<Longrightarrow> clock_readings n SequenceClock_Now \<lparr>sqc_Values = vs, sqc_Index = i\<rparr> =
     map (\<lambda>k. vs ! min (i + k) (length vs - 1)) [0..<n]"
proof (induction n arbitrary: i)
  case 0
  then show ?case by simp
next
  case (Suc n)
  show ?case
  proof (cases "i < length vs")
    case True
    then have "min i (length vs - 1) = i" by simp
    with True Suc show ?thesis
      by (simp add: SequenceClock_Now_def map_upt_Suc del: upt_Suc)
  next
    case False
    then have "min (i + k) (length vs - 1) = length vs - 1" for k by simp
    with False Suc show ?thesis
      by (simp add: SequenceClock_Now_def map_upt_Suc del: upt_Suc)
  qed
qed

section \<open>The errors an action may return\<close>

definition fails_with :: "(err \<Rightarrow> bool) \<Rightarrow> ('w, 'a) action \<Rightarrow> bool" where
  "fails_with P m \<longleftrightarrow> (\<forall>w e w'. m w = (Inl e, w') \<longrightarrow> P e)"

lemma fails_withD: "fails_with P m \<Longrightarrow> m w = (Inl e, w') \<Longrightarrow> P e"
  by (auto simp: fails_with_def)

lemma fails_with_ret: "fails_with P (ret x)"
  by (simp add: fails_with_def)

lemma fails_with_fail: "P e \<Longrightarrow> fails_with P (fail e)"
  by (simp add: fails_with_def)

lemma fails_with_map_err: "(\<And>e. P (g e)) \<Longrightarrow> fails_with P (map_err g m)"
  by (auto simp: fails_with_def map_err_eq_Inl)

lemma fails_with_and_then: "fails_with P m \<Longrightarrow> (\<And>x. fails_with P (k x)) \<Longrightarrow> fails_with P (and_then m k)"
  unfolding fails_with_def and_then_eq_Inl by blast

lemma fails_with_if: "(c \<Longrightarrow> fails_with P m) \<Longrightarrow> (\<not> c \<Longrightarrow> fails_with P n) \<Longrightarrow> fails_with P (if c then m else n)"
  by simp

lemma fails_with_now: "(\<And>t. fails_with P (k t)) \<Longrightarrow> fails_with P (with_now clock k)"
  by (auto simp: fails_with_def with_now_def split: prod.splits)

lemma fails_with_case_sum:
  "(\<And>e. x = Inl e \<Longrightarrow> fails_with P (f e)) \<Longrightarrow> (\<And>y. x = Inr y \<Longrightarrow> fails_with P (g y)) \<Longrightarrow>
     fails_with P (case x of Inl e \<Rightarrow> f e | Inr y \<Rightarrow> g y)"
  by (cases x) simp_all

end
