(* ===== verification/Device_Service.thy ===== *)
theory Device_Service
  imports Repo_Properties Clocks
begin

text \<open>
  \<^verbatim>\<open>internal/service/devices.go\<close>. The service holds its repository as an interface; here it
  is a record of operations on an arbitrary state, so that the same functions run on the database
  and on any other store. What the service relies on is the locale \<open>device_store\<close>, whose lemmas
  say what each operation does to the devices; the repository interprets it. The last section runs
  clients whose reads and writes interleave.
\<close>

section \<open>Operations of the store\<close>

record 'w device_repo =
  dr_CreateDevice :: "device \<Rightarrow> string list \<Rightarrow> ('w, device) action"
  dr_GetDevice :: "int \<Rightarrow> ('w, device) action"
  dr_TransitionDevice :: "int \<Rightarrow> device_state \<Rightarrow> device_state \<Rightarrow> int \<Rightarrow> ('w, unit) action"
  dr_TouchDevice :: "int \<Rightarrow> time \<Rightarrow> ('w, unit) action"

section \<open>Operations\<close>

fun validKind :: "device_kind \<Rightarrow> bool" where
  "validKind (KindOther s) = False"
| "validKind _ = True"

text \<open>The loop of \<^verbatim>\<open>Enroll\<close> over the capabilities: the normalized ones, none twice.\<close>

fun normalize_capabilities ::
    "(string \<Rightarrow> string) \<Rightarrow> string list \<Rightarrow> string list \<Rightarrow> err + string list" where
  "normalize_capabilities u normalized [] = Inr normalized"
| "normalize_capabilities u normalized (c # cs) =
     (let capability = to_lower u (trim_space c) in
      if capability = [] then Inl ErrInvalid
      else if capability \<in> set normalized
      then Inl (Wrapf [] ErrInvalid ('': duplicate capability '' @ capability))
      else normalize_capabilities u (normalized @ [capability]) cs)"

definition new_device :: "int \<Rightarrow> string \<Rightarrow> device_kind \<Rightarrow> string \<Rightarrow> device" where
  "new_device household external kind firmware =
     \<lparr>dev_ID = 0, dev_HouseholdID = household, dev_ExternalID = external, dev_Kind = kind,
      dev_State = DeviceOther [], dev_Firmware = firmware, dev_Version = 0, dev_LastSeenAt = None,
      dev_CreatedAt = 0\<rparr>"

definition Enroll ::
    "(string \<Rightarrow> string) \<Rightarrow> 'w device_repo \<Rightarrow> int \<Rightarrow> string \<Rightarrow> device_kind \<Rightarrow> string \<Rightarrow> string list \<Rightarrow> ('w, device) action" where
  "Enroll u r household external0 kind firmware0 caps =
     (let external = trim_space external0; firmware = trim_space firmware0 in
      if household \<le> 0 \<or> ValidateExternalID external \<noteq> Inr () \<or> firmware = [] \<or> \<not> validKind kind
      then fail ErrInvalid
      else case normalize_capabilities u [] caps of
        Inl e \<Rightarrow> fail e
      | Inr normalized \<Rightarrow>
          if \<not> HasCapabilities (RequiredCapabilities kind) normalized
          then fail (Wrapf [] ErrInvalid '': required device capabilities are missing'')
          else dr_CreateDevice r (new_device household external kind firmware) normalized)"

definition conflict :: "string \<Rightarrow> err" where
  "conflict s = Wrapf [] ErrConflict ('': '' @ s)"

definition Pair_write :: "'w device_repo \<Rightarrow> int \<Rightarrow> device \<Rightarrow> ('w, unit) action" where
  "Pair_write r i d =
     (if dev_State d \<noteq> DevicePending then fail (conflict ''device is not pending'')
      else dr_TransitionDevice r i DevicePending DevicePaired (dev_Version d))"

definition Enable_write :: "'w device_repo \<Rightarrow> int \<Rightarrow> device \<Rightarrow> ('w, unit) action" where
  "Enable_write r i d =
     (if dev_State d \<noteq> DevicePaired \<and> dev_State d \<noteq> DeviceDisabled
      then fail (conflict ''device cannot be enabled'')
      else dr_TransitionDevice r i (dev_State d) DeviceEnabled (dev_Version d))"

definition Disable_write :: "'w device_repo \<Rightarrow> int \<Rightarrow> device \<Rightarrow> ('w, unit) action" where
  "Disable_write r i d =
     (if dev_State d \<noteq> DeviceEnabled then fail (conflict ''device cannot be disabled'')
      else dr_TransitionDevice r i (dev_State d) DeviceDisabled (dev_Version d))"

definition Retire_write :: "'w device_repo \<Rightarrow> int \<Rightarrow> device \<Rightarrow> ('w, unit) action" where
  "Retire_write r i d =
     (if dev_State d = DeviceRetired then fail ErrConflict
      else dr_TransitionDevice r i (dev_State d) DeviceRetired (dev_Version d))"

definition Pair_device :: "'w device_repo \<Rightarrow> int \<Rightarrow> ('w, unit) action" where
  "Pair_device r i = and_then (dr_GetDevice r i) (Pair_write r i)"

definition Enable :: "'w device_repo \<Rightarrow> int \<Rightarrow> ('w, unit) action" where
  "Enable r i = and_then (dr_GetDevice r i) (Enable_write r i)"

definition Disable :: "'w device_repo \<Rightarrow> int \<Rightarrow> ('w, unit) action" where
  "Disable r i = and_then (dr_GetDevice r i) (Disable_write r i)"

definition Retire :: "'w device_repo \<Rightarrow> int \<Rightarrow> ('w, unit) action" where
  "Retire r i = and_then (dr_GetDevice r i) (Retire_write r i)"

definition Touch :: "'w device_repo \<Rightarrow> 'w clock \<Rightarrow> int \<Rightarrow> ('w, unit) action" where
  "Touch r clock i =
     and_then (dr_GetDevice r i) (\<lambda>d.
     with_now clock (\<lambda>now.
     if now < dev_CreatedAt d then fail ErrInvalid else dr_TouchDevice r i now))"

definition DeviceFresh :: "device \<Rightarrow> time \<Rightarrow> duration \<Rightarrow> bool" where
  "DeviceFresh d now ttl \<longleftrightarrow>
     ttl > 0 \<and> (case dev_LastSeenAt d of None \<Rightarrow> False
       | Some t \<Rightarrow> \<not> t > now \<and> time_sub now t \<le> ttl)"

section \<open>What the service needs of its store\<close>

text \<open>
  A store of devices: \<open>view w i\<close> is the device with id \<open>i\<close> in state \<open>w\<close>, and \<open>inv\<close> holds in
  the states of the store. A failed write changes no device, and a successful transition found
  the expected state and version.
\<close>

locale device_store =
  fixes r :: "'w device_repo"
    and inv :: "'w \<Rightarrow> bool"
    and view :: "'w \<Rightarrow> int \<Rightarrow> device option"
  assumes known_states: "inv w \<Longrightarrow> view w i = Some d \<Longrightarrow> dev_State d \<noteq> DeviceOther s"
    and get_state: "inv w \<Longrightarrow> inv (snd (dr_GetDevice r i w)) \<and> view (snd (dr_GetDevice r i w)) = view w"
    and get_Inr: "inv w \<Longrightarrow> dr_GetDevice r i w = (Inr d, w') \<Longrightarrow> view w i = Some d"
    and transition_inv: "inv w \<Longrightarrow> inv (snd (dr_TransitionDevice r i from to v w))"
    and transition_Inl: "inv w \<Longrightarrow> dr_TransitionDevice r i from to v w = (Inl e, w') \<Longrightarrow> view w' = view w"
    and transition_Inr: "inv w \<Longrightarrow> dr_TransitionDevice r i from to v w = (Inr u, w') \<Longrightarrow>
      \<exists>d. view w i = Some d \<and> dev_State d = from \<and> dev_Version d = v \<and>
        view w' = (view w)(i \<mapsto> d\<lparr>dev_State := to, dev_Version := v + 1\<rparr>)"
begin

text \<open>One step along the lifecycle, or nothing.\<close>

definition step :: "int \<Rightarrow> 'w \<Rightarrow> 'w \<Rightarrow> bool" where
  "step i w w' \<longleftrightarrow> (\<exists>d to. view w i = Some d \<and> allowed_transition (dev_State d) to \<and>
     view w' = (view w)(i \<mapsto> d\<lparr>dev_State := to, dev_Version := dev_Version d + 1\<rparr>))"

definition moves :: "int \<Rightarrow> 'w \<Rightarrow> (err + 'a) \<times> 'w \<Rightarrow> bool" where
  "moves i w x \<longleftrightarrow> (case x of (Inl e, w') \<Rightarrow> view w' = view w | (Inr _, w') \<Rightarrow> step i w w')"

lemma moves_fail [simp]: "moves i w (Inl e, w)"
  by (simp add: moves_def)

lemma transition_moves:
  assumes "inv w" and "allowed_transition from to"
  shows "moves i w (dr_TransitionDevice r i from to v w)"
proof (cases "dr_TransitionDevice r i from to v w")
  case (Pair x w')
  then show ?thesis
    using transition_Inl [OF assms(1), of i "from" to v] transition_Inr [OF assms(1), of i "from" to v] assms(2)
    by (cases x) (auto simp: step_def moves_def)
qed

text \<open>
  The writing halves of the operations, with the device read earlier, possibly from a state the
  store has left since.
\<close>

lemma write_moves:
  assumes "inv w" and "\<And>s. dev_State d \<noteq> DeviceOther s"
  shows "moves i w (Pair_write r i d w)" and "moves i w (Enable_write r i d w)"
    and "moves i w (Disable_write r i d w)" and "moves i w (Retire_write r i d w)"
  using assms
  by (cases "dev_State d"; simp add: Pair_write_def Enable_write_def Disable_write_def Retire_write_def
    transition_moves)+

lemma write_inv:
  assumes "inv w"
  shows "inv (snd (Pair_write r i d w))" and "inv (snd (Enable_write r i d w))"
    and "inv (snd (Disable_write r i d w))" and "inv (snd (Retire_write r i d w))"
  using assms transition_inv
  by (simp_all add: Pair_write_def Enable_write_def Disable_write_def Retire_write_def)

lemma read_write:
  assumes w: "inv w" and m: "\<And>d w. inv w \<Longrightarrow> (\<And>s. dev_State d \<noteq> DeviceOther s) \<Longrightarrow> moves i w (f d w)"
  shows "moves i w (and_then (dr_GetDevice r i) f w)"
proof (cases "dr_GetDevice r i w")
  case (Pair x w1)
  have w1: "inv w1" "view w1 = view w" using get_state [OF w, of i] Pair by simp_all
  show ?thesis
  proof (cases x)
    case (Inl e)
    with Pair w1 show ?thesis by (simp add: and_then_def moves_def)
  next
    case (Inr d)
    with get_Inr [OF w] Pair have "view w i = Some d" by simp
    from m [OF w1(1) known_states [OF w this]] Pair Inr w1(2) show ?thesis
      by (auto simp: and_then_def moves_def step_def split: prod.splits sum.splits)
  qed
qed

lemma operation_moves:
  assumes "inv w"
  shows "moves i w (Pair_device r i w)" and "moves i w (Enable r i w)"
    and "moves i w (Disable r i w)" and "moves i w (Retire r i w)"
  unfolding Pair_device_def Enable_def Disable_def Retire_def
  using assms write_moves by (auto intro!: read_write)

end

section \<open>The service on the database\<close>

definition repo_devices :: "world device_repo" where
  "repo_devices = \<lparr>dr_CreateDevice = CreateDevice, dr_GetDevice = GetDevice,
     dr_TransitionDevice = TransitionDevice, dr_TouchDevice = TouchDevice\<rparr>"

definition device_view :: "world \<Rightarrow> int \<Rightarrow> device option" where
  "device_view w i = (case one_row (\<lambda>d. dev_ID d = i) (db_devices (wdb w)) of Inl _ \<Rightarrow> None | Inr d \<Rightarrow> Some d)"

lemma device_view_Some: "device_view w i = Some d \<longleftrightarrow> one_row (\<lambda>d. dev_ID d = i) (db_devices (wdb w)) = Inr d"
  by (simp add: device_view_def split: sum.split)

lemma device_view_cong: "db_devices (wdb w) = db_devices (wdb w') \<Longrightarrow> device_view w = device_view w'"
  by (simp add: device_view_def fun_eq_iff)

lemma wdb_GetDevice [simp]: "wdb (snd (GetDevice i w)) = wdb w"
  by (simp add: GetDevice_def)

lemma GetDevice_Inr: "GetDevice i w = (Inr d, w') \<Longrightarrow> device_view w i = Some d"
  by (auto simp: GetDevice_def device_view_Some dest: query_Inr)

lemma TransitionDevice_view:
  assumes "TransitionDevice i from to v w = (Inr (), w')" and "schema_ok (wdb w)"
  shows "\<exists>d. device_view w i = Some d \<and> dev_State d = from \<and> dev_Version d = v \<and>
    device_view w' = (device_view w)(i \<mapsto> d\<lparr>dev_State := to, dev_Version := v + 1\<rparr>)"
proof -
  let ?p = "\<lambda>d. dev_ID d = i \<and> dev_State d = from \<and> dev_Version d = v"
  let ?f = "\<lambda>d. d\<lparr>dev_State := to, dev_Version := dev_Version d + 1\<rparr>"
  from assms(1) obtain d where d: "d \<in> set (db_devices (wdb w))" "dev_ID d = i" "dev_State d = from"
      "dev_Version d = v" and w': "wdb w' = (wdb w)\<lparr>db_devices := update_where ?p ?f (db_devices (wdb w))\<rparr>"
    by (rule TransitionDevice_Inr)
  have row: "one_row (\<lambda>d. dev_ID d = i) (db_devices (wdb w)) = Inr d"
    by (rule one_row_key [where key = dev_ID])
      (use d schema_keyed(2) [OF assms(2)] in \<open>simp_all add: keyed_def\<close>)
  have other: "one_row (\<lambda>r. dev_ID r = j) (update_where ?p ?f (db_devices (wdb w)))
      = one_row (\<lambda>r. dev_ID r = j) (db_devices (wdb w))" if "j \<noteq> i" for j
    by (rule one_row_update_other) (use that in auto)
  have "device_view w' j = ((device_view w)(i \<mapsto> ?f d)) j" for j
  proof (cases "j = i")
    case True
    with row d show ?thesis by (simp add: device_view_def w' one_row_update)
  next
    case False
    with other [of j] show ?thesis by (simp add: device_view_def w')
  qed
  with row d show ?thesis by (auto simp: device_view_Some)
qed

interpretation repo_store: device_store repo_devices "\<lambda>w. schema_ok (wdb w)" device_view
proof
  fix w :: world and i d s
  assume "schema_ok (wdb w)" "device_view w i = Some d"
  then show "dev_State d \<noteq> DeviceOther s"
    by (auto simp: device_view_Some schema_ok_def devices_ok_def device_row_ok_def dest!: one_row_Inr)
next
  fix w :: world and i
  assume "schema_ok (wdb w)"
  then show "schema_ok (wdb (snd (dr_GetDevice repo_devices i w))) \<and>
      device_view (snd (dr_GetDevice repo_devices i w)) = device_view w"
    by (auto simp: repo_devices_def intro!: device_view_cong)
next
  fix w w' :: world and i d
  assume "dr_GetDevice repo_devices i w = (Inr d, w')"
  then show "device_view w i = Some d" by (simp add: repo_devices_def GetDevice_Inr)
next
  fix w :: world and i "from" to v
  assume "schema_ok (wdb w)"
  from schema_ok_call [OF this, of undefined "Call_TransitionDevice i from to v"]
  show "schema_ok (wdb (snd (dr_TransitionDevice repo_devices i from to v w)))"
    by (simp add: repo_devices_def)
next
  fix w w' :: world and i "from" to v e
  assume "schema_ok (wdb w)" "dr_TransitionDevice repo_devices i from to v w = (Inl e, w')"
  then have "same_tables (wdb w) (wdb w')"
    using atomicD [OF atomic_run_call, of w undefined "Call_TransitionDevice i from to v" e w']
    by (simp add: repo_devices_def)
  then show "device_view w' = device_view w"
    by (intro device_view_cong same_tablesD(4))
next
  fix w w' :: world and i "from" to v and u :: unit
  assume "schema_ok (wdb w)" "dr_TransitionDevice repo_devices i from to v w = (Inr u, w')"
  then show "\<exists>d. device_view w i = Some d \<and> dev_State d = from \<and> dev_Version d = v \<and>
      device_view w' = (device_view w)(i \<mapsto> d\<lparr>dev_State := to, dev_Version := v + 1\<rparr>)"
    by (intro TransitionDevice_view) (simp_all add: repo_devices_def)
qed

section \<open>Outcomes of the operations\<close>

datatype device_op = OpPair | OpEnable | OpDisable | OpRetire

fun operation :: "device_op \<Rightarrow> 'w device_repo \<Rightarrow> int \<Rightarrow> ('w, unit) action" where
  "operation OpPair r i = Pair_device r i"
| "operation OpEnable r i = Enable r i"
| "operation OpDisable r i = Disable r i"
| "operation OpRetire r i = Retire r i"

fun write_half :: "device_op \<Rightarrow> 'w device_repo \<Rightarrow> int \<Rightarrow> device \<Rightarrow> ('w, unit) action" where
  "write_half OpPair r i d = Pair_write r i d"
| "write_half OpEnable r i d = Enable_write r i d"
| "write_half OpDisable r i d = Disable_write r i d"
| "write_half OpRetire r i d = Retire_write r i d"

text \<open>The transitions each operation performs.\<close>

definition transitions :: "device_op \<Rightarrow> (device_state \<times> device_state) set" where
  "transitions p = (case p of
     OpPair \<Rightarrow> {(DevicePending, DevicePaired)}
   | OpEnable \<Rightarrow> {(DevicePaired, DeviceEnabled), (DeviceDisabled, DeviceEnabled)}
   | OpDisable \<Rightarrow> {(DeviceEnabled, DeviceDisabled)}
   | OpRetire \<Rightarrow> {DevicePending, DevicePaired, DeviceEnabled, DeviceDisabled} \<times> {DeviceRetired})"

lemma operation_write: "operation p r i = and_then (dr_GetDevice r i) (write_half p r i)"
  by (cases p) (simp_all add: Pair_device_def Enable_def Disable_def Retire_def fun_eq_iff and_then_def
    split: prod.split sum.split)

lemma write_half_eq:
  assumes "\<forall>s. dev_State d \<noteq> DeviceOther s"
  shows "write_half p r i d = (if \<exists>to. (dev_State d, to) \<in> transitions p
    then dr_TransitionDevice r i (dev_State d) (THE to. (dev_State d, to) \<in> transitions p) (dev_Version d)
    else fail (if p = OpRetire then ErrConflict else
      conflict (case p of OpPair \<Rightarrow> ''device is not pending'' | OpEnable \<Rightarrow> ''device cannot be enabled''
        | _ \<Rightarrow> ''device cannot be disabled'')))"
  using assms
  by (cases p; cases "dev_State d")
    (simp_all add: Pair_write_def Enable_write_def Disable_write_def Retire_write_def transitions_def)

lemma TransitionDevice_run:
  assumes ok: "schema_ok (wdb w)" and f: "wfaults w = []" and d: "device_view w i = Some d"
    and known: "\<And>s. to \<noteq> DeviceOther s"
  shows "fst (TransitionDevice i (dev_State d) to (dev_Version d) w) =
    (if dev_Version d < max_i64 then Inr () else Inl (pg_out_of_range ''bigint''))"
proof -
  from d have dm: "d \<in> set (db_devices (wdb w))" "dev_ID d = i"
    by (auto simp: device_view_Some dest: one_row_Inr)
  then have hit: "list_ex (\<lambda>x. dev_ID x = i \<and> dev_State x = dev_State d \<and> dev_Version x = dev_Version d)
      (db_devices (wdb w))"
    by (auto simp: list_ex_iff)
  have "dev_Version d \<le> max_i64"
    using ok dm by (auto simp: schema_ok_def devices_ok_def device_row_ok_def)
  with f hit known show ?thesis
    by (auto simp: TransitionDevice_def and_then_def map_err_def stmt_run update_device_state_def Let_def
      state_known count_where_eq_0 classify_write_error_def pg_out_of_range_def)
qed

lemma operation_transition:
  assumes ok: "schema_ok (wdb w)" and f: "wfaults w = []" and d: "device_view w i = Some d"
    and to: "(dev_State d, to) \<in> transitions p"
  shows "operation p repo_devices i w = TransitionDevice i (dev_State d) to (dev_Version d) w"
    and "\<And>s. to \<noteq> DeviceOther s"
proof -
  have "GetDevice i w = (Inr d, w)"
    using d by (simp add: GetDevice_run [OF f] device_view_Some)
  moreover have "\<forall>s. dev_State d \<noteq> DeviceOther s"
    using repo_store.known_states [OF ok d] by blast
  moreover have "(THE to. (dev_State d, to) \<in> transitions p) = to"
    using to by (cases p) (auto simp: transitions_def)
  ultimately show "operation p repo_devices i w = TransitionDevice i (dev_State d) to (dev_Version d) w"
    using to by (auto simp: operation_write and_then_def repo_devices_def write_half_eq)
  show "to \<noteq> DeviceOther s" for s
    using to by (cases p) (auto simp: transitions_def)
qed

text \<open>The outcome of pairing, enabling, disabling and retiring, when the driver does not fail: 404 for
  an unknown device, 409 from a state the operation does not start from, 500 when the version is at
  the end of its range; otherwise the operation's transition, one version up, and no other device
  changes.\<close>

lemma device_operation_outcome:
  assumes ok: "schema_ok (wdb w)" and f: "wfaults w = []"
  shows "case device_view w i of
      None \<Rightarrow> \<exists>e. fst (operation p repo_devices i w) = Inl e \<and> ErrorStatus (Some e) = 404
    | Some d \<Rightarrow>
        if \<not> (\<exists>to. (dev_State d, to) \<in> transitions p)
        then \<exists>e. fst (operation p repo_devices i w) = Inl e \<and> ErrorStatus (Some e) = 409
        else if dev_Version d = max_i64
        then \<exists>e. fst (operation p repo_devices i w) = Inl e \<and> ErrorStatus (Some e) = 500
        else fst (operation p repo_devices i w) = Inr () \<and>
          (\<exists>to. (dev_State d, to) \<in> transitions p \<and> device_view (snd (operation p repo_devices i w)) =
             (device_view w)(i \<mapsto> d\<lparr>dev_State := to, dev_Version := dev_Version d + 1\<rparr>))"
proof (cases "device_view w i")
  case None
  then obtain e where e: "one_row (\<lambda>d. dev_ID d = i) (db_devices (wdb w)) = Inl e"
    by (auto simp: device_view_def split: sum.splits)
  then have "e = ErrNoRows" by (simp add: one_row_Inl)
  with e have "GetDevice i w = (Inl (classify_read_error ErrNoRows), w)"
    by (simp add: GetDevice_run [OF f])
  with None show ?thesis by (simp add: operation_write and_then_def repo_devices_def)
next
  case (Some d)
  have get: "GetDevice i w = (Inr d, w)"
    using Some by (simp add: GetDevice_run [OF f] device_view_Some)
  show ?thesis
  proof (cases "\<exists>to. (dev_State d, to) \<in> transitions p")
    case False
    have "\<forall>s. dev_State d \<noteq> DeviceOther s"
      using repo_store.known_states [OF ok Some] by blast
    with False Some get show ?thesis
      by (simp add: operation_write and_then_def repo_devices_def write_half_eq conflict_def)
  next
    case True
    then obtain to where to: "(dev_State d, to) \<in> transitions p" ..
    note op = operation_transition [OF ok f Some to]
    note run = TransitionDevice_run [OF ok f Some op(2)]
    show ?thesis
    proof (cases "dev_Version d = max_i64")
      case True
      with run op(1) Some \<open>\<exists>to. _\<close> show ?thesis
        by (simp add: pg_out_of_range_def ErrorStatus_def ErrorCode_def)
    next
      case False
      have "dev_Version d \<le> max_i64"
        using ok Some by (auto simp: device_view_Some schema_ok_def devices_ok_def device_row_ok_def dest: one_row_Inr)
      with False run have s: "fst (TransitionDevice i (dev_State d) to (dev_Version d) w) = Inr ()" by simp
      from TransitionDevice_view [OF outcome_pair [OF s] ok] Some s op(1) False to show ?thesis by auto
    qed
  qed
qed

section \<open>Interleaved clients\<close>

text \<open>
  A client first reads a device and later writes, with what it read; in between other clients run.
  A state is the world with the device each client holds. The driver may fail any call.
\<close>

type_synonym system = "world \<times> (nat \<Rightarrow> (int \<times> device) option)"

definition at_time :: "time \<Rightarrow> err option list \<Rightarrow> world \<Rightarrow> world" where
  "at_time t fs w = w\<lparr>wnow := t, wfaults := fs\<rparr>"

inductive client_step :: "system \<Rightarrow> system \<Rightarrow> bool" where
  reads: "dr_GetDevice repo_devices i (at_time t fs w) = (Inr d, w') \<Longrightarrow>
     client_step (w, held) (w', held(c := Some (i, d)))"
| read_fails: "dr_GetDevice repo_devices i (at_time t fs w) = (Inl e, w') \<Longrightarrow>
     client_step (w, held) (w', held(c := None))"
| writes: "held c = Some (i, d) \<Longrightarrow>
     client_step (w, held) (snd (write_half p repo_devices i d (at_time t fs w)), held(c := None))"
| enrolls: "client_step (w, held) (snd (Enroll u repo_devices h ext kind fw caps (at_time t fs w)), held)"
| touches: "(\<forall>w. snd (clock w) = w) \<Longrightarrow>
     client_step (w, held) (snd (Touch repo_devices clock i (at_time t fs w)), held)"

inductive client_steps :: "system \<Rightarrow> system \<Rightarrow> bool" where
  refl: "client_steps s s"
| step: "client_steps s s' \<Longrightarrow> client_step s' s'' \<Longrightarrow> client_steps s s''"

definition system_ok :: "system \<Rightarrow> bool" where
  "system_ok s \<longleftrightarrow> schema_ok (wdb (fst s)) \<and>
     (\<forall>c i d st. snd s c = Some (i, d) \<longrightarrow> dev_State d \<noteq> DeviceOther st)"

text \<open>The devices move along the lifecycle: each one stays or takes one allowed transition.\<close>

definition device_moves :: "world \<Rightarrow> world \<Rightarrow> bool" where
  "device_moves w w' \<longleftrightarrow> (\<forall>j d. device_view w j = Some d \<longrightarrow> (\<exists>d'. device_view w' j = Some d' \<and>
     (dev_State d' = dev_State d \<and> dev_Version d' = dev_Version d \<or>
      allowed_transition (dev_State d) (dev_State d') \<and> dev_Version d' = dev_Version d + 1)))"

lemma device_moves_same: "device_view w' = device_view w \<Longrightarrow> device_moves w w'"
  by (simp add: device_moves_def)

lemma device_view_at_time [simp]: "device_view (at_time t fs w) = device_view w" "wdb (at_time t fs w) = wdb w"
  by (simp_all add: device_view_def at_time_def fun_eq_iff)

lemma moves_device_moves:
  assumes "repo_store.moves i w (x, w')"
  shows "device_moves w w'"
proof (cases x)
  case (Inl e)
  with assms show ?thesis by (simp add: repo_store.moves_def device_moves_same)
next
  case (Inr u)
  with assms obtain d to where "device_view w i = Some d" "allowed_transition (dev_State d) to"
      "device_view w' = (device_view w)(i \<mapsto> d\<lparr>dev_State := to, dev_Version := dev_Version d + 1\<rparr>)"
    by (auto simp: repo_store.moves_def repo_store.step_def)
  then show ?thesis by (auto simp: device_moves_def)
qed

lemma one_row_append:
  "one_row p (xs @ ys) = (case one_row p xs of Inl _ \<Rightarrow> one_row p ys | Inr r \<Rightarrow> Inr r)"
  by (induction xs) (auto simp: one_row_def)

lemma for_each_keeps_devices:
  "(\<And>x w. db_devices (wdb (snd (f x w))) = db_devices (wdb w)) \<Longrightarrow>
     db_devices (wdb (snd (for_each f xs w))) = db_devices (wdb w)"
proof (induction xs arbitrary: w)
  case Nil
  then show ?case by simp
next
  case (Cons x xs)
  show ?case
  proof (cases "f x w")
    case (Pair r w')
    with Cons.prems [of x w] have "db_devices (wdb w') = db_devices (wdb w)" by simp
    with Pair Cons.IH [OF Cons.prems, of w'] show ?thesis
      by (cases r) (simp_all add: and_then_def)
  qed
qed

lemma db_devices_insert_capability:
  "db_devices (snd (insert_capability i c now db)) = db_devices db"
  by (simp add: insert_capability_def split: option.split)

lemma stmt_devices:
  "(\<And>now db. db_devices (snd (f now db)) = db_devices db) \<Longrightarrow> db_devices (wdb (snd (stmt f w))) = db_devices (wdb w)"
  by (cases f w rule: stmt_cases) (auto, metis snd_conv)

lemma CreateDevice_devices:
  assumes "CreateDevice d caps w = (x, w')"
  shows "(\<exists>e. x = Inl e \<and> db_devices (wdb w') = db_devices (wdb w)) \<or>
    (\<exists>out. x = Inr out \<and> db_devices (wdb w') = db_devices (wdb w) @ [out] \<and>
       insert_device d (wnow w) (wdb w) = (Inr out, snd (insert_device d (wnow w) (wdb w))))"
proof (cases x)
  case (Inl e)
  with assms have "same_tables (wdb w) (wdb w')"
    unfolding CreateDevice_def by (auto dest: WithTx_Inl)
  with Inl show ?thesis by (simp add: same_tablesD(4))
next
  case (Inr out)
  with assms obtain w0 w1 w2 w3 where w0: "wdb w0 = wdb w" "wnow w0 = wnow w"
      and 1: "stmt (insert_device d) w0 = (Inr out, w1)"
      and 2: "for_each (\<lambda>c. map_err classify_write_error (stmt (insert_capability (dev_ID out) c))) caps w1 = (Inr (), w2)"
      and w': "wdb w' = wdb w2"
    by (auto simp: CreateDevice_def and_then_eq_Inr elim!: WithTx_Inr)
  have "db_devices (wdb w2) = db_devices (wdb w1)"
    using for_each_keeps_devices [of "\<lambda>c. map_err classify_write_error (stmt (insert_capability (dev_ID out) c))" caps w1] 2
    by (simp add: stmt_devices db_devices_insert_capability)
  moreover from stmt_Inr [OF 1] w0 have i: "insert_device d (wnow w) (wdb w) = (Inr out, wdb w1)" by simp
  then have "db_devices (wdb w1) = db_devices (wdb w) @ [out]"
    by (auto simp: insert_device_def Let_def insert_row_Inr)
  ultimately show ?thesis using Inr w' i by simp
qed

lemma CreateDevice_moves: "device_moves w (snd (CreateDevice d caps w))"
  using CreateDevice_devices [of d caps w "fst (CreateDevice d caps w)" "snd (CreateDevice d caps w)"]
  by (auto simp: device_moves_def device_view_Some one_row_append)

lemma TouchDevice_moves: "device_moves w (snd (TouchDevice i t w))"
proof -
  have "db_devices (wdb (snd (TouchDevice i t w))) = db_devices (wdb w) \<or>
    db_devices (wdb (snd (TouchDevice i t w))) = update_where (\<lambda>d. dev_ID d = i) (\<lambda>d. d\<lparr>dev_LastSeenAt := Some t\<rparr>) (db_devices (wdb w))"
    by (cases "update_device_seen i t" w rule: stmt_cases)
      (auto simp: TouchDevice_def and_then_def map_err_def update_device_seen_def Let_def)
  then show ?thesis
    by (auto simp: device_moves_def device_view_Some one_row_update)
qed

lemma schema_ok_CreateDevice: "schema_ok (wdb w) \<Longrightarrow> schema_ok (wdb (snd (CreateDevice d caps w)))"
  using steadyD [OF steady_transactions(2), of "wdb w" w] by (simp add: kept_def)

lemma schema_ok_TouchDevice: "schema_ok (wdb w) \<Longrightarrow> schema_ok (wdb (snd (TouchDevice i t w)))"
  using schema_ok_call [of w undefined "Call_TouchDevice i t"] by simp

lemma Enroll_moves:
  assumes "schema_ok (wdb w)"
  shows "schema_ok (wdb (snd (Enroll u repo_devices h ext kind fw caps w))) \<and>
    device_moves w (snd (Enroll u repo_devices h ext kind fw caps w))"
  using assms
  by (simp add: Enroll_def Let_def repo_devices_def schema_ok_CreateDevice CreateDevice_moves
      device_moves_same split: sum.split)

lemma Touch_moves:
  assumes "schema_ok (wdb w)" and "\<forall>w. snd (clock w) = w"
  shows "schema_ok (wdb (snd (Touch repo_devices clock i w))) \<and>
    device_moves w (snd (Touch repo_devices clock i w))"
proof (cases "GetDevice i w")
  case (Pair x w1)
  have w1: "wdb w1 = wdb w" using wdb_GetDevice [of i w] Pair by simp
  then have v: "device_view w1 = device_view w" by (simp add: device_view_def fun_eq_iff)
  obtain t where "clock w1 = (t, w1)" using assms(2) by (metis prod.collapse)
  with Pair assms(1) w1 v show ?thesis
    using TouchDevice_moves [of w1 i t]
    by (cases x) (simp_all add: Touch_def repo_devices_def and_then_def with_now_def
      schema_ok_TouchDevice device_moves_def)
qed

lemma client_step_ok:
  assumes "client_step s s'" and "system_ok s"
  shows "system_ok s' \<and> device_moves (fst s) (fst s')"
  using assms
proof (induction rule: client_step.induct)
  case (reads i t fs w d w' held c)
  let ?w = "at_time t fs w"
  from reads have ok: "schema_ok (wdb ?w)" by (simp add: system_ok_def)
  from reads repo_store.get_state [OF ok, of i] have w': "schema_ok (wdb w')" "device_view w' = device_view w"
    by simp_all
  from repo_store.known_states [OF ok repo_store.get_Inr [OF ok reads(1)]]
  have "dev_State d \<noteq> DeviceOther st" for st .
  with reads w' show ?case by (auto simp: system_ok_def device_moves_same)
next
  case (read_fails i t fs w e w' held c)
  then have ok: "schema_ok (wdb (at_time t fs w))" by (simp add: system_ok_def)
  with read_fails repo_store.get_state [OF ok, of i] show ?case
    by (auto simp: system_ok_def device_moves_same)
next
  case (writes held c i d w p t fs)
  let ?w = "at_time t fs w"
  from writes have ok: "schema_ok (wdb ?w)" and d: "\<And>st. dev_State d \<noteq> DeviceOther st"
    by (auto simp: system_ok_def)
  have "repo_store.moves i ?w (write_half p repo_devices i d ?w)"
    using repo_store.write_moves [OF ok d] by (cases p) simp_all
  then have "device_moves ?w (snd (write_half p repo_devices i d ?w))"
    by (metis moves_device_moves prod.collapse)
  moreover have "schema_ok (wdb (snd (write_half p repo_devices i d ?w)))"
    using repo_store.write_inv [OF ok] by (cases p) simp_all
  ultimately show ?case using writes by (auto simp: system_ok_def device_moves_def)
next
  case (enrolls w held u h ext kind fw caps t fs)
  then show ?case
    using Enroll_moves [of "at_time t fs w" u h ext kind fw caps] by (simp add: system_ok_def device_moves_def)
next
  case (touches clock w held i t fs)
  then show ?case
    using Touch_moves [of "at_time t fs w" clock i] by (simp add: system_ok_def device_moves_def)
qed

lemma lifecycle_snoc:
  "lifecycle s path t \<Longrightarrow> allowed_transition t u \<Longrightarrow> lifecycle s (path @ [u]) u"
  by (induction rule: lifecycle.induct) (auto intro: lifecycle.intros)

text \<open>C3. However clients interleave their reads and writes and whatever the driver does, a device goes
  along the lifecycle that the domain rules allow, one version per transition.\<close>

theorem interleaved_clients_follow_lifecycle:
  assumes "client_steps s s'" and "system_ok s" and "device_view (fst s) j = Some d"
  shows "\<exists>d' path. device_view (fst s') j = Some d' \<and> lifecycle (dev_State d) path (dev_State d') \<and>
    dev_Version d' = dev_Version d + int (length path)"
proof -
  have "system_ok s' \<and> (\<exists>d' path. device_view (fst s') j = Some d' \<and>
      lifecycle (dev_State d) path (dev_State d') \<and> dev_Version d' = dev_Version d + int (length path))"
    using assms
  proof (induction rule: client_steps.induct)
    case (refl s)
    then show ?case by (auto intro: lifecycle.stay exI [of _ "[]"])
  next
    case (step s s' s'')
    then obtain d' path where ok: "system_ok s'" and d': "device_view (fst s') j = Some d'"
        "lifecycle (dev_State d) path (dev_State d')" "dev_Version d' = dev_Version d + int (length path)"
      by blast
    from client_step_ok [OF step.hyps(2) ok] have ok2: "system_ok s''" and m: "device_moves (fst s') (fst s'')"
      by auto
    from m d'(1) obtain d'' where d'': "device_view (fst s'') j = Some d''"
      "dev_State d'' = dev_State d' \<and> dev_Version d'' = dev_Version d' \<or>
       allowed_transition (dev_State d') (dev_State d'') \<and> dev_Version d'' = dev_Version d' + 1"
      unfolding device_moves_def by blast
    from d''(2) have "\<exists>path. lifecycle (dev_State d) path (dev_State d'') \<and>
        dev_Version d'' = dev_Version d + int (length path)"
    proof (elim disjE conjE)
      assume "dev_State d'' = dev_State d'" "dev_Version d'' = dev_Version d'"
      with d' show ?thesis by (intro exI [of _ path]) simp
    next
      assume "allowed_transition (dev_State d') (dev_State d'')" "dev_Version d'' = dev_Version d' + 1"
      with d' lifecycle_snoc [OF d'(2)] show ?thesis
        by (intro exI [of _ "path @ [dev_State d'']"]) simp
    qed
    with ok2 d''(1) show ?case by blast
  qed
  then show ?thesis ..
qed

section \<open>Enrolment\<close>

lemma normalize_capabilities_Inr:
  "normalize_capabilities u acc cs = Inr out \<Longrightarrow> distinct acc \<Longrightarrow> distinct out \<and> [] \<notin> set out - set acc"
  by (induction u acc cs rule: normalize_capabilities.induct) (auto simp: Let_def split: if_splits)

lemma insert_capabilities_Inr:
  "for_each (\<lambda>c. map_err classify_write_error (stmt (insert_capability i c))) caps w = (Inr u, w') \<Longrightarrow>
     db_capabilities (wdb w') = db_capabilities (wdb w) @ map (\<lambda>c. (i, c)) caps"
proof (induction caps arbitrary: w)
  case Nil
  then show ?case by simp
next
  case (Cons c caps)
  then obtain w1 where 1: "stmt (insert_capability i c) w = (Inr (), w1)"
      and 2: "for_each (\<lambda>c. map_err classify_write_error (stmt (insert_capability i c))) caps w1 = (Inr u, w')"
    by (auto simp: and_then_eq_Inr)
  from stmt_Inr [OF 1] have "insert_capability i c (wnow w) (wdb w) = (Inr (), wdb w1)" by simp
  then have "db_capabilities (wdb w1) = db_capabilities (wdb w) @ [(i, c)]"
    by (auto simp: insert_capability_def split: option.splits if_splits
      dest!: arg_cong [where f = db_capabilities])
  with Cons.IH [OF 2] show ?case by simp
qed

lemma CreateDevice_capabilities:
  assumes "CreateDevice d caps w = (Inr out, w')"
  shows "set (map (\<lambda>c. (dev_ID out, c)) caps) \<subseteq> set (db_capabilities (wdb w'))"
proof -
  from assms obtain w1 w2 where
      "for_each (\<lambda>c. map_err classify_write_error (stmt (insert_capability (dev_ID out) c))) caps w1 = (Inr (), w2)"
      and w': "wdb w' = wdb w2"
    by (auto simp: CreateDevice_def and_then_eq_Inr elim!: WithTx_Inr)
  from insert_capabilities_Inr [OF this(1)] w' show ?thesis by simp
qed

text \<open>An enrolled device is stored as pending, in version one, with every capability its kind
  requires.\<close>

lemma enrolled_device_ready:
  assumes ok: "schema_ok (wdb w)" and e: "Enroll u repo_devices h ext kind fw caps w = (Inr d, w')"
  shows "device_view w' (dev_ID d) = Some d \<and> dev_State d = DevicePending \<and> dev_Version d = 1 \<and>
    dev_HouseholdID d = h \<and> dev_ExternalID d = trim_space ext \<and> dev_Kind d = kind \<and>
    (\<forall>c\<in>set (RequiredCapabilities kind). (dev_ID d, c) \<in> set (db_capabilities (wdb w')))"
proof -
  from e obtain cs where req: "HasCapabilities (RequiredCapabilities kind) cs"
      and c: "CreateDevice (new_device h (trim_space ext) kind (trim_space fw)) cs w = (Inr d, w')"
    by (auto simp: Enroll_def Let_def repo_devices_def split: if_splits sum.splits)
  from CreateDevice_devices [OF c] have new: "db_devices (wdb w') = db_devices (wdb w) @ [d]"
      and i: "insert_device (new_device h (trim_space ext) kind (trim_space fw)) (wnow w) (wdb w) =
        (Inr d, snd (insert_device (new_device h (trim_space ext) kind (trim_space fw)) (wnow w) (wdb w)))"
    by auto
  from i have d: "dev_ID d = next_id TDevices (wdb w)" "dev_State d = DevicePending" "dev_Version d = 1"
      "dev_HouseholdID d = h" "dev_ExternalID d = trim_space ext" "dev_Kind d = kind"
    by (auto simp: insert_device_def Let_def insert_row_Inr new_device_def)
  have "dev_ID x \<noteq> dev_ID d" if "x \<in> set (db_devices (wdb w))" for x
    using schema_keyed(2) [OF ok] that d(1) by (auto simp: keyed_def next_id_def)
  then have none: "one_row (\<lambda>x. dev_ID x = dev_ID d) (db_devices (wdb w)) = Inl ErrNoRows"
    by (auto simp: one_row_Inl list_ex_iff)
  have "one_row (\<lambda>x. dev_ID x = dev_ID d) [d] = Inr d" by (simp add: one_row_def)
  then have "device_view w' (dev_ID d) = Some d"
    by (simp add: device_view_Some new one_row_append none)
  moreover from CreateDevice_capabilities [OF c] req
  have "\<forall>c\<in>set (RequiredCapabilities kind). (dev_ID d, c) \<in> set (db_capabilities (wdb w'))"
    by (auto simp: HasCapabilities_iff)
  ultimately show ?thesis using d by simp
qed

lemma sample_enroll:
  "fst (Enroll id repo_devices 1 '' plug '' KindMeter ''f'' [''Power''] sample) =
     Inr \<lparr>dev_ID = 3, dev_HouseholdID = 1, dev_ExternalID = ''plug'', dev_Kind = KindMeter,
       dev_State = DevicePending, dev_Firmware = ''f'', dev_Version = 1, dev_LastSeenAt = None, dev_CreatedAt = 3\<rparr>"
  by code_simp

definition sample_device :: device where
  "sample_device = hd (db_devices sample_db)"

lemma sample_read: "dr_GetDevice repo_devices 1 (at_time 4 [] sample) = (Inr sample_device, at_time 4 [] sample)"
  by (simp add: repo_devices_def GetDevice_run at_time_def sample_device_def sample_defs one_row_def)

definition sample_run :: "system" where
  "sample_run = (snd (write_half OpDisable repo_devices 1 sample_device (at_time 5 [] (at_time 4 [] sample))),
     (\<lambda>_. None)(0 := Some (1, sample_device), 0 := None))"

lemma interleaved_clients_follow_lifecycle_witness:
  "\<exists>d' path. device_view (fst sample_run) 1 = Some d' \<and> lifecycle DeviceEnabled path (dev_State d') \<and>
     dev_Version d' = 3 + int (length path)"
proof -
  have "client_step (sample, \<lambda>_. None) (at_time 4 [] sample, (\<lambda>_. None)(0 := Some (1, sample_device)))"
    by (rule client_step.reads [OF sample_read])
  moreover have "client_step (at_time 4 [] sample, (\<lambda>_. None)(0 := Some (1, sample_device))) sample_run"
    unfolding sample_run_def by (rule client_step.writes) simp
  ultimately have "client_steps (sample, \<lambda>_. None) sample_run"
    by (blast intro: client_steps.intros)
  moreover have "system_ok (sample, \<lambda>_. None)" by (simp add: system_ok_def sample_ok)
  moreover have "device_view (fst (sample, \<lambda>_. None :: (int \<times> device) option)) 1 = Some sample_device"
    by (simp add: device_view_Some sample_device_def sample_defs one_row_def)
  ultimately have "\<exists>d' path. device_view (fst sample_run) 1 = Some d' \<and>
      lifecycle (dev_State sample_device) path (dev_State d') \<and>
      dev_Version d' = dev_Version sample_device + int (length path)"
    by (rule interleaved_clients_follow_lifecycle)
  then show ?thesis by (simp add: sample_device_def sample_defs)
qed

end
