(* ===== verification/Plan_Service.thy ===== *)
theory Plan_Service
  imports Device_Service
begin

text \<open>
  \<^verbatim>\<open>internal/service/energy.go\<close>: energy plans from draft to completion. The locale
  \<open>plan_store\<close> is the contract of the service's repository interface; its lemmas say which
  plans each operation takes, to which state it moves them, and that it changes nothing else.
\<close>

section \<open>Operations\<close>

record 'w plan_repo =
  pr_CreatePlan :: "energy_plan \<Rightarrow> plan_device list \<Rightarrow> ('w, energy_plan) action"
  pr_GetPlan :: "int \<Rightarrow> ('w, energy_plan) action"
  pr_SetPlanState :: "int \<Rightarrow> plan_state \<Rightarrow> plan_state \<Rightarrow> ('w, unit) action"

fun check_plan_devices :: "int list \<Rightarrow> plan_device list \<Rightarrow> err + unit" where
  "check_plan_devices seen [] = Inr ()"
| "check_plan_devices seen (d # ds) =
     (if pd_DeviceID d \<le> 0 \<or> pd_TargetWatts d < 0 then Inl ErrInvalid
      else if pd_DeviceID d \<in> set seen
      then Inl (Wrapf [] ErrInvalid '': plan contains a device more than once'')
      else check_plan_devices (pd_DeviceID d # seen) ds)"

definition max_plan :: duration where
  "max_plan = 31 * 24 * hour"

text \<open>The clock is read only when the conditions before it in the disjunction fail.\<close>

definition Draft :: "'w plan_repo \<Rightarrow> 'w clock \<Rightarrow> energy_plan \<Rightarrow> plan_device list \<Rightarrow> ('w, energy_plan) action" where
  "Draft r clock p0 devices =
     (let p = p0\<lparr>plan_Name := trim_space (plan_Name p0)\<rparr> in
      if plan_HouseholdID p \<le> 0 \<or> plan_Name p = [] \<or> plan_BudgetCents p < 0 \<or>
         \<not> plan_StartsAt p < plan_EndsAt p
      then fail ErrInvalid
      else with_now clock (\<lambda>now.
        if \<not> now < plan_StartsAt p \<or> time_sub (plan_EndsAt p) (plan_StartsAt p) > max_plan
        then fail ErrInvalid
        else if devices = [] then fail (Wrapf [] ErrInvalid '': plan needs devices'')
        else case check_plan_devices [] devices of
          Inl e \<Rightarrow> fail e
        | Inr _ \<Rightarrow> pr_CreatePlan r p devices))"

definition Schedule_plan :: "'w plan_repo \<Rightarrow> 'w clock \<Rightarrow> int \<Rightarrow> ('w, unit) action" where
  "Schedule_plan r clock i =
     and_then (pr_GetPlan r i) (\<lambda>p.
     if plan_State p \<noteq> PlanDraft then fail ErrConflict
     else with_now clock (\<lambda>now.
       if \<not> now < plan_StartsAt p then fail ErrConflict
       else pr_SetPlanState r i PlanDraft PlanScheduled))"

definition Start_plan :: "'w plan_repo \<Rightarrow> 'w clock \<Rightarrow> int \<Rightarrow> ('w, unit) action" where
  "Start_plan r clock i =
     and_then (pr_GetPlan r i) (\<lambda>p.
     with_now clock (\<lambda>now.
       if plan_State p \<noteq> PlanScheduled \<or> now < plan_StartsAt p \<or> \<not> now < plan_EndsAt p
       then fail ErrConflict
       else pr_SetPlanState r i PlanScheduled PlanRunning))"

definition Complete_plan :: "'w plan_repo \<Rightarrow> int \<Rightarrow> ('w, unit) action" where
  "Complete_plan r i =
     and_then (pr_GetPlan r i) (\<lambda>p.
     if plan_State p \<noteq> PlanRunning then fail ErrConflict
     else pr_SetPlanState r i PlanRunning PlanCompleted)"

definition Cancel_plan :: "'w plan_repo \<Rightarrow> int \<Rightarrow> ('w, unit) action" where
  "Cancel_plan r i =
     and_then (pr_GetPlan r i) (\<lambda>p.
     if plan_State p \<noteq> PlanDraft \<and> plan_State p \<noteq> PlanScheduled then fail ErrConflict
     else pr_SetPlanState r i (plan_State p) PlanCancelled)"

section \<open>The store of plans\<close>

text \<open>What an operation on plan \<open>i\<close> does: it moves a plan the guard admits to the state \<open>to\<close> and leaves
  every other plan alone; or it fails, changes no plan, and unless the store faults the plan is one
  the guard refuses.\<close>

definition plan_moves :: "('w \<Rightarrow> int \<Rightarrow> energy_plan option) \<Rightarrow> ('w \<Rightarrow> bool) \<Rightarrow> int \<Rightarrow> (energy_plan \<Rightarrow> bool) \<Rightarrow>
    plan_state \<Rightarrow> 'w \<Rightarrow> (err + unit) \<times> 'w \<Rightarrow> bool" where
  "plan_moves view calm i guard to w x \<longleftrightarrow> (case x of
     (Inl e, w') \<Rightarrow> view w' = view w \<and> (calm w \<longrightarrow> (\<forall>p. view w i = Some p \<longrightarrow> \<not> guard p))
   | (Inr _, w') \<Rightarrow> \<exists>p. view w i = Some p \<and> guard p \<and> view w' = (view w)(i \<mapsto> p\<lparr>plan_State := to\<rparr>))"

text \<open>An operation reads the clock at most once: its reading is \<open>now\<close>.\<close>

locale plan_store =
  fixes r :: "'w plan_repo"
    and clock :: "'w clock"
    and now :: time
    and inv :: "'w \<Rightarrow> bool"
    and calm :: "'w \<Rightarrow> bool"
    and view :: "'w \<Rightarrow> int \<Rightarrow> energy_plan option"
    and ready :: "'w \<Rightarrow> energy_plan \<Rightarrow> bool"
  assumes clock_reads: "clock w = (now, w)"
    and get_state: "pr_GetPlan r i w = (x, w') \<Longrightarrow> inv w \<Longrightarrow>
      inv w' \<and> view w' = view w \<and> ready w' = ready w \<and> (calm w \<longrightarrow> calm w')"
    and get_Inr: "inv w \<Longrightarrow> pr_GetPlan r i w = (Inr p, w') \<Longrightarrow> view w i = Some p"
    and get_calm: "inv w \<Longrightarrow> calm w \<Longrightarrow> pr_GetPlan r i w = (Inl e, w') \<Longrightarrow> view w i = None"
    and set_Inl: "inv w \<Longrightarrow> pr_SetPlanState r i from to w = (Inl e, w') \<Longrightarrow> view w' = view w \<and>
      (calm w \<longrightarrow> (\<forall>p. view w i = Some p \<longrightarrow> plan_State p = from \<longrightarrow> to = PlanRunning \<and> \<not> ready w p))"
    and set_Inr: "inv w \<Longrightarrow> pr_SetPlanState r i from to w = (Inr u, w') \<Longrightarrow>
      \<exists>p. view w i = Some p \<and> plan_State p = from \<and> (to = PlanRunning \<longrightarrow> ready w p) \<and>
        view w' = (view w)(i \<mapsto> p\<lparr>plan_State := to\<rparr>)"
begin

text \<open>Every operation loads the plan, checks it, and hands it to \<open>SetPlanState\<close> when the check passes.\<close>

lemma operation_moves:
  assumes "inv w"
    and yes: "\<And>p w1. g p \<Longrightarrow> k p w1 = pr_SetPlanState r i (plan_State p) to w1"
    and no: "\<And>p w1. \<not> g p \<Longrightarrow> k p w1 = fail e w1"
  shows "plan_moves view calm i (\<lambda>p. g p \<and> (to = PlanRunning \<longrightarrow> ready w p)) to w (and_then (pr_GetPlan r i) k w)"
proof (cases "pr_GetPlan r i w")
  case (Pair x w1)
  note kept = get_state [OF Pair assms(1)]
  show ?thesis
  proof (cases x)
    case (Inl e)
    with Pair kept get_calm [OF assms(1)] show ?thesis by (auto simp: and_then_def plan_moves_def)
  next
    case (Inr p)
    with Pair get_Inr [OF assms(1)] have p: "view w i = Some p" by simp
    obtain y w2 where y: "pr_SetPlanState r i (plan_State p) to w1 = (y, w2)" by (cases "pr_SetPlanState r i (plan_State p) to w1")
    show ?thesis
    proof (cases "g p")
      case False
      with Pair Inr no [of p w1] p kept show ?thesis by (auto simp: and_then_def plan_moves_def)
    next
      case True
      with Pair Inr yes [of p w1] p kept y set_Inl [of w1 i "plan_State p" to _ w2]
        set_Inr [of w1 i "plan_State p" to _ w2]
      show ?thesis by (cases y) (auto simp: and_then_def plan_moves_def)
    qed
  qed
qed

lemma Schedule_moves: "inv w \<Longrightarrow> plan_moves view calm i
    (\<lambda>p. plan_State p = PlanDraft \<and> now < plan_StartsAt p) PlanScheduled w (Schedule_plan r clock i w)"
  unfolding Schedule_plan_def
  by (rule operation_moves [where to = PlanScheduled, simplified, of _ "\<lambda>p. plan_State p = PlanDraft \<and> now < plan_StartsAt p"
      _ i ErrConflict]) (auto simp: with_now_def clock_reads)

lemma Start_moves: "inv w \<Longrightarrow> plan_moves view calm i
    (\<lambda>p. plan_State p = PlanScheduled \<and> plan_StartsAt p \<le> now \<and> now < plan_EndsAt p \<and> ready w p) PlanRunning w
    (Start_plan r clock i w)"
  unfolding Start_plan_def
  by (rule operation_moves [where to = PlanRunning, of _ "\<lambda>p. plan_State p = PlanScheduled \<and> plan_StartsAt p \<le> now \<and>
      now < plan_EndsAt p" _ i ErrConflict, simplified conj_assoc simp_thms]) (auto simp: with_now_def clock_reads)

lemma Complete_moves: "inv w \<Longrightarrow> plan_moves view calm i (\<lambda>p. plan_State p = PlanRunning) PlanCompleted w
    (Complete_plan r i w)"
  unfolding Complete_plan_def
  by (rule operation_moves [where to = PlanCompleted, simplified, of _ "\<lambda>p. plan_State p = PlanRunning" _ i ErrConflict]) auto

lemma Cancel_moves: "inv w \<Longrightarrow> plan_moves view calm i
    (\<lambda>p. plan_State p = PlanDraft \<or> plan_State p = PlanScheduled) PlanCancelled w (Cancel_plan r i w)"
  unfolding Cancel_plan_def
  by (rule operation_moves [where to = PlanCancelled, simplified, of _ "\<lambda>p. plan_State p = PlanDraft \<or> plan_State p = PlanScheduled"
      _ i ErrConflict]) auto

end

section \<open>Plans on the database\<close>

definition repo_plans :: "pg \<Rightarrow> world plan_repo" where
  "repo_plans p = \<lparr>pr_CreatePlan = CreatePlan p, pr_GetPlan = GetPlan, pr_SetPlanState = SetPlanState\<rparr>"

text \<open>A clock the database does not depend on: any reading, no effect.\<close>

definition wall_clock :: "(world \<Rightarrow> time) \<Rightarrow> world clock" where
  "wall_clock t w = (t w, w)"

definition plan_view :: "world \<Rightarrow> int \<Rightarrow> energy_plan option" where
  "plan_view w i = (case one_row (\<lambda>p. plan_ID p = i) (db_plans (wdb w)) of Inl _ \<Rightarrow> None | Inr p \<Rightarrow> Some p)"

lemma plan_view_Some: "plan_view w i = Some p \<longleftrightarrow> one_row (\<lambda>p. plan_ID p = i) (db_plans (wdb w)) = Inr p"
  by (simp add: plan_view_def split: sum.split)

lemma plan_view_cong: "db_plans (wdb w) = db_plans (wdb w') \<Longrightarrow> plan_view w = plan_view w'"
  by (simp add: plan_view_def fun_eq_iff)

lemma wdb_GetPlan [simp]: "wdb (snd (GetPlan i w)) = wdb w"
  by (simp add: GetPlan_def)

lemma GetPlan_kept: "GetPlan i w = (x, w') \<Longrightarrow> wdb w' = wdb w \<and> (wfaults w = [] \<longrightarrow> wfaults w' = [])"
  unfolding GetPlan_def query_def map_err_def
  by (rule stmt_cases [of "\<lambda>_ db. (one_row (\<lambda>p. plan_ID p = i) (db_plans db), db)" w]) (auto split: sum.splits)

lemma GetPlan_calm: "wfaults w = [] \<Longrightarrow> GetPlan i w = (Inl e, w') \<Longrightarrow> plan_view w i = None"
  by (auto simp: GetPlan_def query_def stmt_def map_err_def plan_view_def split: sum.splits)

lemma SetPlanState_calm:
  assumes "wfaults w = []" "SetPlanState i from to w = (Inl e, w')" "plan_view w i = Some p"
  shows "plan_State p = from \<longrightarrow> to = PlanRunning \<and> \<not> links_ready (wdb w) p"
proof -
  from assms(3) have "p \<in> set (db_plans (wdb w))" "plan_ID p = i"
    by (auto simp: plan_view_Some dest: one_row_Inr)
  with assms(1,2) show ?thesis
    by (auto simp: SetPlanState_def stmt_def update_plan_state_def Let_def and_then_def count_where_eq_0 list_ex_iff
      split: if_splits)
qed

text \<open>The guard of the update, on the plan with id \<open>i\<close>.\<close>

lemma SetPlanState_Inr:
  assumes "SetPlanState i from to w = (Inr (), w')" and "schema_ok (wdb w)"
  shows "\<exists>p. plan_view w i = Some p \<and> plan_State p = from \<and> (to = PlanRunning \<longrightarrow> links_ready (wdb w) p) \<and>
    plan_view w' = (plan_view w)(i \<mapsto> p\<lparr>plan_State := to\<rparr>)"
proof -
  let ?q = "\<lambda>p. plan_ID p = i \<and> plan_State p = from \<and> (to \<noteq> PlanRunning \<or> links_ready (wdb w) p)"
  let ?f = "\<lambda>p. p\<lparr>plan_State := to\<rparr>"
  from assms(1) obtain n where s: "stmt (update_plan_state i from to) w = (Inr n, w')" and "n \<noteq> 0"
    by (auto simp: SetPlanState_def and_then_eq_Inr split: if_splits)
  from stmt_Inr [OF s] \<open>n \<noteq> 0\<close> have ex: "list_ex ?q (db_plans (wdb w))"
    using count_where_eq_0 [of ?q "db_plans (wdb w)"] by (auto simp: update_plan_state_def Let_def)
  have w': "wdb w' = (wdb w)\<lparr>db_plans := update_where ?q ?f (db_plans (wdb w))\<rparr>"
    using stmt_Inr [OF s] by (simp add: update_plan_state_def Let_def)
  from ex obtain p where p: "p \<in> set (db_plans (wdb w))" "plan_ID p = i" "plan_State p = from"
      "to = PlanRunning \<longrightarrow> links_ready (wdb w) p" by (auto simp: list_ex_iff)
  have row: "one_row (\<lambda>p. plan_ID p = i) (db_plans (wdb w)) = Inr p"
    by (rule one_row_key [where key = plan_ID])
      (use p schema_keyed(3) [OF assms(2)] in \<open>simp_all add: keyed_def\<close>)
  have other: "one_row (\<lambda>r. plan_ID r = j) (update_where ?q ?f (db_plans (wdb w)))
      = one_row (\<lambda>r. plan_ID r = j) (db_plans (wdb w))" if "j \<noteq> i" for j
    by (rule one_row_update_other) (use that in auto)
  have "plan_view w' j = ((plan_view w)(i \<mapsto> ?f p)) j" for j
  proof (cases "j = i")
    case True
    with row p show ?thesis by (auto simp: plan_view_def w' one_row_update)
  next
    case False
    with other [of j] show ?thesis by (simp add: plan_view_def w')
  qed
  with row p show ?thesis by (auto simp: plan_view_Some)
qed

interpretation repo_plan_store: plan_store "repo_plans pg" "wall_clock (\<lambda>_. now)" now
    "\<lambda>w. schema_ok (wdb w)" "\<lambda>w. wfaults w = []" plan_view "\<lambda>w. links_ready (wdb w)"
  for pg now
proof
  fix w :: world
  show "wall_clock (\<lambda>_. now) w = (now, w)" by (simp add: wall_clock_def)
next
  fix w w' :: world and i x
  assume "pr_GetPlan (repo_plans pg) i w = (x, w')" "schema_ok (wdb w)"
  then show "schema_ok (wdb w') \<and> plan_view w' = plan_view w \<and> links_ready (wdb w') = links_ready (wdb w) \<and>
      (wfaults w = [] \<longrightarrow> wfaults w' = [])"
    using GetPlan_kept [of i w x w'] by (simp add: repo_plans_def plan_view_def fun_eq_iff)
next
  fix w w' :: world and i p
  assume "pr_GetPlan (repo_plans pg) i w = (Inr p, w')"
  then show "plan_view w i = Some p"
    by (auto simp: repo_plans_def GetPlan_def plan_view_Some dest: query_Inr)
next
  fix w w' :: world and i e
  assume "wfaults w = []" "pr_GetPlan (repo_plans pg) i w = (Inl e, w')"
  then show "plan_view w i = None" using GetPlan_calm by (simp add: repo_plans_def)
next
  fix w w' :: world and i "from" to e
  assume ok: "schema_ok (wdb w)" and s: "pr_SetPlanState (repo_plans pg) i from to w = (Inl e, w')"
  then have "same_tables (wdb w) (wdb w')"
    using atomicD [OF atomic_run_call, of w undefined "Call_SetPlanState i from to" e w']
    by (simp add: repo_plans_def)
  then have "plan_view w' = plan_view w" by (intro plan_view_cong same_tablesD(7))
  with s SetPlanState_calm [of w i "from" to e w'] show "plan_view w' = plan_view w \<and>
      (wfaults w = [] \<longrightarrow> (\<forall>p. plan_view w i = Some p \<longrightarrow> plan_State p = from \<longrightarrow>
        to = PlanRunning \<and> \<not> links_ready (wdb w) p))"
    by (auto simp: repo_plans_def)
next
  fix w w' :: world and i "from" to and u :: unit
  assume "schema_ok (wdb w)" "pr_SetPlanState (repo_plans pg) i from to w = (Inr u, w')"
  then show "\<exists>p. plan_view w i = Some p \<and> plan_State p = from \<and> (to = PlanRunning \<longrightarrow> links_ready (wdb w) p) \<and>
      plan_view w' = (plan_view w)(i \<mapsto> p\<lparr>plan_State := to\<rparr>)"
    using SetPlanState_Inr [of i "from" to w w'] by (auto simp: repo_plans_def)
qed

section \<open>Properties\<close>

text \<open>C19. Scheduling moves exactly the drafts that have not begun to scheduled, starting the scheduled
  plans within their window whose devices are all enabled and of the household to running, completing
  the running plans to completed, and cancelling the drafts and the scheduled plans to cancelled. Every
  other plan is left alone. An operation that fails changes no plan, and while the driver does not fail
  it fails only for a plan that is missing or that the operation does not admit. \<open>now\<close> is what the
  operation reads from its clock.\<close>

theorem plan_lifecycle:
  assumes "schema_ok (wdb w)"
  shows "plan_moves plan_view (\<lambda>w. wfaults w = []) i (\<lambda>p. plan_State p = PlanDraft \<and> now < plan_StartsAt p)
      PlanScheduled w (Schedule_plan (repo_plans pg) (wall_clock (\<lambda>_. now)) i w) \<and>
    plan_moves plan_view (\<lambda>w. wfaults w = []) i (\<lambda>p. plan_State p = PlanScheduled \<and> plan_StartsAt p \<le> now \<and>
        now < plan_EndsAt p \<and> links_ready (wdb w) p)
      PlanRunning w (Start_plan (repo_plans pg) (wall_clock (\<lambda>_. now)) i w) \<and>
    plan_moves plan_view (\<lambda>w. wfaults w = []) i (\<lambda>p. plan_State p = PlanRunning)
      PlanCompleted w (Complete_plan (repo_plans pg) i w) \<and>
    plan_moves plan_view (\<lambda>w. wfaults w = []) i (\<lambda>p. plan_State p = PlanDraft \<or> plan_State p = PlanScheduled)
      PlanCancelled w (Cancel_plan (repo_plans pg) i w)"
  using assms
  by (intro conjI repo_plan_store.Schedule_moves repo_plan_store.Start_moves repo_plan_store.Complete_moves
    repo_plan_store.Cancel_moves)

text \<open>The devices of a plan, all enabled.\<close>

definition devices_enabled :: "world \<Rightarrow> int \<Rightarrow> int \<Rightarrow> bool" where
  "devices_enabled w i h \<longleftrightarrow> (\<forall>l\<in>set (db_plan_devices (wdb w)). pd_PlanID l = i \<longrightarrow>
     (\<exists>d. device_view w (pd_DeviceID l) = Some d \<and> dev_State d = DeviceEnabled \<and> dev_HouseholdID d = h))"

lemma links_ready_enabled:
  assumes ok: "schema_ok (wdb w)" and p: "plan_view w i = Some p" and ready: "links_ready (wdb w) p"
  shows "devices_enabled w i (plan_HouseholdID p)"
  unfolding devices_enabled_def
proof (intro ballI impI)
  fix l
  assume l: "l \<in> set (db_plan_devices (wdb w))" "pd_PlanID l = i"
  from p have pm: "p \<in> set (db_plans (wdb w))" "plan_ID p = i"
    by (auto simp: plan_view_Some dest: one_row_Inr)
  from ok l obtain h where "(pd_DeviceID l, h) \<in> device_owners (wdb w)"
    by (auto simp: schema_ok_def plan_devices_ok_def)
  then obtain d where d: "d \<in> set (db_devices (wdb w))" "dev_ID d = pd_DeviceID l"
    by (auto simp: device_owners_def)
  have "one_row (\<lambda>d. dev_ID d = pd_DeviceID l) (db_devices (wdb w)) = Inr d"
    by (rule one_row_key [where key = dev_ID])
      (use d schema_keyed(2) [OF ok] in \<open>simp_all add: keyed_def\<close>)
  moreover from ready l d pm(2) have "dev_State d = DeviceEnabled \<and> dev_HouseholdID d = plan_HouseholdID p"
    by (auto simp: links_ready_def list_ex_iff)
  ultimately show "\<exists>d. device_view w (pd_DeviceID l) = Some d \<and> dev_State d = DeviceEnabled \<and>
      dev_HouseholdID d = plan_HouseholdID p"
    by (auto simp: device_view_Some)
qed

text \<open>C20. A plan starts only when it is scheduled, within its window, and while every device
  linked to it is enabled and of its household.\<close>

theorem started_plan_ready:
  assumes ok: "schema_ok (wdb w)" and s: "Start_plan (repo_plans pg) (wall_clock t) i w = (Inr (), w')"
  shows "\<exists>p w1. plan_view w i = Some p \<and> plan_State p = PlanScheduled \<and> wdb w1 = wdb w \<and>
    plan_StartsAt p \<le> t w1 \<and> t w1 < plan_EndsAt p \<and> devices_enabled w i (plan_HouseholdID p) \<and>
    plan_view w' = (plan_view w)(i \<mapsto> p\<lparr>plan_State := PlanRunning\<rparr>)"
proof -
  from s obtain p w1 where get: "GetPlan i w = (Inr p, w1)" and st: "plan_State p = PlanScheduled"
      and win: "plan_StartsAt p \<le> t w1" "t w1 < plan_EndsAt p"
      and set_state: "SetPlanState i PlanScheduled PlanRunning w1 = (Inr (), w')"
    by (auto simp: Start_plan_def repo_plans_def and_then_eq_Inr with_now_def wall_clock_def
      split: if_splits)
  have w1: "wdb w1 = wdb w" using wdb_GetPlan [of i w] get by simp
  then have v1: "plan_view w1 = plan_view w" by (simp add: plan_view_def fun_eq_iff)
  from get have v: "plan_view w i = Some p"
    by (auto simp: GetPlan_def plan_view_Some dest: query_Inr)
  from SetPlanState_Inr [OF set_state] ok w1 v v1
  have "links_ready (wdb w) p" "plan_view w' = (plan_view w)(i \<mapsto> p\<lparr>plan_State := PlanRunning\<rparr>)"
    by auto
  with links_ready_enabled [OF ok v] v st win w1 show ?thesis by blast
qed

lemma insert_plan_devices_Inr:
  "for_each (\<lambda>d.
       and_then (map_err classify_write_error
          (stmt (insert_plan_device pg i (pd_DeviceID d) (pd_TargetWatts d) h))) (\<lambda>n.
       if n \<noteq> 1 then fail (e d) else ret ())) devices w = (Inr u, w') \<Longrightarrow>
     (\<exists>ls. db_plan_devices (wdb w') = db_plan_devices (wdb w) @ ls \<and>
        map pd_DeviceID ls = map pd_DeviceID devices \<and> (\<forall>l\<in>set ls. pd_PlanID l = i)) \<and>
     (\<forall>d\<in>set devices. list_ex (enabled_in (pd_DeviceID d) h) (db_devices (wdb w))) \<and>
     db_plans (wdb w') = db_plans (wdb w) \<and> db_devices (wdb w') = db_devices (wdb w)"
proof (induction devices arbitrary: w)
  case Nil
  then show ?case by simp
next
  case (Cons d devices)
  then obtain w1 where 1: "stmt (insert_plan_device pg i (pd_DeviceID d) (pd_TargetWatts d) h) w = (Inr 1, w1)"
      and 2: "for_each (\<lambda>d.
       and_then (map_err classify_write_error
          (stmt (insert_plan_device pg i (pd_DeviceID d) (pd_TargetWatts d) h))) (\<lambda>n.
       if n \<noteq> 1 then fail (e d) else ret ())) devices w1 = (Inr u, w')"
    by (auto simp: and_then_eq_Inr split: if_splits)
  from stmt_Inr [OF 1] have "(Inr 1, wdb w1) = insert_plan_device pg i (pd_DeviceID d) (pd_TargetWatts d) h (wnow w) (wdb w)"
    by simp
  then obtain v where d: "list_ex (enabled_in (pd_DeviceID d) h) (db_devices (wdb w))"
      and w1: "wdb w1 = (wdb w)\<lparr>db_plan_devices := db_plan_devices (wdb w) @
        [\<lparr>pd_PlanID = i, pd_DeviceID = pd_DeviceID d, pd_TargetWatts = v\<rparr>]\<rparr>"
    by (auto simp: insert_plan_device_def split: if_splits sum.splits option.splits)
  from Cons.IH [OF 2] w1 obtain ls where "db_plan_devices (wdb w') = db_plan_devices (wdb w1) @ ls"
      "map pd_DeviceID ls = map pd_DeviceID devices" "\<forall>l\<in>set ls. pd_PlanID l = i" by blast
  then have "db_plan_devices (wdb w') = db_plan_devices (wdb w) @
      \<lparr>pd_PlanID = i, pd_DeviceID = pd_DeviceID d, pd_TargetWatts = v\<rparr> # ls" using w1 by simp
  with \<open>map pd_DeviceID ls = _\<close> \<open>\<forall>l\<in>set ls. _\<close> have
    "\<exists>ls. db_plan_devices (wdb w') = db_plan_devices (wdb w) @ ls \<and>
        map pd_DeviceID ls = map pd_DeviceID (d # devices) \<and> (\<forall>l\<in>set ls. pd_PlanID l = i)"
    by (intro exI [of _ "\<lparr>pd_PlanID = i, pd_DeviceID = pd_DeviceID d, pd_TargetWatts = v\<rparr> # ls"]) simp
  with Cons.IH [OF 2] d w1 show ?case by simp
qed

lemma CreatePlan_Inr:
  assumes "CreatePlan pg p devices w = (Inr out, w')" and ok: "schema_ok (wdb w)"
  shows "plan_view w' (plan_ID out) = Some out \<and> plan_State out = PlanDraft \<and>
    plan_HouseholdID out = plan_HouseholdID p \<and> plan_StartsAt out = plan_StartsAt p \<and>
    plan_EndsAt out = plan_EndsAt p \<and>
    map pd_DeviceID (filter (\<lambda>l. pd_PlanID l = plan_ID out) (db_plan_devices (wdb w'))) = map pd_DeviceID devices \<and>
    (\<forall>d\<in>set devices. list_ex (enabled_in (pd_DeviceID d) (plan_HouseholdID p)) (db_devices (wdb w)))"
proof -
  from assms(1) obtain w0 w1 w2 where w0: "wdb w0 = wdb w"
      and 1: "stmt (insert_plan p) w0 = (Inr out, w1)"
      and 2: "for_each (\<lambda>d.
             and_then (map_err classify_write_error
                (stmt (insert_plan_device pg (plan_ID out) (pd_DeviceID d) (pd_TargetWatts d)
                         (plan_HouseholdID p)))) (\<lambda>n.
             if n \<noteq> 1 then fail (Wrapf [] ErrConflict ('': plan device '' @ show_int (pd_DeviceID d) @
                 '' is not enabled in household '' @ show_int (plan_HouseholdID p)))
             else ret ())) devices w1 = (Inr (), w2)"
      and w': "wdb w' = wdb w2"
    by (auto simp: CreatePlan_def and_then_eq_Inr elim!: WithTx_Inr)
  from stmt_Inr [OF 1] w0 have i: "insert_plan p (wnow w0) (wdb w) = (Inr out, wdb w1)" by simp
  then have out: "plan_ID out = next_id TPlans (wdb w)" "plan_State out = PlanDraft"
      "plan_HouseholdID out = plan_HouseholdID p" "plan_StartsAt out = plan_StartsAt p"
      "plan_EndsAt out = plan_EndsAt p"
      and w1: "db_plans (wdb w1) = db_plans (wdb w) @ [out]" "db_plan_devices (wdb w1) = db_plan_devices (wdb w)"
        "db_devices (wdb w1) = db_devices (wdb w)"
    by (auto simp: insert_plan_def Let_def insert_row_Inr)
  from insert_plan_devices_Inr [OF 2] obtain ls where
      ls: "db_plan_devices (wdb w2) = db_plan_devices (wdb w1) @ ls" "map pd_DeviceID ls = map pd_DeviceID devices"
        "\<forall>l\<in>set ls. pd_PlanID l = plan_ID out"
      and en: "\<forall>d\<in>set devices. list_ex (enabled_in (pd_DeviceID d) (plan_HouseholdID p)) (db_devices (wdb w1))"
      and w2: "db_plans (wdb w2) = db_plans (wdb w1)" by blast
  have old: "plan_ID x \<noteq> plan_ID out" if "x \<in> set (db_plans (wdb w))" for x
    using schema_keyed(3) [OF ok] that out(1) by (auto simp: keyed_def next_id_def)
  then have none: "one_row (\<lambda>x. plan_ID x = plan_ID out) (db_plans (wdb w)) = Inl ErrNoRows"
    by (auto simp: one_row_Inl list_ex_iff)
  have "one_row (\<lambda>x. plan_ID x = plan_ID out) [out] = Inr out" by (simp add: one_row_def)
  then have "plan_view w' (plan_ID out) = Some out"
    by (simp add: plan_view_Some w' w2 w1 one_row_append none)
  moreover have "pd_PlanID l \<noteq> plan_ID out" if "l \<in> set (db_plan_devices (wdb w))" for l
  proof -
    from ok that obtain h where "(pd_PlanID l, h) \<in> plan_owners (wdb w)"
      by (auto simp: schema_ok_def plan_devices_ok_def)
    with old show ?thesis by (fastforce simp: plan_owners_def)
  qed
  then have "filter (\<lambda>l. pd_PlanID l = plan_ID out) (db_plan_devices (wdb w')) = ls"
    using ls(3) by (simp add: w' ls(1) w1(2) filter_empty_conv)
  ultimately show ?thesis using out ls(2) en w1(3) by simp
qed

lemma check_plan_devices_ok:
  "check_plan_devices seen ds = Inr () \<Longrightarrow>
     distinct (map pd_DeviceID ds) \<and> set (map pd_DeviceID ds) \<inter> set seen = {} \<and>
     (\<forall>d\<in>set ds. 0 < pd_DeviceID d \<and> \<not> pd_TargetWatts d < 0)"
  by (induction seen ds rule: check_plan_devices.induct) (auto split: if_splits)

text \<open>A drafted plan is stored as a draft that lies in the future and spans at most 31 days,
  with the requested devices, at least one and none twice, each enabled and of its household.\<close>

lemma drafted_plan:
  assumes ok: "schema_ok (wdb w)"
    and d: "Draft (repo_plans pg) (wall_clock t) p devices w = (Inr out, w')"
  shows "plan_view w' (plan_ID out) = Some out \<and> plan_State out = PlanDraft \<and>
    t w < plan_StartsAt out \<and> plan_StartsAt out < plan_EndsAt out \<and>
    time_sub (plan_EndsAt out) (plan_StartsAt out) \<le> max_plan \<and>
    map pd_DeviceID (filter (\<lambda>l. pd_PlanID l = plan_ID out) (db_plan_devices (wdb w'))) = map pd_DeviceID devices \<and>
    devices \<noteq> [] \<and> distinct (map pd_DeviceID devices) \<and>
    (\<forall>d\<in>set devices. list_ex (enabled_in (pd_DeviceID d) (plan_HouseholdID out)) (db_devices (wdb w)))"
proof -
  let ?p = "p\<lparr>plan_Name := trim_space (plan_Name p)\<rparr>"
  from d have c: "CreatePlan pg ?p devices w = (Inr out, w')" and n: "devices \<noteq> []"
      and ck: "check_plan_devices [] devices = Inr ()"
      and win: "plan_StartsAt p < plan_EndsAt p" "t w < plan_StartsAt p"
        "time_sub (plan_EndsAt p) (plan_StartsAt p) \<le> max_plan"
    by (auto simp: Draft_def Let_def with_now_def wall_clock_def repo_plans_def
      split: if_splits sum.splits)
  from CreatePlan_Inr [OF c ok] check_plan_devices_ok [OF ck] n win show ?thesis by simp
qed

section \<open>Witnesses\<close>

definition sample_plan :: energy_plan where
  "sample_plan = \<lparr>plan_ID = 1, plan_HouseholdID = 1, plan_Name = ''peak'', plan_State = PlanScheduled,
     plan_BudgetCents = 50, plan_StartsAt = 10, plan_EndsAt = 20, plan_CreatedAt = 2\<rparr>"

definition sample_plans :: world where
  "sample_plans = sample\<lparr>wdb := sample_db\<lparr>db_plans := [sample_plan],
     db_plan_devices := [\<lparr>pd_PlanID = 1, pd_DeviceID = 1, pd_TargetWatts = Fin 5\<rparr>]\<rparr>\<rparr>"

lemma sample_plans_ok: "schema_ok (wdb sample_plans)"
  by (simp add: sample_plans_def sample_plan_def sample_defs schema_ok_def table_oks keyed_def owners
      device_row_ok_def max_i64_def outbox_row_ok_def pending_def)

lemma sample_start:
  "fst (Start_plan (repo_plans (env_pg sample_env)) (wall_clock (\<lambda>_. 12)) 1 sample_plans) = Inr ()"
  by code_simp

text \<open>A scheduled plan is cancelled, and is not one that can be completed.\<close>

lemma plan_lifecycle_witness:
  "plan_view (snd (Cancel_plan (repo_plans (env_pg sample_env)) 1 sample_plans)) 1 =
       Some (sample_plan\<lparr>plan_State := PlanCancelled\<rparr>) \<and>
   plan_view (snd (Complete_plan (repo_plans (env_pg sample_env)) 1 sample_plans)) = plan_view sample_plans"
proof -
  have c: "fst (Cancel_plan (repo_plans (env_pg sample_env)) 1 sample_plans) = Inr ()" by code_simp
  have "fst (Complete_plan (repo_plans (env_pg sample_env)) 1 sample_plans) = Inl ErrConflict" by code_simp
  then have d: "Complete_plan (repo_plans (env_pg sample_env)) 1 sample_plans =
      (Inl ErrConflict, snd (Complete_plan (repo_plans (env_pg sample_env)) 1 sample_plans))" by (metis prod.collapse)
  have "plan_view sample_plans 1 = Some sample_plan"
    by (simp add: plan_view_def sample_plans_def sample_plan_def one_row_def)
  with plan_lifecycle [OF sample_plans_ok, of 1 12 "env_pg sample_env"] outcome_pair [OF c] d
  show ?thesis by (auto simp: plan_moves_def sample_plan_def split: prod.splits)
qed

lemma started_plan_ready_witness:
  "devices_enabled sample_plans 1 1"
  using started_plan_ready [OF sample_plans_ok outcome_pair [OF sample_start]]
  by (auto simp: plan_view_def sample_plans_def sample_plan_def one_row_def)

definition sample_draft :: "(world, energy_plan) action" where
  "sample_draft = Draft (repo_plans (env_pg sample_env)) (wall_clock (\<lambda>_. 3)) sample_plan
     [\<lparr>pd_PlanID = 0, pd_DeviceID = 1, pd_TargetWatts = Fin 5\<rparr>]"

lemma sample_drafted: "map_sum id plan_ID (fst (sample_draft sample)) = Inr 3"
  by code_simp

end
