(* ===== verification/Automation_Service.thy ===== *)
theory Automation_Service
  imports Plan_Service
begin

text \<open>
  \<^verbatim>\<open>internal/service/automation.go\<close>: authoring automations, moving them through their states,
  queueing and executing runs, and the retry delays. As for devices, the repository is a record of
  operations, the locale \<open>automation_store\<close> states what the service relies on, and the database
  interprets it.
\<close>

section \<open>Operations\<close>

record 'w automation_repo =
  ar_CreateAutomation :: "automation \<Rightarrow> automation_action list \<Rightarrow> ('w, automation) action"
  ar_GetAutomation :: "int \<Rightarrow> ('w, automation) action"
  ar_GetDevice :: "int \<Rightarrow> ('w, device) action"
  ar_SetAutomationState :: "int \<Rightarrow> automation_state \<Rightarrow> automation_state \<Rightarrow> ('w, unit) action"
  ar_QueueRun :: "int \<Rightarrow> string \<Rightarrow> ('w, automation_run) action"
  ar_ExecuteAutomationRun :: "int \<Rightarrow> time \<Rightarrow> ('w, unit) action"

definition ValidateAction :: "device_kind \<Rightarrow> string \<Rightarrow> err + unit" where
  "ValidateAction kind a =
     (case kind of
        KindLight \<Rightarrow> if a \<noteq> ''on'' \<and> a \<noteq> ''off'' then Inl ErrInvalid else Inr ()
      | KindThermostat \<Rightarrow> if a \<noteq> ''heat'' \<and> a \<noteq> ''cool'' then Inl ErrInvalid else Inr ()
      | KindLock \<Rightarrow> if a \<noteq> ''lock'' \<and> a \<noteq> ''unlock'' then Inl ErrInvalid else Inr ()
      | _ \<Rightarrow> Inl (Wrapf [] ErrInvalid '': device kind is not commandable''))"

text \<open>
  The loop of \<^verbatim>\<open>Create\<close> over the actions. It trims each action in place; \<open>valid\<close> holds the
  actions already trimmed and checked, whose ordinals are the ones \<^verbatim>\<open>seen\<close>.
\<close>

fun check_actions ::
    "'w automation_repo \<Rightarrow> int \<Rightarrow> automation_action list \<Rightarrow> automation_action list
       \<Rightarrow> ('w, automation_action list) action" where
  "check_actions r household valid [] = ret valid"
| "check_actions r household valid (x # xs) =
     (let x' = x\<lparr>act_Action := trim_space (act_Action x)\<rparr> in
      if act_DeviceID x' \<le> 0 \<or> act_Action x' = [] \<or> act_Ordinal x' < 0 \<or>
         act_Ordinal x' \<in> act_Ordinal ` set valid
      then fail ErrInvalid
      else
        and_then (ar_GetDevice r (act_DeviceID x')) (\<lambda>device.
        if dev_HouseholdID device \<noteq> household \<or> dev_State device \<noteq> DeviceEnabled
        then fail ErrConflict
        else case ValidateAction (dev_Kind device) (act_Action x') of
          Inl e \<Rightarrow> fail e
        | Inr _ \<Rightarrow> check_actions r household (valid @ [x']) xs))"

definition Create_automation ::
    "'w automation_repo \<Rightarrow> automation \<Rightarrow> automation_action list \<Rightarrow> ('w, automation) action" where
  "Create_automation r a0 actions =
     (let a = a0\<lparr>aut_Name := trim_space (aut_Name a0), aut_TriggerKind := trim_space (aut_TriggerKind a0)\<rparr> in
      if aut_HouseholdID a \<le> 0 \<or> aut_Name a = [] \<or> aut_TriggerKind a = [] \<or> actions = []
      then fail ErrInvalid
      else and_then (check_actions r (aut_HouseholdID a) [] actions) (ar_CreateAutomation r a))"

definition Queue :: "'w automation_repo \<Rightarrow> int \<Rightarrow> string \<Rightarrow> ('w, automation_run) action" where
  "Queue r i key =
     (if i \<le> 0 \<or> trim_space key = [] then fail ErrInvalid
      else
        and_then (ar_GetAutomation r i) (\<lambda>a.
        if aut_State a \<noteq> AutomationActive then fail ErrConflict else ar_QueueRun r i key))"

definition Activate :: "'w automation_repo \<Rightarrow> int \<Rightarrow> ('w, unit) action" where
  "Activate r i =
     (if i \<le> 0 then fail ErrInvalid else ar_SetAutomationState r i AutomationDraft AutomationActive)"

definition Pause :: "'w automation_repo \<Rightarrow> int \<Rightarrow> ('w, unit) action" where
  "Pause r i =
     (if i \<le> 0 then fail ErrInvalid else ar_SetAutomationState r i AutomationActive AutomationPaused)"

text \<open>\<open>ctx_err\<close> is the error of the context when it is done already.\<close>

definition Execute :: "'w automation_repo \<Rightarrow> 'w clock \<Rightarrow> err option \<Rightarrow> int \<Rightarrow> ('w, unit) action" where
  "Execute r clock ctx_err i =
     (if i \<le> 0 then fail ErrInvalid
      else case ctx_err of
        Some e \<Rightarrow> fail e
      | None \<Rightarrow> with_now clock (ar_ExecuteAutomationRun r i))"

record retry_policy =
  rp_Limit :: int
  rp_Base :: duration

definition Delay :: "retry_policy \<Rightarrow> int \<Rightarrow> duration" where
  "Delay p attempt =
     (if attempt < 1 then rp_Base p
      else let attempt = (if attempt > 10 then 10 else attempt) in
        wrap64 (rp_Base p * 2 ^ nat (attempt - 1)))"

section \<open>The store of automations\<close>

abbreviation trimmed :: "automation_action \<Rightarrow> automation_action" where
  "trimmed x \<equiv> x\<lparr>act_Action := trim_space (act_Action x)\<rparr>"

definition action_fits :: "(int \<Rightarrow> device option) \<Rightarrow> int \<Rightarrow> automation_action \<Rightarrow> bool" where
  "action_fits devices household x \<longleftrightarrow> 0 \<le> act_Ordinal x \<and> (\<exists>d. devices (act_DeviceID x) = Some d \<and>
     dev_State d = DeviceEnabled \<and> dev_HouseholdID d = household \<and>
     CompatibleAction (dev_Kind d) (trim_space (act_Action x)))"

lemma map_Ordinal_trimmed [simp]: "map (act_Ordinal \<circ> trimmed) xs = map act_Ordinal xs"
  by simp

lemma ValidateAction_CompatibleAction: "ValidateAction k a = Inr () \<longleftrightarrow> CompatibleAction k a"
  by (cases k) (auto simp: ValidateAction_def)

locale automation_store =
  fixes r :: "'w automation_repo"
    and inv :: "'w \<Rightarrow> bool"
    and devices :: "'w \<Rightarrow> int \<Rightarrow> device option"
    and view :: "'w \<Rightarrow> int \<Rightarrow> automation option"
  assumes device_state: "inv w \<Longrightarrow> inv (snd (ar_GetDevice r i w)) \<and>
      devices (snd (ar_GetDevice r i w)) = devices w \<and> view (snd (ar_GetDevice r i w)) = view w"
    and device_Inr: "inv w \<Longrightarrow> ar_GetDevice r i w = (Inr d, w') \<Longrightarrow> devices w i = Some d"
    and set_Inl: "inv w \<Longrightarrow> ar_SetAutomationState r i from to w = (Inl e, w') \<Longrightarrow> view w' = view w"
    and set_Inr: "inv w \<Longrightarrow> ar_SetAutomationState r i from to w = (Inr u, w') \<Longrightarrow>
      \<exists>a. view w i = Some a \<and> aut_State a = from \<and> view w' = (view w)(i \<mapsto> a\<lparr>aut_State := to\<rparr>)"
begin

lemma check_actions_Inr:
  "inv w \<Longrightarrow> check_actions r h valid xs w = (Inr ys, w') \<Longrightarrow> distinct (map act_Ordinal valid) \<Longrightarrow>
     inv w' \<and> devices w' = devices w \<and> view w' = view w \<and> ys = valid @ map trimmed xs \<and>
     distinct (map act_Ordinal ys) \<and> (\<forall>x\<in>set xs. action_fits (devices w) h x)"
proof (induction xs arbitrary: valid w)
  case Nil
  then show ?case by simp
next
  case (Cons x xs)
  from Cons.prems(2) obtain d w1 where get: "ar_GetDevice r (act_DeviceID x) w = (Inr d, w1)"
      and d: "dev_HouseholdID d = h" "dev_State d = DeviceEnabled"
        "CompatibleAction (dev_Kind d) (trim_space (act_Action x))"
      and x: "0 \<le> act_Ordinal x" "act_Ordinal x \<notin> act_Ordinal ` set valid"
      and rest: "check_actions r h (valid @ [trimmed x]) xs w1 = (Inr ys, w')"
    by (auto simp: Let_def and_then_eq_Inr ValidateAction_CompatibleAction [symmetric]
        split: if_splits sum.splits)
  from device_state [OF Cons.prems(1), of "act_DeviceID x"] get
  have w1: "inv w1" "devices w1 = devices w" "view w1 = view w" by simp_all
  have dist: "distinct (map act_Ordinal (valid @ [trimmed x]))" using Cons.prems(3) x(2) by auto
  from device_Inr [OF Cons.prems(1) get] d x(1) have "action_fits (devices w) h x"
    by (auto simp: action_fits_def)
  with Cons.IH [OF w1(1) rest dist] w1(2,3) show ?case by clarify (intro conjI; simp)
qed

lemma Create_Inr:
  assumes "inv w" and "Create_automation r a actions w = (Inr out, w')"
  obtains a' w1 where "ar_CreateAutomation r a' (map trimmed actions) w1 = (Inr out, w')"
    and "inv w1" "devices w1 = devices w" "view w1 = view w" and "aut_HouseholdID a' = aut_HouseholdID a"
    and "actions \<noteq> []" "distinct (map act_Ordinal actions)"
    "\<forall>x\<in>set actions. action_fits (devices w) (aut_HouseholdID a) x"
proof -
  let ?a = "a\<lparr>aut_Name := trim_space (aut_Name a), aut_TriggerKind := trim_space (aut_TriggerKind a)\<rparr>"
  from assms(2) obtain ys w1 where ck: "check_actions r (aut_HouseholdID a) [] actions w = (Inr ys, w1)"
      and c: "ar_CreateAutomation r ?a ys w1 = (Inr out, w')" and "actions \<noteq> []"
    by (auto simp: Create_automation_def Let_def and_then_eq_Inr split: if_splits)
  from check_actions_Inr [OF assms(1) ck] have ys: "ys = map trimmed actions" "inv w1" "devices w1 = devices w"
      "view w1 = view w" "distinct (map act_Ordinal ys)"
      "\<forall>x\<in>set actions. action_fits (devices w) (aut_HouseholdID a) x" by auto
  from ys(5) have "distinct (map act_Ordinal actions)" by (simp add: ys(1))
  with that [of ?a w1] c ys \<open>actions \<noteq> []\<close> show thesis by simp
qed

text \<open>Activating and pausing are the only moves: draft to active, active to paused.\<close>

lemma moves_Inr:
  assumes "inv w" and "m \<in> {(Activate r i, AutomationDraft, AutomationActive), (Pause r i, AutomationActive, AutomationPaused)}"
    and "fst m w = (x, w')"
  shows "case x of Inl e \<Rightarrow> view w' = view w
    | Inr _ \<Rightarrow> \<exists>a. view w i = Some a \<and> aut_State a = fst (snd m) \<and>
        view w' = (view w)(i \<mapsto> a\<lparr>aut_State := snd (snd m)\<rparr>)"
  using assms set_Inl [OF assms(1)] set_Inr [OF assms(1)]
  by (cases x) (auto simp: Activate_def Pause_def split: if_splits)

end

section \<open>Automations on the database\<close>

definition repo_automations :: "world automation_repo" where
  "repo_automations = \<lparr>ar_CreateAutomation = CreateAutomation, ar_GetAutomation = GetAutomation,
     ar_GetDevice = GetDevice, ar_SetAutomationState = SetAutomationState, ar_QueueRun = QueueRun,
     ar_ExecuteAutomationRun = ExecuteAutomationRun\<rparr>"

definition automation_view :: "world \<Rightarrow> int \<Rightarrow> automation option" where
  "automation_view w i =
     (case one_row (\<lambda>a. aut_ID a = i) (db_automations (wdb w)) of Inl _ \<Rightarrow> None | Inr a \<Rightarrow> Some a)"

lemma automation_view_Some:
  "automation_view w i = Some a \<longleftrightarrow> one_row (\<lambda>a. aut_ID a = i) (db_automations (wdb w)) = Inr a"
  by (simp add: automation_view_def split: sum.split)

lemma automation_view_cong: "db_automations (wdb w) = db_automations (wdb w') \<Longrightarrow> automation_view w = automation_view w'"
  by (simp add: automation_view_def fun_eq_iff)

lemma SetAutomationState_Inr:
  assumes "SetAutomationState i from to w = (Inr u, w')" and "schema_ok (wdb w)"
  shows "\<exists>a. automation_view w i = Some a \<and> aut_State a = from \<and>
    automation_view w' = (automation_view w)(i \<mapsto> a\<lparr>aut_State := to\<rparr>)"
proof -
  let ?q = "\<lambda>a. aut_ID a = i \<and> aut_State a = from"
  let ?f = "\<lambda>a. a\<lparr>aut_State := to\<rparr>"
  from assms(1) have s: "stmt (update_automation_state i from to) w = (Inr 1, w')"
    by (auto simp: SetAutomationState_def and_then_eq_Inr split: if_splits)
  then have "(Inr 1, wdb w') = update_automation_state i from to (wnow w) (wdb w)"
    by (auto dest: stmt_Inr)
  then have w': "wdb w' = (wdb w)\<lparr>db_automations := update_where ?q ?f (db_automations (wdb w))\<rparr>"
      and "count_where ?q (db_automations (wdb w)) = 1"
    by (auto simp: update_automation_state_def Let_def)
  then have "list_ex ?q (db_automations (wdb w))"
    using count_where_eq_0 [of ?q "db_automations (wdb w)"] by auto
  then obtain a where a: "a \<in> set (db_automations (wdb w))" "aut_ID a = i" "aut_State a = from"
    by (auto simp: list_ex_iff)
  have row: "one_row (\<lambda>a. aut_ID a = i) (db_automations (wdb w)) = Inr a"
    by (rule one_row_key [where key = aut_ID])
      (use a assms(2) in \<open>simp_all add: schema_ok_def automations_ok_def keyed_def\<close>)
  have other: "one_row (\<lambda>r. aut_ID r = j) (update_where ?q ?f (db_automations (wdb w)))
      = one_row (\<lambda>r. aut_ID r = j) (db_automations (wdb w))" if "j \<noteq> i" for j
    by (rule one_row_update_other) (use that in auto)
  have "automation_view w' j = ((automation_view w)(i \<mapsto> ?f a)) j" for j
  proof (cases "j = i")
    case True
    with row a show ?thesis by (simp add: automation_view_def w' one_row_update)
  next
    case False
    with other [of j] show ?thesis by (simp add: automation_view_def w')
  qed
  with row a show ?thesis by (auto simp: automation_view_Some)
qed

interpretation repo_automation_store: automation_store repo_automations "\<lambda>w. schema_ok (wdb w)" device_view automation_view
proof
  fix w :: world and i
  assume "schema_ok (wdb w)"
  then show "schema_ok (wdb (snd (ar_GetDevice repo_automations i w))) \<and>
      device_view (snd (ar_GetDevice repo_automations i w)) = device_view w \<and>
      automation_view (snd (ar_GetDevice repo_automations i w)) = automation_view w"
    by (auto simp: repo_automations_def intro!: device_view_cong automation_view_cong)
next
  fix w w' :: world and i d
  assume "ar_GetDevice repo_automations i w = (Inr d, w')"
  then show "device_view w i = Some d" by (simp add: repo_automations_def GetDevice_Inr)
next
  fix w w' :: world and i "from" to e
  assume "schema_ok (wdb w)" "ar_SetAutomationState repo_automations i from to w = (Inl e, w')"
  then have "same_tables (wdb w) (wdb w')"
    using atomicD [OF atomic_run_call, of w undefined "Call_SetAutomationState i from to" e w']
    by (simp add: repo_automations_def)
  then show "automation_view w' = automation_view w"
    by (intro automation_view_cong) (simp add: same_tablesD)
next
  fix w w' :: world and i "from" to and u :: unit
  assume "schema_ok (wdb w)" "ar_SetAutomationState repo_automations i from to w = (Inr u, w')"
  then show "\<exists>a. automation_view w i = Some a \<and> aut_State a = from \<and>
      automation_view w' = (automation_view w)(i \<mapsto> a\<lparr>aut_State := to\<rparr>)"
    by (intro SetAutomationState_Inr) (simp_all add: repo_automations_def)
qed

section \<open>Properties\<close>

lemma insert_actions_Inr:
  "for_each (\<lambda>x.
       and_then (map_err classify_write_error (stmt (insert_action i x h))) (\<lambda>n.
       if n \<noteq> 1 then fail (e x) else ret ())) xs w = (Inr u, w') \<Longrightarrow>
     (\<exists>ls. db_actions (wdb w') = db_actions (wdb w) @ ls \<and>
        map (\<lambda>x. (act_DeviceID x, act_Action x, act_Ordinal x)) ls =
          map (\<lambda>x. (act_DeviceID x, act_Action x, act_Ordinal x)) xs \<and> (\<forall>l\<in>set ls. act_AutomationID l = i)) \<and>
     db_automations (wdb w') = db_automations (wdb w) \<and> db_devices (wdb w') = db_devices (wdb w)"
proof (induction xs arbitrary: w)
  case Nil
  then show ?case by simp
next
  case (Cons x xs)
  then obtain w1 where 1: "stmt (insert_action i x h) w = (Inr 1, w1)"
      and 2: "for_each (\<lambda>x.
       and_then (map_err classify_write_error (stmt (insert_action i x h))) (\<lambda>n.
       if n \<noteq> 1 then fail (e x) else ret ())) xs w1 = (Inr u, w')"
    by (auto simp: and_then_eq_Inr split: if_splits)
  from stmt_Inr [OF 1] have "insert_action i x h (wnow w) (wdb w) = (Inr 1, wdb w1)" by simp
  then obtain l where w1: "db_actions (wdb w1) = db_actions (wdb w) @ [l]" "db_automations (wdb w1) = db_automations (wdb w)"
      "db_devices (wdb w1) = db_devices (wdb w)"
      and l: "act_AutomationID l = i" "act_DeviceID l = act_DeviceID x" "act_Action l = act_Action x" "act_Ordinal l = act_Ordinal x"
    by (auto simp: insert_action_def insert_row_Inr Let_def split: if_splits)
  from Cons.IH [OF 2] obtain ls where "db_actions (wdb w') = db_actions (wdb w) @ l # ls"
      "map (\<lambda>x. (act_DeviceID x, act_Action x, act_Ordinal x)) ls =
          map (\<lambda>x. (act_DeviceID x, act_Action x, act_Ordinal x)) xs" "\<forall>l\<in>set ls. act_AutomationID l = i"
    using w1(1) by auto
  then have "\<exists>ls. db_actions (wdb w') = db_actions (wdb w) @ ls \<and>
        map (\<lambda>x. (act_DeviceID x, act_Action x, act_Ordinal x)) ls =
          map (\<lambda>x. (act_DeviceID x, act_Action x, act_Ordinal x)) (x # xs) \<and> (\<forall>l\<in>set ls. act_AutomationID l = i)"
    using l by (intro exI [of _ "l # ls"]) simp
  with Cons.IH [OF 2] w1 show ?case by simp
qed

lemma CreateAutomation_Inr:
  assumes "CreateAutomation a actions w = (Inr out, w')" and ok: "schema_ok (wdb w)"
  shows "automation_view w' (aut_ID out) = Some out \<and> aut_State out = AutomationDraft \<and>
    aut_HouseholdID out = aut_HouseholdID a \<and>
    map (\<lambda>x. (act_DeviceID x, act_Action x, act_Ordinal x))
      (filter (\<lambda>l. act_AutomationID l = aut_ID out) (db_actions (wdb w'))) =
    map (\<lambda>x. (act_DeviceID x, act_Action x, act_Ordinal x)) actions"
proof -
  from assms(1) obtain w0 w1 w2 where w0: "wdb w0 = wdb w"
      and 1: "stmt (insert_automation a) w0 = (Inr out, w1)"
      and 2: "for_each (\<lambda>x.
             and_then (map_err classify_write_error
                (stmt (insert_action (aut_ID out) x (aut_HouseholdID a)))) (\<lambda>n.
             if n \<noteq> 1 then fail (Wrapf [] ErrConflict ('': automation device '' @ show_int (act_DeviceID x) @
                 '' is not enabled in household '' @ show_int (aut_HouseholdID a)))
             else ret ())) actions w1 = (Inr (), w2)"
      and w': "wdb w' = wdb w2"
    by (auto simp: CreateAutomation_def and_then_eq_Inr elim!: WithTx_Inr)
  from stmt_Inr [OF 1] w0 have i: "insert_automation a (wnow w0) (wdb w) = (Inr out, wdb w1)" by simp
  then have out: "aut_ID out = next_id TAutomations (wdb w)" "aut_State out = AutomationDraft"
      "aut_HouseholdID out = aut_HouseholdID a"
      and w1: "db_automations (wdb w1) = db_automations (wdb w) @ [out]" "db_actions (wdb w1) = db_actions (wdb w)"
    by (auto simp: insert_automation_def Let_def insert_row_Inr)
  from insert_actions_Inr [OF 2] obtain ls where
      ls: "db_actions (wdb w2) = db_actions (wdb w1) @ ls"
        "map (\<lambda>x. (act_DeviceID x, act_Action x, act_Ordinal x)) ls =
          map (\<lambda>x. (act_DeviceID x, act_Action x, act_Ordinal x)) actions"
        "\<forall>l\<in>set ls. act_AutomationID l = aut_ID out"
      and w2: "db_automations (wdb w2) = db_automations (wdb w1)" by blast
  have old: "aut_ID x \<noteq> aut_ID out" if "x \<in> set (db_automations (wdb w))" for x
    using ok that out(1) by (auto simp: schema_ok_def automations_ok_def keyed_def next_id_def)
  then have none: "one_row (\<lambda>x. aut_ID x = aut_ID out) (db_automations (wdb w)) = Inl ErrNoRows"
    by (auto simp: one_row_Inl list_ex_iff)
  have "one_row (\<lambda>x. aut_ID x = aut_ID out) [out] = Inr out" by (simp add: one_row_def)
  then have "automation_view w' (aut_ID out) = Some out"
    by (simp add: automation_view_Some w' w2 w1 one_row_append none)
  moreover have "act_AutomationID l \<noteq> aut_ID out" if "l \<in> set (db_actions (wdb w))" for l
  proof -
    from ok that obtain h where "(act_AutomationID l, h) \<in> automation_owners (wdb w)"
      by (auto simp: schema_ok_def actions_ok_def)
    with old show ?thesis by (fastforce simp: automation_owners_def)
  qed
  then have "filter (\<lambda>l. act_AutomationID l = aut_ID out) (db_actions (wdb w')) = ls"
    using ls(3) by (simp add: w' ls(1) w1(2) filter_empty_conv)
  ultimately show ?thesis using out ls(2) by simp
qed

text \<open>A created automation is stored as a draft of its household with the requested actions in
  their order, at least one, no ordinal twice, each trimmed, for an enabled device of the household
  and of a kind that understands it.\<close>

lemma created_automation:
  assumes ok: "schema_ok (wdb w)"
    and c: "Create_automation repo_automations a actions w = (Inr out, w')"
  shows "automation_view w' (aut_ID out) = Some out \<and> aut_State out = AutomationDraft \<and>
    map (\<lambda>x. (act_DeviceID x, act_Action x, act_Ordinal x))
      (filter (\<lambda>l. act_AutomationID l = aut_ID out) (db_actions (wdb w'))) =
    map (\<lambda>x. (act_DeviceID x, trim_space (act_Action x), act_Ordinal x)) actions \<and>
    actions \<noteq> [] \<and> distinct (map act_Ordinal actions) \<and>
    (\<forall>x\<in>set actions. action_fits (device_view w) (aut_HouseholdID out) x)"
proof -
  from ok c obtain a' w1 where *: "ar_CreateAutomation repo_automations a' (map trimmed actions) w1 = (Inr out, w')"
      "schema_ok (wdb w1)" "aut_HouseholdID a' = aut_HouseholdID a" "actions \<noteq> []" "distinct (map act_Ordinal actions)"
      "\<forall>x\<in>set actions. action_fits (device_view w) (aut_HouseholdID a) x"
    by (rule repo_automation_store.Create_Inr)
  from CreateAutomation_Inr [of a' "map trimmed actions" w1 out w'] * show ?thesis
    by (simp add: repo_automations_def comp_def)
qed

text \<open>The outcome of queueing a run when the driver does not fail: 400 for a bad id or key, 404
  for an unknown automation, 409 for one that is not active; otherwise a stored run of that
  automation and key.\<close>

lemma Queue_outcome:
  assumes "wfaults w = []"
  shows "let (x, w') = Queue repo_automations i key w in
    if i \<le> 0 \<or> trim_space key = [] then x = Inl ErrInvalid
    else case automation_view w i of
      None \<Rightarrow> \<exists>e. x = Inl e \<and> ErrorStatus (Some e) = 404
    | Some a \<Rightarrow> if aut_State a \<noteq> AutomationActive then x = Inl ErrConflict
        else \<exists>r\<in>set (db_runs (wdb w')). x = Inr (scan_run r) \<and> rr_AutomationID r = i \<and> rr_IdempotencyKey r = key"
proof (cases "i \<le> 0 \<or> trim_space key = []")
  case True
  then show ?thesis by (auto simp: Queue_def)
next
  case False
  have get: "GetAutomation i w = (map_sum classify_read_error id (one_row (\<lambda>a. aut_ID a = i) (db_automations (wdb w))), w)"
    using assms by (simp add: GetAutomation_def map_err_def query_def stmt_run split: sum.split)
  show ?thesis
  proof (cases "automation_view w i")
    case None
    then obtain e where e: "one_row (\<lambda>a. aut_ID a = i) (db_automations (wdb w)) = Inl e"
      by (auto simp: automation_view_def split: sum.splits)
    then have "e = ErrNoRows" by (simp add: one_row_Inl)
    with e None False get show ?thesis by (simp add: Queue_def repo_automations_def and_then_def)
  next
    case (Some a)
    then have row: "one_row (\<lambda>a. aut_ID a = i) (db_automations (wdb w)) = Inr a" by (simp add: automation_view_Some)
    show ?thesis
    proof (cases "aut_State a = AutomationActive")
      case False
      with row Some \<open>\<not> (i \<le> 0 \<or> trim_space key = [])\<close> get show ?thesis
        by (simp add: Queue_def repo_automations_def and_then_def)
    next
      case True
      with one_row_Inr [OF row] have "list_ex (\<lambda>a. aut_ID a = i \<and> aut_State a = AutomationActive) (db_automations (wdb w))"
        by (auto simp: list_ex_iff)
      with assms have "\<exists>r\<in>set (db_runs (wdb (snd (QueueRun i key w)))). fst (QueueRun i key w) = Inr (scan_run r) \<and>
          rr_AutomationID r = i \<and> rr_IdempotencyKey r = key"
        by (auto simp: QueueRun_def map_err_def stmt_run upsert_run_def Let_def split: sum.split dest: one_row_Inr)
      with True row Some False get show ?thesis
        by (auto simp: Queue_def repo_automations_def and_then_def split: prod.split)
    qed
  qed
qed

text \<open>C21. Activating takes an automation from draft to active and pausing from active to paused; a
  failed attempt changes no automation. So a paused automation stays paused.\<close>

theorem automation_lifecycle:
  assumes "schema_ok (wdb w)"
  shows "(case Activate repo_automations i w of
      (Inl e, w') \<Rightarrow> automation_view w' = automation_view w
    | (Inr _, w') \<Rightarrow> \<exists>a. automation_view w i = Some a \<and> aut_State a = AutomationDraft \<and>
        automation_view w' = (automation_view w)(i \<mapsto> a\<lparr>aut_State := AutomationActive\<rparr>)) \<and>
    (case Pause repo_automations i w of
      (Inl e, w') \<Rightarrow> automation_view w' = automation_view w
    | (Inr _, w') \<Rightarrow> \<exists>a. automation_view w i = Some a \<and> aut_State a = AutomationActive \<and>
        automation_view w' = (automation_view w)(i \<mapsto> a\<lparr>aut_State := AutomationPaused\<rparr>))"
  using repo_automation_store.moves_Inr [OF assms, of "(Activate repo_automations i, AutomationDraft, AutomationActive)" i]
    repo_automation_store.moves_Inr [OF assms, of "(Pause repo_automations i, AutomationActive, AutomationPaused)" i]
  by (auto split: prod.split sum.split)

text \<open>The retry delay grows with the attempt and stays between the base and 512 times the base,
  without overflow as long as the base is at most a 512th of the range.\<close>

lemma Delay_bounds:
  assumes "0 \<le> rp_Base p" and "rp_Base p \<le> max_i64 div 512"
  shows "rp_Base p \<le> Delay p a \<and> Delay p a \<le> 512 * rp_Base p \<and> (a \<le> b \<longrightarrow> Delay p a \<le> Delay p b) \<and>
    (1 \<le> a \<and> a < 10 \<longrightarrow> Delay p (a + 1) = 2 * Delay p a)"
proof -
  define e where "e n = nat (min n 10 - 1)" for n :: int
  have pow: "(2::int) ^ e n \<le> 2 ^ 9" for n
    by (intro power_increasing) (auto simp: e_def)
  have D: "Delay p n = rp_Base p * 2 ^ e n" for n
  proof (cases "n < 1")
    case True
    then show ?thesis by (simp add: Delay_def e_def)
  next
    case False
    have "rp_Base p * 2 ^ e n \<le> rp_Base p * 2 ^ 9"
      using assms(1) pow by (intro mult_left_mono) auto
    also have "\<dots> \<le> max_i64" using assms(2) by (simp add: max_i64_def)
    finally have "wrap64 (rp_Base p * 2 ^ e n) = rp_Base p * 2 ^ e n"
      using assms(1) by (intro wrap64_id) (auto simp: min_i64_def intro: order_trans [of _ 0])
    with False show ?thesis by (auto simp: Delay_def e_def min_def Let_def split: if_splits)
  qed
  have "rp_Base p * 1 \<le> rp_Base p * 2 ^ e a"
    using assms(1) by (intro mult_left_mono) auto
  moreover have "rp_Base p * 2 ^ e a \<le> rp_Base p * 2 ^ 9"
    using assms(1) pow by (intro mult_left_mono) auto
  moreover have "a \<le> b \<Longrightarrow> rp_Base p * 2 ^ e a \<le> rp_Base p * 2 ^ e b"
    using assms(1) by (intro mult_left_mono power_increasing) (auto simp: e_def)
  moreover have "1 \<le> a \<Longrightarrow> a < 10 \<Longrightarrow> e (a + 1) = Suc (e a)" by (auto simp: e_def)
  ultimately show ?thesis by (auto simp: D)
qed

section \<open>Witnesses\<close>

definition sample_automation :: automation where
  "sample_automation = \<lparr>aut_ID = 0, aut_HouseholdID = 1, aut_Name = ''evening '', aut_State = AutomationDraft,
     aut_TriggerKind = ''manual'', aut_CreatedAt = 0\<rparr>"

definition sample_create :: "(world, automation) action" where
  "sample_create = Create_automation repo_automations sample_automation
     [\<lparr>act_ID = 0, act_AutomationID = 0, act_DeviceID = 1, act_Action = '' on '', act_Ordinal = 0\<rparr>]"

lemma sample_created: "map_sum id aut_ID (fst (sample_create sample)) = Inr 3"
  by code_simp

lemma automation_lifecycle_witness:
  "\<exists>a. automation_view sample 1 = Some a \<and> aut_State a = AutomationActive \<and>
     automation_view (snd (Pause repo_automations 1 sample)) 1 = Some (a\<lparr>aut_State := AutomationPaused\<rparr>)"
proof -
  have "fst (Pause repo_automations 1 sample) = Inr ()" by code_simp
  from automation_lifecycle [of sample 1] sample_ok outcome_pair [OF this] show ?thesis
    by (auto split: prod.splits)
qed

end
