(* ===== verification/Encoding.thy ===== *)
theory Encoding
  imports Prelude
begin

text \<open>
  The text encodings the program uses from the standard library: \<^verbatim>\<open>strings.Split\<close>,
  \<^verbatim>\<open>strconv.Atoi\<close> and the unpadded base64 of \<^verbatim>\<open>base64.RawStdEncoding\<close>.
\<close>

section \<open>strings.Split and strconv.Atoi\<close>

fun split_on :: "char \<Rightarrow> string \<Rightarrow> string list" where
  "split_on sep [] = [[]]"
| "split_on sep (c # cs) =
     (if c = sep then [] # split_on sep cs
      else (case split_on sep cs of p # ps \<Rightarrow> (c # p) # ps | [] \<Rightarrow> [[c]]))"

lemma split_on_nonempty [simp]: "split_on sep s \<noteq> []"
  by (induction s) (auto split: list.split)

lemma split_on_plain: "sep \<notin> set s \<Longrightarrow> split_on sep s = [s]"
  by (induction s) auto

lemma split_on_append: "sep \<notin> set p \<Longrightarrow> split_on sep (p @ sep # s) = p # split_on sep s"
  by (induction p) (auto split: list.split)

fun read_digits :: "nat \<Rightarrow> string \<Rightarrow> nat option" where
  "read_digits n [] = Some n"
| "read_digits n (c # cs) =
     (let d = (of_char c :: nat) in
      if 48 \<le> d \<and> d \<le> 57 then read_digits (10 * n + (d - 48)) cs else None)"

definition read_nat :: "string \<Rightarrow> nat option" where
  "read_nat s = (if s = [] then None else read_digits 0 s)"

text \<open>An optional sign, digits, and a value in the range of a 64-bit \<^verbatim>\<open>int\<close>.\<close>

definition atoi :: "string \<Rightarrow> int option" where
  "atoi s =
     (let (sign, ds) = (case s of [] \<Rightarrow> (1, [])
        | c # cs \<Rightarrow> if c = CHR ''-'' then (-1, cs) else if c = CHR ''+'' then (1, cs) else (1, c # cs))
      in case read_nat ds of
           None \<Rightarrow> None
         | Some n \<Rightarrow> let v = sign * int n in if min_i64 \<le> v \<and> v \<le> max_i64 then Some v else None)"

lemma of_char_digit: "d < 10 \<Longrightarrow> (of_char (digit d) :: nat) = 48 + d"
  by (simp add: digit_def)

lemma digit_inject: "d < 10 \<Longrightarrow> digit d = char_of e \<Longrightarrow> e < 256 \<Longrightarrow> e = 48 + d"
  by (metis digit_def of_char_of of_char_digit mod_less)

lemma read_digits_append: "read_digits n (s @ t) = (case read_digits n s of None \<Rightarrow> None | Some m \<Rightarrow> read_digits m t)"
  by (induction n s rule: read_digits.induct) (auto simp: Let_def)

lemma read_digits_show: "read_digits 0 (show_nat n) = Some n"
proof (induction n rule: show_nat.induct)
  case (1 n)
  show ?case
  proof (cases "n < 10")
    case True
    then show ?thesis by (simp add: show_nat.simps of_char_digit)
  next
    case False
    with 1 show ?thesis
      by (simp add: show_nat.simps [of n] read_digits_append of_char_digit)
  qed
qed

lemma show_nat_chars: "c \<in> set (show_nat n) \<Longrightarrow> \<exists>d<10. c = digit d"
proof (induction n rule: show_nat.induct)
  case (1 n)
  show ?case
  proof (cases "n < 10")
    case True
    with 1(2) show ?thesis by (auto simp: show_nat.simps [of n])
  next
    case False
    with 1(2) have "c \<in> set (show_nat (n div 10)) \<or> c = digit (n mod 10)" by (auto simp: show_nat.simps [of n])
    moreover have "n mod 10 < 10" by simp
    ultimately show ?thesis using False 1(1) by blast
  qed
qed

lemma show_nat_nonempty [simp]: "show_nat n \<noteq> []"
  by (simp add: show_nat.simps [of n])

lemma show_nat_plain: "(of_char c :: nat) < 48 \<Longrightarrow> c \<notin> set (show_nat n)"
  using show_nat_chars [of c n] of_char_digit by fastforce

text \<open>A decimal reads back as the number.\<close>

lemma atoi_show_nat:
  assumes "int n \<le> max_i64"
  shows "atoi (show_nat n) = Some (int n)"
proof -
  obtain c cs where s: "show_nat n = c # cs" using show_nat_nonempty by (metis list.exhaust)
  then have "c \<noteq> CHR ''-''" "c \<noteq> CHR ''+''"
    using show_nat_plain [of "CHR ''-''" n] show_nat_plain [of "CHR ''+''" n] by auto
  with s read_digits_show [of n] assms show ?thesis
    by (simp add: atoi_def read_nat_def min_i64_def)
qed

section \<open>Base64\<close>

text \<open>A byte is a number below 256, a sextet one below 64.\<close>

definition b64_alphabet :: string where
  "b64_alphabet = ''ABCDEFGHIJKLMNOPQRSTUVWXYZabcdefghijklmnopqrstuvwxyz0123456789+/''"

definition b64_char :: "nat \<Rightarrow> char" where
  "b64_char n = b64_alphabet ! n"

definition b64_value :: "char \<Rightarrow> nat option" where
  "b64_value c = (let n = length (takeWhile (\<lambda>d. d \<noteq> c) b64_alphabet) in if n < 64 then Some n else None)"

fun sextets :: "nat list \<Rightarrow> nat list" where
  "sextets [] = []"
| "sextets [a] = [a div 4, a mod 4 * 16]"
| "sextets [a, b] = [a div 4, a mod 4 * 16 + b div 16, b mod 16 * 4]"
| "sextets (a # b # c # bs) =
     [a div 4, a mod 4 * 16 + b div 16, b mod 16 * 4 + c div 64, c mod 64] @ sextets bs"

text \<open>The unused low bits of the last sextet are ignored, as outside of strict mode.\<close>

fun octets :: "nat list \<Rightarrow> nat list option" where
  "octets [] = Some []"
| "octets [w] = None"
| "octets [w, x] = Some [(w * 4 + x div 16) mod 256]"
| "octets [w, x, y] = Some [(w * 4 + x div 16) mod 256, (x * 16 + y div 4) mod 256]"
| "octets (w # x # y # z # ss) =
     (case octets ss of None \<Rightarrow> None
      | Some bs \<Rightarrow> Some ([(w * 4 + x div 16) mod 256, (x * 16 + y div 4) mod 256, (y * 64 + z) mod 256] @ bs))"

definition b64_encode :: "string \<Rightarrow> string" where
  "b64_encode s = map b64_char (sextets (map of_char s))"

text \<open>Carriage returns and line feeds are skipped, any other foreign character is an error.\<close>

definition b64_decode :: "string \<Rightarrow> string option" where
  "b64_decode s =
     (let vs = map b64_value (filter (\<lambda>c. c \<noteq> CHR 0x0A \<and> c \<noteq> CHR 0x0D) s) in
      if None \<in> set vs then None else map_option (map char_of) (octets (map the vs)))"

lemma b64_chars:
  "list_all (\<lambda>n. b64_value (b64_char n) = Some n \<and>
     b64_char n \<noteq> CHR 0x0A \<and> b64_char n \<noteq> CHR 0x0D \<and> b64_char n \<noteq> CHR ''$'') [0..<64]"
  by code_simp

lemma b64_char_facts:
  assumes "n < 64"
  shows "b64_value (b64_char n) = Some n" and "b64_char n \<noteq> CHR 0x0A" and "b64_char n \<noteq> CHR 0x0D"
    and "b64_char n \<noteq> CHR ''$''"
  using b64_chars assms by (auto simp: list_all_iff)

lemma sextets_small: "\<forall>b\<in>set bs. b < 256 \<Longrightarrow> n \<in> set (sextets bs) \<Longrightarrow> n < 64"
  by (induction bs rule: sextets.induct) (auto simp: less_mult_imp_div_less)

lemma join_octets:
  fixes a b c :: nat
  shows "a < 256 \<Longrightarrow> k < 16 \<Longrightarrow> (a div 4 * 4 + (a mod 4 * 16 + k) div 16) mod 256 = a"
    and "b < 256 \<Longrightarrow> k < 4 \<Longrightarrow> ((m * 16 + b div 16) * 16 + (b mod 16 * 4 + k) div 4) mod 256 = b"
    and "c < 256 \<Longrightarrow> ((m * 4 + c div 64) * 64 + c mod 64) mod 256 = c"
proof -
  show "(a div 4 * 4 + (a mod 4 * 16 + k) div 16) mod 256 = a" if "a < 256" "k < 16"
  proof -
    from that have "(a mod 4 * 16 + k) div 16 = a mod 4" by simp
    with that(1) show ?thesis by simp
  qed
  show "((m * 16 + b div 16) * 16 + (b mod 16 * 4 + k) div 4) mod 256 = b" if "b < 256" "k < 4"
  proof -
    from that(2) have "(b mod 16 * 4 + k) div 4 = b mod 16" by simp
    then have "(m * 16 + b div 16) * 16 + (b mod 16 * 4 + k) div 4 = b + m * 256"
      by (simp add: algebra_simps)
    with that(1) show ?thesis by simp
  qed
  show "((m * 4 + c div 64) * 64 + c mod 64) mod 256 = c" if "c < 256"
  proof -
    have "(m * 4 + c div 64) * 64 + c mod 64 = c + m * 256" by (simp add: algebra_simps)
    with that show ?thesis by simp
  qed
qed

lemma octets_sextets: "\<forall>b\<in>set bs. b < 256 \<Longrightarrow> octets (sextets bs) = Some bs"
proof (induction bs rule: sextets.induct)
  case (2 a)
  with join_octets(1) [of a 0] show ?case by simp
next
  case (3 a b)
  then have "b < 256" by simp
  then have "b div 16 < 16" by (simp add: less_mult_imp_div_less)
  with 3 show ?case
    using join_octets(1) [of a "b div 16"] join_octets(2) [of b 0 "a mod 4"] by (simp del: div_mult_self3 div_mult_self4)
next
  case (4 a b c bs)
  then have "octets (sextets bs) = Some bs" by simp
  moreover from 4(2) have "b < 256" "c < 256" by simp_all
  then have "b div 16 < 16" "c div 64 < 4" by (simp_all add: less_mult_imp_div_less)
  ultimately show ?case
    using 4(2) join_octets(1) [of a "b div 16"] join_octets(2) [of b "c div 64" "a mod 4"]
      join_octets(3) [of c "b mod 16"] by simp
qed simp

text \<open>Decoding what was encoded gives it back; a dollar sign is never part of it.\<close>

lemma b64_roundtrip: "b64_decode (b64_encode s) = Some s"
proof -
  let ?ss = "sextets (map of_char s)"
  have b: "\<forall>b\<in>set (map of_char s). b < (256 :: nat)" by auto
  have small: "n < 64" if "n \<in> set ?ss" for n using sextets_small [OF b that] .
  have "filter (\<lambda>c. c \<noteq> CHR 0x0A \<and> c \<noteq> CHR 0x0D) (b64_encode s) = b64_encode s"
    using small b64_char_facts(2,3) by (auto simp: b64_encode_def filter_id_conv)
  moreover have "map b64_value (b64_encode s) = map Some ?ss"
    using small b64_char_facts(1) by (simp add: b64_encode_def)
  ultimately show ?thesis
    using octets_sextets [OF b] by (simp add: b64_decode_def comp_def)
qed

lemma b64_no_dollar: "CHR ''$'' \<notin> set (b64_encode s)"
  using sextets_small [of "map of_char s"] b64_char_facts(4) by (fastforce simp: b64_encode_def)

end
