(* ===== verification/Auth_Service.thy ===== *)
theory Auth_Service
  imports Plan_Service Encoding Frames
begin

text \<open>
  \<^verbatim>\<open>internal/service/auth.go\<close>, \<^verbatim>\<open>authorization.go\<close> and \<^verbatim>\<open>households.go\<close>:
  password records, registration, login, the authorization of a session, logout and the onboarding
  of households. The source of randomness, the key derivation and the generator of UUIDs are the
  record \<open>crypto\<close>; base64, \<^verbatim>\<open>strings.Split\<close> and \<^verbatim>\<open>strconv.Atoi\<close> are defined.
\<close>

section \<open>Passwords\<close>

record 'w crypto =
  cr_rand :: "nat \<Rightarrow> ('w, string) action"
  cr_pbkdf2 :: "string \<Rightarrow> string \<Rightarrow> int \<Rightarrow> nat \<Rightarrow> err + string"
  cr_uuid :: "'w \<Rightarrow> string \<times> 'w"

definition passwordIterations :: int where
  "passwordIterations = 210000"

definition passwordSaltBytes :: nat where
  "passwordSaltBytes = 16"

definition passwordKeyBytes :: nat where
  "passwordKeyBytes = 32"

definition hashPassword :: "'w crypto \<Rightarrow> string \<Rightarrow> ('w, string) action" where
  "hashPassword c password =
     and_then (map_err (wrap_op ''generate password salt'') (cr_rand c passwordSaltBytes)) (\<lambda>salt.
     case cr_pbkdf2 c password salt passwordIterations passwordKeyBytes of
       Inl e \<Rightarrow> fail (wrap_op ''derive password hash'' e)
     | Inr key \<Rightarrow> ret (''pbkdf2-sha256$'' @ show_int passwordIterations @ ''$'' @ b64_encode salt @ ''$'' @ b64_encode key))"

definition passwordMatches :: "'w crypto \<Rightarrow> string \<Rightarrow> string \<Rightarrow> bool" where
  "passwordMatches c encoded password =
     (case split_on (CHR ''$'') encoded of
        [scheme, iters, salt64, key64] \<Rightarrow>
          if scheme \<noteq> ''pbkdf2-sha256'' then False
          else (case atoi iters of
            None \<Rightarrow> False
          | Some iterations \<Rightarrow>
              if iterations < 100000 \<or> iterations > 2000000 then False
              else (case b64_decode salt64 of
                None \<Rightarrow> False
              | Some salt \<Rightarrow>
                  if length salt < passwordSaltBytes then False
                  else (case b64_decode key64 of
                    None \<Rightarrow> False
                  | Some expected \<Rightarrow>
                      if length expected \<noteq> passwordKeyBytes then False
                      else (case cr_pbkdf2 c password salt iterations (length expected) of
                        Inl _ \<Rightarrow> False
                      | Inr actual \<Rightarrow> actual = expected))))
      | _ \<Rightarrow> False)"

section \<open>AuthService\<close>

record 'w auth_repo =
  au_AddMember :: "int \<Rightarrow> string \<Rightarrow> string \<Rightarrow> role \<Rightarrow> ('w, member) action"
  au_FindMember :: "int \<Rightarrow> string \<Rightarrow> ('w, member \<times> string) action"
  au_CreateSession :: "session \<Rightarrow> ('w, unit) action"
  au_GetSession :: "string \<Rightarrow> ('w, session) action"
  au_MemberByID :: "int \<Rightarrow> ('w, member) action"
  au_RevokeSession :: "string \<Rightarrow> time \<Rightarrow> ('w, unit) action"

definition Register ::
    "(string \<Rightarrow> string) \<Rightarrow> 'w crypto \<Rightarrow> 'w auth_repo \<Rightarrow> int \<Rightarrow> string \<Rightarrow> string \<Rightarrow> role \<Rightarrow> ('w, member) action" where
  "Register u c r householdID email0 password rl =
     (let email = trim_space (to_lower u email0) in
      if householdID \<le> 0 \<or> length password < 10 \<or> ValidateEmail email \<noteq> Inr () then fail ErrInvalid
      else and_then (hashPassword c password) (\<lambda>hash. au_AddMember r householdID email hash rl))"

definition Login ::
    "(string \<Rightarrow> string) \<Rightarrow> 'w crypto \<Rightarrow> 'w auth_repo \<Rightarrow> 'w clock \<Rightarrow> duration \<Rightarrow> int \<Rightarrow> string \<Rightarrow> string
       \<Rightarrow> ('w, session \<times> member) action" where
  "Login u c r clock ttl householdID email password =
     and_then (map_err (\<lambda>_. ErrForbidden) (au_FindMember r householdID (to_lower u (trim_space email))))
       (\<lambda>(m, hash).
     if \<not> mem_Active m \<or> \<not> passwordMatches c hash password then fail ErrForbidden
     else with_now clock (\<lambda>now w. case cr_uuid c w of (i, w') \<Rightarrow>
       let sess = \<lparr>ses_ID = i, ses_MemberID = mem_ID m, ses_ExpiresAt = now + ttl, ses_RevokedAt = None,
                   ses_CreatedAt = now\<rparr> in
       and_then (map_err (wrap_op ''create session'') (au_CreateSession r sess)) (\<lambda>_.
       ret (sess, m)) w'))"

definition EnsureRole :: "role \<Rightarrow> role \<Rightarrow> err + unit" where
  "EnsureRole actual required =
     (case (role_levels actual, role_levels required) of
        (Some actualRank, Some requiredRank) \<Rightarrow>
          if actualRank < requiredRank
          then Inl (Wrapf [] ErrForbidden ('': role '' @ actual @ '' does not satisfy '' @ required))
          else Inr ()
      | _ \<Rightarrow> Inl (Wrapf [] ErrForbidden ('': role '' @ actual @ '' does not satisfy '' @ required)))"

definition Authorize :: "'w auth_repo \<Rightarrow> 'w clock \<Rightarrow> string \<Rightarrow> role \<Rightarrow> ('w, member) action" where
  "Authorize r clock sessionID required =
     (if trim_space sessionID = [] then fail ErrForbidden
      else
        and_then (map_err (\<lambda>_. ErrForbidden) (au_GetSession r sessionID)) (\<lambda>sess.
        if ses_RevokedAt sess \<noteq> None then fail ErrForbidden
        else with_now clock (\<lambda>now.
        if \<not> now < ses_ExpiresAt sess then fail ErrForbidden
        else
          and_then (map_err (\<lambda>_. ErrForbidden) (au_MemberByID r (ses_MemberID sess))) (\<lambda>m.
          if \<not> mem_Active m then fail ErrForbidden
          else case EnsureRole (mem_Role m) required of Inl e \<Rightarrow> fail e | Inr _ \<Rightarrow> ret m))))"

definition Logout :: "'w auth_repo \<Rightarrow> 'w clock \<Rightarrow> string \<Rightarrow> ('w, unit) action" where
  "Logout r clock sessionID =
     (if sessionID = [] then fail ErrInvalid else with_now clock (au_RevokeSession r sessionID))"

section \<open>AuthorizationService\<close>

definition Require :: "(int \<Rightarrow> ('w, member) action) \<Rightarrow> int \<Rightarrow> role \<Rightarrow> ('w, member) action" where
  "Require member_by_id memberID required =
     and_then (map_err (wrap_op ''authorize member'') (member_by_id memberID)) (\<lambda>m.
     if \<not> mem_Active m then fail ErrForbidden
     else case EnsureRole (mem_Role m) required of Inl e \<Rightarrow> fail e | Inr _ \<Rightarrow> ret m)"

definition CanManageDevices :: "role \<Rightarrow> bool" where
  "CanManageDevices r \<longleftrightarrow> r = RoleOwner \<or> r = RoleOperator"

definition CanViewReports :: "role \<Rightarrow> bool" where
  "CanViewReports r \<longleftrightarrow> r = RoleOwner \<or> r = RoleOperator \<or> r = RoleViewer"

section \<open>HouseholdService\<close>

text \<open>\<open>zone\<close> stands for \<^verbatim>\<open>time.LoadLocation\<close>: whether the zone database knows the name.\<close>

record 'w household_repo =
  hr_CreateHousehold :: "string \<Rightarrow> string \<Rightarrow> int \<Rightarrow> ('w, household) action"
  hr_CreateHouseholdWithOwner ::
    "string \<Rightarrow> string \<Rightarrow> int \<Rightarrow> string \<Rightarrow> string \<Rightarrow> ('w, household \<times> member) action"
  hr_AddMember :: "int \<Rightarrow> string \<Rightarrow> string \<Rightarrow> role \<Rightarrow> ('w, member) action"

definition Onboard ::
    "(string \<Rightarrow> string) \<Rightarrow> (string \<Rightarrow> bool) \<Rightarrow> 'w crypto \<Rightarrow> 'w household_repo \<Rightarrow> string \<Rightarrow> string \<Rightarrow> int
       \<Rightarrow> string \<Rightarrow> string \<Rightarrow> ('w, household \<times> member) action" where
  "Onboard u zone c r name0 timezone0 budget email0 password =
     (let name = trim_space name0; timezone = trim_space timezone0; email = trim_space (to_lower u email0) in
      if name = [] \<or> budget < 0 \<or> length password < 10 \<or> ValidateEmail email \<noteq> Inr () then fail ErrInvalid
      else if \<not> zone timezone then fail ErrInvalid
      else and_then (hashPassword c password) (\<lambda>hash.
        hr_CreateHouseholdWithOwner r name timezone budget email hash))"

definition Create_household ::
    "(string \<Rightarrow> bool) \<Rightarrow> 'w household_repo \<Rightarrow> string \<Rightarrow> string \<Rightarrow> int \<Rightarrow> ('w, household) action" where
  "Create_household zone r name0 timezone0 budget =
     (let name = trim_space name0; timezone = trim_space timezone0 in
      if name = [] \<or> budget < 0 then fail ErrInvalid
      else if \<not> zone timezone then fail ErrInvalid
      else hr_CreateHousehold r name timezone budget)"

definition Add_member ::
    "(string \<Rightarrow> string) \<Rightarrow> 'w crypto \<Rightarrow> 'w household_repo \<Rightarrow> int \<Rightarrow> string \<Rightarrow> string \<Rightarrow> role \<Rightarrow> ('w, member) action" where
  "Add_member u c r h email0 password rl =
     (let email = trim_space (to_lower u email0) in
      if h \<le> 0 \<or> length password < 10 \<or> ValidateEmail email \<noteq> Inr () then fail ErrInvalid
      else if rl \<notin> {RoleOwner, RoleOperator, RoleViewer} then fail ErrInvalid
      else and_then (hashPassword c password) (\<lambda>hash. hr_AddMember r h email hash rl))"

section \<open>Password records read back\<close>

text \<open>What the standard library promises: as many random bytes, and a key as long, as asked for.\<close>

definition crypto_ok :: "'w crypto \<Rightarrow> bool" where
  "crypto_ok c \<longleftrightarrow> (\<forall>n w s w'. cr_rand c n w = (Inr s, w') \<longrightarrow> length s = n) \<and>
     (\<forall>p s i n k. cr_pbkdf2 c p s i n = Inr k \<longrightarrow> length k = n)"

lemma digits_210000: "show_nat 210000 = ''210000''"
proof -
  have "digit 0 = CHR ''0''" "digit 1 = CHR ''1''" "digit 2 = CHR ''2''" by code_simp+
  then show ?thesis by (simp add: show_nat.simps)
qed

lemma hashPassword_Inr:
  "hashPassword c pw w = (Inr h, w') \<Longrightarrow> \<exists>salt key. cr_rand c passwordSaltBytes w = (Inr salt, w') \<and>
     cr_pbkdf2 c pw salt passwordIterations passwordKeyBytes = Inr key \<and>
     h = ''pbkdf2-sha256$210000$'' @ b64_encode salt @ ''$'' @ b64_encode key"
proof -
  assume "hashPassword c pw w = (Inr h, w')"
  then obtain salt w1 where r: "cr_rand c passwordSaltBytes w = (Inr salt, w1)"
      and k: "(case cr_pbkdf2 c pw salt passwordIterations passwordKeyBytes of
        Inl e \<Rightarrow> fail (wrap_op ''derive password hash'' e)
      | Inr key \<Rightarrow> ret (''pbkdf2-sha256$'' @ show_int passwordIterations @ ''$'' @ b64_encode salt @ ''$'' @
          b64_encode key)) w1 = (Inr h, w')"
    by (auto simp: hashPassword_def and_then_eq_Inr)
  moreover have "show_int passwordIterations = ''210000''"
    by (simp add: show_int_def passwordIterations_def digits_210000)
  ultimately show ?thesis
    by (cases "cr_pbkdf2 c pw salt passwordIterations passwordKeyBytes") auto
qed

lemma split_record:
  "split_on (CHR ''$'') (''pbkdf2-sha256$210000$'' @ b64_encode salt @ ''$'' @ b64_encode key) =
     [''pbkdf2-sha256'', ''210000'', b64_encode salt, b64_encode key]"
proof -
  have "''pbkdf2-sha256$210000$'' @ b64_encode salt @ ''$'' @ b64_encode key =
      ''pbkdf2-sha256'' @ CHR ''$'' # ''210000'' @ CHR ''$'' # b64_encode salt @ CHR ''$'' # b64_encode key"
    by simp
  then show ?thesis
    by (simp only:) (simp add: split_on_append split_on_plain b64_no_dollar del: append_Cons)
qed

lemma matches_record:
  assumes "length salt = 16" and "length key = 32"
  shows "passwordMatches c (''pbkdf2-sha256$210000$'' @ b64_encode salt @ ''$'' @ b64_encode key) pw \<longleftrightarrow>
    cr_pbkdf2 c pw salt 210000 32 = Inr key"
proof -
  have "atoi ''210000'' = Some 210000"
    using atoi_show_nat [of 210000] by (simp add: digits_210000 max_i64_def)
  then show ?thesis
    unfolding passwordMatches_def split_record
    by (simp add: b64_roundtrip assms passwordSaltBytes_def passwordKeyBytes_def split: sum.split)
qed

text \<open>C15. A stored password record accepts the password it was made from, and another password only
  if the key derived from it with the record's salt is the same.\<close>

theorem password_roundtrip:
  assumes "crypto_ok c" and "hashPassword c pw w = (Inr h, w')"
  shows "passwordMatches c h pw \<and>
    (\<exists>salt key. cr_rand c 16 w = (Inr salt, w') \<and> cr_pbkdf2 c pw salt 210000 32 = Inr key \<and>
       (\<forall>pw'. passwordMatches c h pw' \<longleftrightarrow> cr_pbkdf2 c pw' salt 210000 32 = Inr key))"
proof -
  from hashPassword_Inr [OF assms(2)] obtain salt key where
      s: "cr_rand c 16 w = (Inr salt, w')" and k: "cr_pbkdf2 c pw salt 210000 32 = Inr key"
      and h: "h = ''pbkdf2-sha256$210000$'' @ b64_encode salt @ ''$'' @ b64_encode key"
    by (auto simp: passwordSaltBytes_def passwordKeyBytes_def passwordIterations_def)
  from assms(1) s k have len: "length salt = 16" "length key = 32" by (auto simp: crypto_ok_def)
  have "passwordMatches c h pw' \<longleftrightarrow> cr_pbkdf2 c pw' salt 210000 32 = Inr key" for pw'
    unfolding h by (rule matches_record [OF len])
  with s k show ?thesis by blast
qed

section \<open>The store of members and sessions\<close>

lemma EnsureRole_Inr:
  "EnsureRole actual required = Inr () \<longleftrightarrow>
     (\<exists>a q. role_levels actual = Some a \<and> role_levels required = Some q \<and> q \<le> a)"
  by (auto simp: EnsureRole_def split: option.splits)

lemma EnsureRole_Inl: "EnsureRole actual required = Inl e \<Longrightarrow> ErrorStatus (Some e) = 403"
  by (auto simp: EnsureRole_def split: option.splits if_splits)

text \<open>The service and the model agree on who may do what.\<close>

lemma EnsureRole_Member_Can: "mem_Active m \<Longrightarrow> EnsureRole (mem_Role m) r = Inr () \<longleftrightarrow> Member_Can m r"
  by (auto simp: EnsureRole_Inr Member_Can_def split: option.splits)

locale auth_store =
  fixes r :: "'w auth_repo"
    and clock :: "'w clock"
    and session_of :: "'w \<Rightarrow> string \<Rightarrow> session option"
    and member_of :: "'w \<Rightarrow> int \<Rightarrow> member option"
  assumes clock_state: "session_of (snd (clock w)) = session_of w \<and> member_of (snd (clock w)) = member_of w"
    and session_state: "session_of (snd (au_GetSession r i w)) = session_of w \<and>
      member_of (snd (au_GetSession r i w)) = member_of w"
    and session_Inr: "au_GetSession r i w = (Inr s, w') \<Longrightarrow> session_of w i = Some s"
    and member_Inr: "au_MemberByID r m w = (Inr x, w') \<Longrightarrow> member_of w m = Some x"
begin

lemma Authorize_Inr:
  assumes "Authorize r clock i required w = (Inr m, w')"
  shows "\<exists>s w1. session_of w i = Some s \<and> ses_RevokedAt s = None \<and> session_of w1 = session_of w \<and>
    member_of w1 = member_of w \<and> fst (clock w1) < ses_ExpiresAt s \<and>
    member_of w (ses_MemberID s) = Some m \<and> Member_Can m required"
proof -
  from assms obtain s w1 where get: "au_GetSession r i w = (Inr s, w1)" and "ses_RevokedAt s = None"
      and rest: "with_now clock (\<lambda>now.
        if \<not> now < ses_ExpiresAt s then fail ErrForbidden
        else
          and_then (map_err (\<lambda>_. ErrForbidden) (au_MemberByID r (ses_MemberID s))) (\<lambda>m.
          if \<not> mem_Active m then fail ErrForbidden
          else case EnsureRole (mem_Role m) required of Inl e \<Rightarrow> fail e | Inr _ \<Rightarrow> ret m)) w1 = (Inr m, w')"
    by (auto simp: Authorize_def and_then_eq_Inr split: if_splits)
  from rest have now: "fst (clock w1) < ses_ExpiresAt s" and
      mem: "au_MemberByID r (ses_MemberID s) (snd (clock w1)) = (Inr m, w')" and act: "mem_Active m"
      and role: "EnsureRole (mem_Role m) required = Inr ()"
    by (auto simp: with_now_def and_then_eq_Inr split: prod.splits if_splits sum.splits)
  from session_state [of i w] get have w1: "session_of w1 = session_of w" "member_of w1 = member_of w" by simp_all
  with member_Inr [OF mem] clock_state [of w1] have "member_of w (ses_MemberID s) = Some m" by simp
  with session_Inr [OF get] \<open>ses_RevokedAt s = None\<close> now w1 act role show ?thesis
    by (auto simp: EnsureRole_Member_Can)
qed

end

text \<open>Whatever fails, the client is told that the operation is forbidden.\<close>

lemma Authorize_forbidden: "fails_with (\<lambda>e. ErrorStatus (Some e) = 403) (Authorize r clock i required)"
  unfolding Authorize_def
  by (intro fails_with_if fails_with_fail fails_with_and_then fails_with_map_err fails_with_now
      fails_with_case_sum fails_with_ret) (auto dest: EnsureRole_Inl)

section \<open>Sessions of the database\<close>

definition repo_auth :: "uuid_in \<Rightarrow> world auth_repo" where
  "repo_auth uuid = \<lparr>au_AddMember = AddMember, au_FindMember = FindMember, au_CreateSession = CreateSession uuid,
     au_GetSession = GetSession uuid, au_MemberByID = MemberByID, au_RevokeSession = RevokeSession uuid\<rparr>"

definition repo_households :: "world household_repo" where
  "repo_households = \<lparr>hr_CreateHousehold = CreateHousehold,
     hr_CreateHouseholdWithOwner = CreateHouseholdWithOwner, hr_AddMember = AddMember\<rparr>"

definition session_view :: "uuid_in \<Rightarrow> world \<Rightarrow> string \<Rightarrow> session option" where
  "session_view uuid w i = (case uuid i of None \<Rightarrow> None
     | Some u \<Rightarrow> (case one_row (\<lambda>s. ses_ID s = u) (db_sessions (wdb w)) of Inl _ \<Rightarrow> None | Inr s \<Rightarrow> Some s))"

definition member_view :: "world \<Rightarrow> int \<Rightarrow> member option" where
  "member_view w i = (case one_row (\<lambda>m. mem_ID m = i) (db_members (wdb w)) of Inl _ \<Rightarrow> None
     | Inr m \<Rightarrow> Some (member.truncate m))"

lemma session_view_cong: "db_sessions (wdb w) = db_sessions (wdb w') \<Longrightarrow> session_view uuid w = session_view uuid w'"
  by (auto simp: session_view_def fun_eq_iff split: option.split)

lemma member_view_cong: "db_members (wdb w) = db_members (wdb w') \<Longrightarrow> member_view w = member_view w'"
  by (simp add: member_view_def fun_eq_iff)

lemma wdb_GetSession [simp]: "wdb (snd (GetSession uuid i w)) = wdb w"
  by (simp add: GetSession_def)

lemma wdb_MemberByID [simp]: "wdb (snd (MemberByID i w)) = wdb w"
  by (simp add: MemberByID_def)

lemma GetSession_Inr: "GetSession uuid i w = (Inr s, w') \<Longrightarrow> session_view uuid w i = Some s"
  by (auto simp: GetSession_def session_view_def dest!: query_Inr split: option.splits)

lemma MemberByID_Inr: "MemberByID i w = (Inr m, w') \<Longrightarrow> member_view w i = Some m"
  by (auto simp: MemberByID_def member_view_def map_sum_Inr dest!: query_Inr)

interpretation repo_auth_store: auth_store "repo_auth uuid" "wall_clock t" "session_view uuid" member_view
  for uuid t
  by unfold_locales
    (auto simp: repo_auth_def wall_clock_def GetSession_Inr MemberByID_Inr
      intro!: session_view_cong member_view_cong)

section \<open>Properties\<close>

text \<open>Only a live session of an active member whose role suffices is authorized; whatever else
  happens, failures of the database included, the client is told 403.\<close>

lemma authorize_sound:
  "case Authorize (repo_auth uuid) (wall_clock t) i required w of
     (Inl e, w') \<Rightarrow> ErrorStatus (Some e) = 403
   | (Inr m, w') \<Rightarrow> \<exists>s w1. session_view uuid w i = Some s \<and> ses_RevokedAt s = None \<and>
       session_view uuid w1 = session_view uuid w \<and> member_view w1 = member_view w \<and>
       t w1 < ses_ExpiresAt s \<and> member_view w (ses_MemberID s) = Some m \<and> Member_Can m required"
proof (cases "Authorize (repo_auth uuid) (wall_clock t) i required w")
  case (Pair x w')
  then show ?thesis
    using fails_withD [OF Authorize_forbidden] repo_auth_store.Authorize_Inr [where uuid = uuid and t = t]
    by (cases x) (auto simp: wall_clock_def)
qed

lemma GetSession_run:
  "wfaults w = [] \<Longrightarrow> session_view uuid w i = Some s \<Longrightarrow> GetSession uuid i w = (Inr s, w)"
  by (cases w) (auto simp: GetSession_def session_view_def map_err_def query_def stmt_run split: option.splits sum.splits)

lemma MemberByID_run:
  "wfaults w = [] \<Longrightarrow> member_view w i = Some m \<Longrightarrow> MemberByID i w = (Inr m, w)"
  by (cases w) (auto simp: MemberByID_def member_view_def map_err_def query_def stmt_run split: sum.splits)

lemma Authorize_run:
  assumes "wfaults w = []" and "trim_space i \<noteq> []" and s: "session_view uuid w i = Some s" "ses_RevokedAt s = None"
    and t: "t w < ses_ExpiresAt s" and m: "member_view w (ses_MemberID s) = Some m" "Member_Can m required"
  shows "Authorize (repo_auth uuid) (wall_clock t) i required w = (Inr m, w)"
proof -
  from m(2) have "mem_Active m" by (auto simp: Member_Can_def split: option.splits)
  with m(2) have "EnsureRole (mem_Role m) required = Inr ()" by (simp add: EnsureRole_Member_Can)
  with assms \<open>mem_Active m\<close> GetSession_run [OF assms(1) s(1)] MemberByID_run [OF assms(1) m(1)] show ?thesis
    by (simp add: Authorize_def repo_auth_def and_then_def map_err_def with_now_def wall_clock_def)
qed

text \<open>What a login leaves behind.\<close>

lemma FindMember_Inr:
  "FindMember h email w = (Inr (m, hash), w') \<Longrightarrow> wdb w' = wdb w \<and>
     (\<exists>r\<in>set (db_members (wdb w)). member.truncate r = m \<and> mem_PasswordHash r = hash)"
  by (auto simp: FindMember_def map_sum_Inr dest!: query_Inr one_row_Inr)

lemma CreateSession_Inr:
  assumes "CreateSession uuid s w = (Inr u, w')"
  shows "session_view uuid w' (ses_ID s) = Some \<lparr>ses_ID = the (uuid (ses_ID s)), ses_MemberID = ses_MemberID s,
      ses_ExpiresAt = ses_ExpiresAt s, ses_RevokedAt = None, ses_CreatedAt = wnow w\<rparr> \<and>
    db_members (wdb w') = db_members (wdb w)"
proof -
  from assms have st: "stmt (insert_session uuid s) w = (Inr u, w')" by (simp add: CreateSession_def)
  from stmt_Inr [OF st] have i: "insert_session uuid s (wnow w) (wdb w) = (Inr u, wdb w')" by simp
  then obtain v where v: "uuid (ses_ID s) = Some v" by (auto simp: insert_session_def split: option.splits)
  define row where "row = \<lparr>ses_ID = v, ses_MemberID = ses_MemberID s, ses_ExpiresAt = ses_ExpiresAt s,
      ses_RevokedAt = None, ses_CreatedAt = wnow w\<rparr>"
  from i v have new: "v \<notin> ses_ID ` set (db_sessions (wdb w))"
      and w': "(wdb w)\<lparr>db_sessions := db_sessions (wdb w) @ [row]\<rparr> = wdb w'"
    by (auto simp: insert_session_def row_def split: option.splits if_splits)
  from new have "one_row (\<lambda>x. ses_ID x = v) (db_sessions (wdb w)) = Inl ErrNoRows"
    by (auto simp: one_row_Inl list_ex_iff)
  moreover have "one_row (\<lambda>x. ses_ID x = v) [row] = Inr row" by (simp add: one_row_def row_def)
  ultimately have "one_row (\<lambda>x. ses_ID x = v) (db_sessions (wdb w')) = Inr row"
    by (simp add: w' [symmetric] one_row_append)
  with v w' [symmetric] show ?thesis by (simp add: session_view_def row_def)
qed

lemma Login_Inr:
  assumes "Login u c (repo_auth uuid) (wall_clock t) ttl h email pw w = (Inr (sess, m), w')"
    and gen: "\<And>w. wdb (snd (cr_uuid c w)) = wdb w"
  obtains r s where "r \<in> set (db_members (wdb w'))" "member.truncate r = m"
    "passwordMatches c (mem_PasswordHash r) pw" "mem_Active m" "db_members (wdb w') = db_members (wdb w)"
    "session_view uuid w' (ses_ID sess) = Some s" "ses_RevokedAt s = None" "ses_MemberID s = mem_ID m"
    "ses_ExpiresAt s = ses_ExpiresAt sess"
proof -
  from assms(1) obtain m0 hash w1 where f: "FindMember h (to_lower u (trim_space email)) w = (Inr (m0, hash), w1)"
      and ok: "mem_Active m0" "passwordMatches c hash pw"
      and rest: "with_now (wall_clock t) (\<lambda>now w. case cr_uuid c w of (i, w') \<Rightarrow>
        let sess = \<lparr>ses_ID = i, ses_MemberID = mem_ID m0, ses_ExpiresAt = now + ttl, ses_RevokedAt = None,
                     ses_CreatedAt = now\<rparr> in
         and_then (map_err (wrap_op ''create session'') (CreateSession uuid sess)) (\<lambda>_. ret (sess, m0)) w') w1 =
        (Inr (sess, m), w')"
    by (auto simp: Login_def repo_auth_def and_then_eq_Inr split: if_splits)
  obtain i w2 where g: "cr_uuid c w1 = (i, w2)" by (cases "cr_uuid c w1")
  with rest have sess: "sess = \<lparr>ses_ID = i, ses_MemberID = mem_ID m, ses_ExpiresAt = t w1 + ttl, ses_RevokedAt = None,
        ses_CreatedAt = t w1\<rparr>" and m: "m0 = m" and c: "CreateSession uuid sess w2 = (Inr (), w')"
    by (auto simp: with_now_def wall_clock_def Let_def and_then_eq_Inr)
  from FindMember_Inr [OF f] gen [of w1] g obtain r where "r \<in> set (db_members (wdb w))" "member.truncate r = m"
      "mem_PasswordHash r = hash" and w2: "wdb w2 = wdb w" using m by auto
  with m CreateSession_Inr [OF c] ok sess that show thesis by auto
qed

text \<open>C16. A login succeeds only for an active member whose stored record accepts the password, and the
  session it returns is then authorized for every role the member has, until it expires.\<close>

theorem login_then_authorize:
  assumes "schema_ok (wdb w)" and "\<And>w. wdb (snd (cr_uuid c w)) = wdb w"
    and uuids: "\<And>i. trim_space i = [] \<Longrightarrow> uuid i = None"
    and l: "Login u c (repo_auth uuid) (wall_clock t) ttl h email pw w = (Inr (sess, m), w')"
    and later: "t' < ses_ExpiresAt sess" and can: "Member_Can m required"
  shows "(\<exists>r\<in>set (db_members (wdb w)). member.truncate r = m \<and> passwordMatches c (mem_PasswordHash r) pw) \<and>
    fst (Authorize (repo_auth uuid) (wall_clock (\<lambda>_. t')) (ses_ID sess) required (at_time t' [] w')) = Inr m"
proof -
  from l assms(2) obtain r s where r: "r \<in> set (db_members (wdb w'))" "member.truncate r = m"
      "passwordMatches c (mem_PasswordHash r) pw" "db_members (wdb w') = db_members (wdb w)"
      and s: "session_view uuid w' (ses_ID sess) = Some s" "ses_RevokedAt s = None" "ses_MemberID s = mem_ID m"
        "ses_ExpiresAt s = ses_ExpiresAt sess"
    by (rule Login_Inr)
  let ?w = "at_time t' [] w'"
  have key: "distinct (map mem_ID (db_members (wdb w')))"
    using schema_keyed(1) [OF assms(1)] r(4) by (simp add: keyed_def)
  have id: "mem_ID r = mem_ID m" using r(2) by (auto simp: member.defs)
  have "one_row (\<lambda>x. mem_ID x = mem_ID m) (db_members (wdb w')) = Inr r"
    by (rule one_row_key [where key = mem_ID]) (use key r(1) id in simp_all)
  then have mv: "member_view ?w (mem_ID m) = Some m" using r(2) by (simp add: member_view_def at_time_def)
  have sv: "session_view uuid ?w (ses_ID sess) = Some s"
    using s(1) session_view_cong [of ?w w' uuid] by (simp add: at_time_def)
  then have "trim_space (ses_ID sess) \<noteq> []" using uuids by (auto simp: session_view_def)
  from Authorize_run [OF _ this sv s(2), of "\<lambda>_. t'" m required] mv s(3,4) later can r show ?thesis
    by (auto simp: at_time_def)
qed

section \<open>Logout\<close>

definition revoked :: "string \<Rightarrow> database \<Rightarrow> bool" where
  "revoked u db \<longleftrightarrow> (\<forall>s\<in>set (db_sessions db). ses_ID s = u \<longrightarrow> ses_RevokedAt s \<noteq> None)"

text \<open>The calls that would create a session with the id.\<close>

fun recreates :: "uuid_in \<Rightarrow> string \<Rightarrow> repo_call \<Rightarrow> bool" where
  "recreates uuid u (Call_CreateSession s) = (uuid (ses_ID s) = Some u)"
| "recreates uuid u _ = False"

lemma revoked_stmt:
  "(\<And>now db. revoked u db \<Longrightarrow> revoked u (snd (f now db))) \<Longrightarrow> revoked u (wdb w) \<Longrightarrow> revoked u (wdb (snd (stmt f w)))"
  by (cases f w rule: stmt_cases) (auto, metis snd_conv)

lemma revoked_statements:
  "revoked u db \<Longrightarrow> uuid (ses_ID s) \<noteq> Some u \<Longrightarrow> revoked u (snd (insert_session uuid s now db))"
  "revoked u db \<Longrightarrow> revoked u (snd (update_session_revoked uuid i t now db))"
  "revoked u db \<Longrightarrow> revoked u (snd (delete_expired_sessions t now db))"
  by (auto simp: revoked_def insert_session_def update_session_revoked_def delete_expired_sessions_def Let_def
      table_simps split: option.splits)

lemma snd_check: "snd (and_then m (\<lambda>n. if b n then fail e else ret ()) w) = snd (m w)"
  by (auto simp: and_then_def split: prod.split sum.split)

lemma snd_discard: "snd (discard m w) = snd (m w)"
  by (simp add: discard_def and_then_def split: prod.split sum.split)

lemma revoked_call:
  assumes "revoked u (wdb w)" and "\<not> recreates (env_uuid e) u c"
  shows "revoked u (wdb (snd (run_call e c w)))"
proof (cases "writes_sessions c")
  case False
  then show ?thesis using assms(1) leavesD [OF sessions_frame, of c e w] by (simp add: revoked_def)
next
  case True
  with assms show ?thesis
    by (cases c) (auto simp: CreateSession_def RevokeSession_def DeleteExpiredSessions_def snd_check snd_discard
        intro!: revoked_stmt revoked_statements)
qed

lemma revoked_calls:
  "revoked u (wdb w) \<Longrightarrow> list_all (\<lambda>x. \<not> recreates (env_uuid e) u (fst x)) cs \<Longrightarrow> revoked u (wdb (run_calls e cs w))"
proof (induction cs arbitrary: w)
  case Nil
  then show ?case by simp
next
  case (Cons x cs)
  obtain c t fs where x: "x = (c, t, fs)" by (cases x)
  with Cons.prems revoked_call [of u "w\<lparr>wnow := t, wfaults := fs\<rparr>" e c] Cons.IH show ?case by simp
qed

lemma revoked_update:
  assumes "uuid i = Some u"
  shows "revoked u (snd (update_session_revoked uuid i t now db))"
proof -
  let ?hit = "\<lambda>s. ses_ID s = u \<and> ses_RevokedAt s = None"
  have "ses_RevokedAt s \<noteq> None"
    if s: "s \<in> set (update_where ?hit (\<lambda>s. s\<lparr>ses_RevokedAt := Some t\<rparr>) rows)" "ses_ID s = u" for s rows
  proof -
    from s(1) obtain r where "s = (if ?hit r then r\<lparr>ses_RevokedAt := Some t\<rparr> else r)"
      unfolding set_update_where by blast
    with s(2) show ?thesis by (cases "?hit r") auto
  qed
  then show ?thesis
    by (simp add: revoked_def update_session_revoked_def assms Let_def del: not_None_eq) blast
qed

lemma Logout_Inr:
  assumes "Logout (repo_auth uuid) (wall_clock t) i w = (Inr (), w')"
  obtains u where "uuid i = Some u" and "revoked u (wdb w')"
proof -
  from assms obtain n where st: "stmt (update_session_revoked uuid i (t w)) w = (Inr n, w')"
    by (auto simp: Logout_def repo_auth_def with_now_def wall_clock_def RevokeSession_def and_then_eq_Inr
        split: if_splits)
  from stmt_Inr [OF st] have r: "update_session_revoked uuid i (t w) (wnow w) (wdb w) = (Inr n, wdb w')" by simp
  then obtain u where u: "uuid i = Some u" by (auto simp: update_session_revoked_def split: option.splits)
  then have "revoked u (snd (update_session_revoked uuid i (t w) (wnow w) (wdb w)))"
    by (rule revoked_update)
  then have "revoked u (wdb w')" by (simp only: r snd_conv)
  with u show thesis by (rule that)
qed

section \<open>Witnesses\<close>

text \<open>A sample of the parameters: a derivation that pads or cuts the password, salts of one letter, and
  the UUID reader that takes every text that is not blank.\<close>

definition sample_key :: "string \<Rightarrow> nat \<Rightarrow> string" where
  "sample_key p n = take n p @ replicate (n - length p) CHR ''x''"

definition sample_crypto :: "world crypto" where
  "sample_crypto = \<lparr>cr_rand = (\<lambda>n. ret (replicate n CHR ''s'')), cr_pbkdf2 = (\<lambda>p s i n. Inr (sample_key p n)),
     cr_uuid = (\<lambda>w. (''session'', w))\<rparr>"

definition sample_uuid :: uuid_in where
  "sample_uuid i = (if trim_space i = [] then None else Some i)"

lemma sample_crypto_ok: "crypto_ok sample_crypto"
  by (auto simp: crypto_ok_def sample_crypto_def sample_key_def)

lemma sample_hash: "\<exists>h. hashPassword sample_crypto ''correct horse'' sample = (Inr h, sample)"
  by (simp add: hashPassword_def sample_crypto_def and_then_def map_err_def)

definition sample_record :: string where
  "sample_record = projr (fst (hashPassword sample_crypto ''correct horse'' sample))"

lemma sample_hashed: "hashPassword sample_crypto ''correct horse'' sample = (Inr sample_record, sample)"
  using sample_hash by (auto simp: sample_record_def)

lemma sample_matches: "passwordMatches sample_crypto sample_record ''correct horse''"
proof -
  from hashPassword_Inr [OF sample_hashed] have rec: "sample_record =
      ''pbkdf2-sha256$210000$'' @ b64_encode (replicate 16 CHR ''s'') @ ''$'' @
        b64_encode (sample_key ''correct horse'' 32)"
    by (simp add: sample_crypto_def passwordSaltBytes_def passwordKeyBytes_def)
  show ?thesis
    unfolding rec by (subst matches_record; simp add: sample_crypto_def sample_key_def)
qed

lemma password_roundtrip_witness:
  "passwordMatches sample_crypto sample_record ''correct horse'' \<and>
   \<not> passwordMatches sample_crypto sample_record ''wrong horse''"
proof -
  have "sample_key ''wrong horse'' 32 \<noteq> sample_key ''correct horse'' 32" by (simp add: sample_key_def)
  with password_roundtrip [OF sample_crypto_ok sample_hashed] show ?thesis
    by (auto simp: sample_crypto_def)
qed

definition sample_member :: member_row where
  "sample_member = \<lparr>mem_ID = 1, mem_HouseholdID = 1, mem_Email = ''a@b'', mem_Role = RoleOperator, mem_Active = True,
     mem_CreatedAt = 1, mem_PasswordHash = sample_record\<rparr>"

definition sample_members :: world where
  "sample_members = sample\<lparr>wdb := sample_db\<lparr>db_members := [sample_member]\<rparr>\<rparr>"

lemma sample_members_ok: "schema_ok (wdb sample_members)"
  by (simp add: sample_members_def sample_member_def sample_defs schema_ok_def table_oks keyed_def owners
      device_row_ok_def max_i64_def outbox_row_ok_def pending_def)

lemma sample_trim: "trim_space ''a@b'' = ''a@b''" "trim_space ''session'' = ''session''"
  "to_lower id ''a@b'' = ''a@b''"
  by code_simp+

definition sample_login :: "(world, session \<times> member) action" where
  "sample_login = Login id sample_crypto (repo_auth sample_uuid) (wall_clock (\<lambda>_. 5)) hour 1 ''a@b'' ''correct horse''"

definition sample_session :: session where
  "sample_session = \<lparr>ses_ID = ''session'', ses_MemberID = 1, ses_ExpiresAt = 5 + hour, ses_RevokedAt = None,
     ses_CreatedAt = 5\<rparr>"

lemma sample_logged_in: "fst (sample_login sample_members) = Inr (sample_session, member.truncate sample_member)"
proof -
  show ?thesis
    using sample_matches
    by (simp add: sample_login_def Login_def repo_auth_def FindMember_def sample_members_def sample_trim
        query_def stmt_run map_err_def and_then_def one_row_def sample_member_def member.defs
        with_now_def wall_clock_def sample_crypto_def CreateSession_def insert_session_def sample_uuid_def
        sample_session_def sample_defs Let_def)
qed

lemma login_then_authorize_witness:
  "fst (Authorize (repo_auth sample_uuid) (wall_clock (\<lambda>_. 9)) ''session'' RoleViewer
     (at_time 9 [] (snd (sample_login sample_members)))) = Inr (member.truncate sample_member)"
proof -
  have can: "Member_Can (member.truncate sample_member) RoleViewer"
    by (simp add: Member_Can_def sample_member_def member.defs)
  have "wdb (snd (cr_uuid sample_crypto w)) = wdb w" for w by (simp add: sample_crypto_def)
  from login_then_authorize [OF sample_members_ok this _ outcome_pair [OF sample_logged_in, unfolded sample_login_def] _ can,
      where t' = 9]
  show ?thesis by (simp add: sample_uuid_def sample_session_def sample_login_def)
qed

definition sample_auth_env :: env where
  "sample_auth_env = sample_env\<lparr>env_uuid := sample_uuid\<rparr>"

definition sample_logout :: "(world, unit) action" where
  "sample_logout = Logout (repo_auth (env_uuid sample_auth_env)) (wall_clock (\<lambda>_. 6)) ''session''"

lemma sample_logged_out: "fst (sample_logout (snd (sample_login sample_members))) = Inr ()"
proof -
  have "fst (sample_logout (snd (sample_login sample_members))) =
      fst (sample_logout (sample_members\<lparr>wdb := (wdb sample_members)\<lparr>db_sessions := [sample_session\<lparr>ses_CreatedAt := 3\<rparr>]\<rparr>\<rparr>))"
    using sample_matches
    by (simp add: sample_login_def Login_def repo_auth_def FindMember_def sample_members_def sample_trim
        query_def stmt_run map_err_def and_then_def one_row_def sample_member_def member.defs
        with_now_def wall_clock_def sample_crypto_def CreateSession_def insert_session_def sample_uuid_def
        sample_session_def sample_defs Let_def)
  also have "\<dots> = Inr ()"
    by (simp add: sample_logout_def Logout_def repo_auth_def with_now_def wall_clock_def RevokeSession_def
        and_then_def map_err_def stmt_run sample_members_def update_session_revoked_def sample_auth_env_def
        sample_uuid_def sample_trim sample_session_def count_where_def)
  finally show ?thesis .
qed

end
