(* ===== verification/Circuit.thy ===== *)
theory Circuit
  imports Clocks
begin

text \<open>
  \<^verbatim>\<open>internal/integration/circuit.go\<close>: the circuit breaker. \<^verbatim>\<open>Call\<close> holds the lock
  twice, before and after it runs the callback; these two critical sections are \<open>enter\<close> and
  \<open>leave\<close> (\<open>abandon\<close> when the callback panics), and the steps of concurrent callers interleave them.
\<close>

section \<open>The breaker\<close>

datatype circuit_state = CircuitClosed | CircuitOpen | CircuitHalfOpen

record circuit =
  ci_state :: circuit_state
  ci_failures :: int
  ci_threshold :: int
  ci_openedAt :: time
  ci_reopenAfter :: duration
  ci_probeActive :: bool

definition NewCircuit :: "int \<Rightarrow> duration \<Rightarrow> circuit" where
  "NewCircuit threshold reopenAfter =
     \<lparr>ci_state = CircuitClosed, ci_failures = 0,
      ci_threshold = (if threshold < 1 then 3 else threshold), ci_openedAt = 0,
      ci_reopenAfter = (if reopenAfter \<le> 0 then second else reopenAfter), ci_probeActive = False\<rparr>"

definition half_open :: "time \<Rightarrow> circuit \<Rightarrow> circuit" where
  "half_open now c =
     (if ci_state c = CircuitOpen \<and> \<not> now < ci_openedAt c + ci_reopenAfter c
      then c\<lparr>ci_state := CircuitHalfOpen\<rparr> else c)"

definition State :: "time \<Rightarrow> circuit \<Rightarrow> circuit_state \<times> circuit" where
  "State now c = (let c = half_open now c in (ci_state c, c))"

text \<open>
  The first section: \<open>ctx_err\<close> is the error of a context that is done, \<open>has_fn\<close> whether there is a
  callback. The result is the state in which the call entered.
\<close>

definition enter :: "err option \<Rightarrow> bool \<Rightarrow> time \<Rightarrow> (circuit, circuit_state) action" where
  "enter ctx_err has_fn now c =
     (case ctx_err of
        Some e \<Rightarrow> (Inl e, c)
      | None \<Rightarrow>
          if \<not> has_fn then (Inl (ErrorString ''circuit callback is required''), c)
          else let c = half_open now c; state = ci_state c in
            if state = CircuitOpen then (Inl (ErrorString ''circuit is open''), c)
            else if state = CircuitHalfOpen
            then (if ci_probeActive c then (Inl (ErrorString ''circuit probe is already active''), c)
                  else (Inr state, c\<lparr>ci_probeActive := True\<rparr>))
            else (Inr state, c))"

text \<open>The second section, with the state the call entered in and the error of the callback.\<close>

definition leave :: "circuit_state \<Rightarrow> time \<Rightarrow> err option \<Rightarrow> (circuit, unit) action" where
  "leave state now outcome c =
     (let c = (if state = CircuitHalfOpen then c\<lparr>ci_probeActive := False\<rparr> else c) in
      case outcome of
        None \<Rightarrow> (Inr (), c\<lparr>ci_state := CircuitClosed, ci_failures := 0\<rparr>)
      | Some e \<Rightarrow>
          if err_is e Canceled \<or> err_is e DeadlineExceeded then (Inl e, c)
          else let c = c\<lparr>ci_failures := ci_failures c + 1\<rparr> in
            (Inl e, if ci_state c = CircuitHalfOpen \<or> ci_failures c \<ge> ci_threshold c
                    then c\<lparr>ci_state := CircuitOpen, ci_openedAt := now\<rparr> else c))"

text \<open>The deferred function when the callback panics.\<close>

definition abandon :: "circuit_state \<Rightarrow> circuit \<Rightarrow> circuit" where
  "abandon state c = (if state = CircuitHalfOpen then c\<lparr>ci_probeActive := False\<rparr> else c)"

text \<open>A call that nothing interleaves with.\<close>

definition Call :: "err option \<Rightarrow> time \<Rightarrow> err option \<Rightarrow> (circuit, unit) action" where
  "Call ctx_err now outcome = and_then (enter ctx_err True now) (\<lambda>state. leave state now outcome)"

section \<open>Concurrent callers\<close>

text \<open>The breaker, and for each caller in its callback the state it entered in and its time.\<close>

type_synonym breaker = "circuit \<times> (nat \<Rightarrow> (circuit_state \<times> time) option)"

inductive circuit_step :: "breaker \<Rightarrow> breaker \<Rightarrow> bool" where
  observes: "circuit_step (c, calls) (snd (State now c), calls)"
| enters: "calls k = None \<Longrightarrow> enter ctx_err has_fn now c = (Inr s, c') \<Longrightarrow>
     circuit_step (c, calls) (c', calls(k := Some (s, now)))"
| refused: "enter ctx_err has_fn now c = (Inl e, c') \<Longrightarrow> circuit_step (c, calls) (c', calls)"
| leaves: "calls k = Some (s, now) \<Longrightarrow> circuit_step (c, calls) (snd (leave s now outcome c), calls(k := None))"
| panics: "calls k = Some (s, now) \<Longrightarrow> circuit_step (c, calls) (abandon s c, calls(k := None))"

inductive breaker_reach :: "breaker \<Rightarrow> bool" where
  start: "breaker_reach (NewCircuit threshold reopenAfter, \<lambda>_. None)"
| step: "breaker_reach s \<Longrightarrow> circuit_step s s' \<Longrightarrow> breaker_reach s'"

inductive_cases circuit_stepE: "circuit_step (c, calls) s'"

definition probes :: "(nat \<Rightarrow> (circuit_state \<times> time) option) \<Rightarrow> nat set" where
  "probes calls = {k. \<exists>t. calls k = Some (CircuitHalfOpen, t)}"

text \<open>The flag is set exactly while one caller probes.\<close>

definition breaker_ok :: "breaker \<Rightarrow> bool" where
  "breaker_ok s \<longleftrightarrow> (case s of (c, calls) \<Rightarrow>
     (if ci_probeActive c then \<exists>k. probes calls = {k} else probes calls = {}) \<and>
     0 < ci_threshold c \<and> 0 < ci_reopenAfter c \<and> 0 \<le> ci_failures c \<and>
     (\<forall>k s t. calls k = Some (s, t) \<longrightarrow> s \<noteq> CircuitOpen) \<and>
     (ci_state c = CircuitClosed \<longrightarrow> ci_failures c < ci_threshold c))"

lemma probes_update:
  "probes (calls(k := Some (CircuitHalfOpen, t))) = insert k (probes calls)"
  by (auto simp: probes_def)

lemma probes_enter:
  "calls k = None \<Longrightarrow> s \<noteq> CircuitHalfOpen \<Longrightarrow> probes (calls(k := Some (s, t))) = probes calls"
  by (auto simp: probes_def)

lemma probes_leave:
  assumes "calls k = Some (s, t)"
  shows "probes (calls(k := None)) = (if s = CircuitHalfOpen then probes calls - {k} else probes calls)"
    and "s = CircuitHalfOpen \<Longrightarrow> k \<in> probes calls"
  using assms by (auto simp: probes_def)

lemma half_open_simps [simp]:
  "ci_probeActive (half_open now c) = ci_probeActive c" "ci_threshold (half_open now c) = ci_threshold c"
  "ci_failures (half_open now c) = ci_failures c" "ci_reopenAfter (half_open now c) = ci_reopenAfter c"
  "ci_openedAt (half_open now c) = ci_openedAt c"
  "ci_state (half_open now c) = CircuitClosed \<longleftrightarrow> ci_state c = CircuitClosed"
  by (auto simp: half_open_def)

lemma breaker_ok_step:
  assumes "circuit_step s s'" and "breaker_ok s"
  shows "breaker_ok s'"
  using assms
proof (cases rule: circuit_step.cases)
  case (observes c calls now)
  with assms(2) show ?thesis by (auto simp: breaker_ok_def State_def Let_def)
next
  case (enters calls k ctx_err has_fn now c s0 c')
  with assms(2) show ?thesis
    by (auto simp: breaker_ok_def enter_def Let_def probes_update probes_enter
        split: option.splits if_splits)
next
  case (refused ctx_err has_fn now c e c' calls)
  with assms(2) show ?thesis
    by (auto simp: breaker_ok_def enter_def Let_def split: option.splits if_splits)
next
  case (leaves calls k s0 now c outcome)
  note probe = probes_leave [where calls = calls and k = k, OF leaves(3)]
  show ?thesis
  proof (cases "s0 = CircuitHalfOpen")
    case True
    from leaves(1) assms(2) probe(2) [OF True] have "probes calls = {k} \<and> ci_probeActive c"
      by (auto simp: breaker_ok_def split: if_splits)
    with True leaves assms(2) probe(1) show ?thesis
      by (auto simp: breaker_ok_def leave_def Let_def split: option.splits if_splits)
  next
    case False
    with leaves assms(2) probe(1) show ?thesis
      by (auto simp: breaker_ok_def leave_def Let_def split: option.splits if_splits)
  qed
next
  case (panics calls k s0 now c)
  note probe = probes_leave [where calls = calls and k = k, OF panics(3)]
  show ?thesis
  proof (cases "s0 = CircuitHalfOpen")
    case True
    from panics(1) assms(2) probe(2) [OF True] have "probes calls = {k} \<and> ci_probeActive c"
      by (auto simp: breaker_ok_def split: if_splits)
    with True panics assms(2) probe(1) show ?thesis
      by (auto simp: breaker_ok_def abandon_def)
  next
    case False
    with panics assms(2) probe(1) show ?thesis
      by (auto simp: breaker_ok_def abandon_def)
  qed
qed

lemma breaker_reach_ok: "breaker_reach s \<Longrightarrow> breaker_ok s"
  by (induction rule: breaker_reach.induct)
    (auto simp: breaker_ok_step, auto simp: breaker_ok_def NewCircuit_def probes_def)

section \<open>Properties\<close>

text \<open>C25. At most one caller probes a half-open circuit at any time, however concurrent callers and panics
  interleave, and the flag that excludes the others is set exactly while it does.\<close>

theorem one_probe:
  assumes "breaker_reach (c, calls)"
  shows "(\<exists>k. probes calls \<subseteq> {k}) \<and> (ci_probeActive c \<longleftrightarrow> probes calls \<noteq> {})"
  using breaker_reach_ok [OF assms] by (auto simp: breaker_ok_def split: if_splits)

text \<open>C26. The circuit never locks callers out for good: when no call is in flight and the circuit has
  been open for the set time, the next call is let in, and if it succeeds the circuit is closed.\<close>

theorem circuit_recovers:
  assumes "breaker_reach (c, \<lambda>_. None)" and "ci_openedAt c + ci_reopenAfter c \<le> now"
  shows "\<exists>s. fst (enter None True now c) = Inr s \<and>
    fst (Call None now None c) = Inr () \<and> ci_state (snd (Call None now None c)) = CircuitClosed \<and>
    ci_failures (snd (Call None now None c)) = 0"
proof -
  have "\<not> ci_probeActive c"
    using breaker_reach_ok [OF assms(1)] by (auto simp: breaker_ok_def probes_def split: if_splits)
  moreover have "ci_state (half_open now c) \<noteq> CircuitOpen"
    using assms(2) by (auto simp: half_open_def)
  ultimately obtain s where "fst (enter None True now c) = Inr s"
    by (cases "ci_state (half_open now c)") (auto simp: enter_def Let_def)
  then show ?thesis
    by (cases "enter None True now c") (auto simp: Call_def and_then_def leave_def Let_def)
qed

lemma Call_closed_fails:
  assumes "ci_state c = CircuitClosed" and "\<not> err_is e Canceled" "\<not> err_is e DeadlineExceeded"
  shows "Call None now (Some e) c = (Inl e,
    if ci_failures c + 1 \<ge> ci_threshold c
    then c\<lparr>ci_failures := ci_failures c + 1, ci_state := CircuitOpen, ci_openedAt := now\<rparr>
    else c\<lparr>ci_failures := ci_failures c + 1\<rparr>)"
proof -
  have same: "half_open now c = c" using assms(1) by (simp add: half_open_def)
  from assms show ?thesis
    by (simp add: same Call_def enter_def leave_def and_then_def Let_def)
qed

definition failing :: "err \<Rightarrow> time list \<Rightarrow> circuit \<Rightarrow> circuit" where
  "failing e ts c = fold (\<lambda>t c. snd (Call None t (Some e) c)) ts c"

lemma failing_below:
  assumes "\<not> err_is e Canceled" "\<not> err_is e DeadlineExceeded"
  shows "ci_state c = CircuitClosed \<Longrightarrow> ci_failures c + int (length ts) < ci_threshold c \<Longrightarrow>
    failing e ts c = c\<lparr>ci_failures := ci_failures c + int (length ts)\<rparr>"
  by (induction ts arbitrary: c) (simp_all add: failing_def Call_closed_fails assms add.assoc add.commute)

text \<open>A new circuit stays closed for fewer failing calls than its threshold; the failure that
  reaches the threshold opens it, and until the set time has passed every call is refused without
  running its callback and without changing the circuit.\<close>

lemma opens_at_threshold:
  fixes threshold reopenAfter
  defines "c0 \<equiv> NewCircuit threshold reopenAfter"
  assumes e: "\<not> err_is e Canceled" "\<not> err_is e DeadlineExceeded"
  shows "(int (length ts) < ci_threshold c0 \<longrightarrow> ci_state (failing e ts c0) = CircuitClosed) \<and>
    (int (length ts) + 1 = ci_threshold c0 \<longrightarrow>
      ci_state (failing e (ts @ [t]) c0) = CircuitOpen \<and>
      (now < t + ci_reopenAfter c0 \<longrightarrow>
        enter None True now (failing e (ts @ [t]) c0) =
          (Inl (ErrorString ''circuit is open''), failing e (ts @ [t]) c0)))"
proof -
  have c0: "ci_state c0 = CircuitClosed" "ci_failures c0 = 0" by (simp_all add: c0_def NewCircuit_def)
  have below: "failing e ts c0 = c0\<lparr>ci_failures := int (length ts)\<rparr>" if "int (length ts) < ci_threshold c0"
    using failing_below [OF e c0(1), of ts] c0(2) that by simp
  have "failing e (ts @ [t]) c0 = c0\<lparr>ci_failures := int (length ts) + 1, ci_state := CircuitOpen, ci_openedAt := t\<rparr>"
    if "int (length ts) + 1 = ci_threshold c0"
  proof -
    have "failing e (ts @ [t]) c0 = snd (Call None t (Some e) (failing e ts c0))" by (simp add: failing_def)
    then show ?thesis using below that c0 e by (simp add: Call_closed_fails)
  qed
  then show ?thesis using below c0 by (auto simp: enter_def half_open_def Let_def)
qed

section \<open>Witnesses\<close>

definition opened :: circuit where
  "opened = failing (ErrorString ''down'') [1] (NewCircuit 1 10)"

lemma opened_reach: "breaker_reach (opened, \<lambda>_. None)"
proof -
  let ?c = "NewCircuit 1 10"
  have "enter None True 1 ?c = (Inr CircuitClosed, ?c)" by (simp add: enter_def half_open_def NewCircuit_def)
  then have "circuit_step (?c, \<lambda>_. None) (?c, (\<lambda>_. None)(0 := Some (CircuitClosed, 1)))"
    by (intro circuit_step.enters) simp_all
  moreover have "circuit_step (?c, (\<lambda>_. None)(0 := Some (CircuitClosed, 1)))
      (snd (leave CircuitClosed 1 (Some (ErrorString ''down'')) ?c), ((\<lambda>_. None)(0 := Some (CircuitClosed, 1)))(0 := None))"
    by (rule circuit_step.leaves) simp
  moreover have "snd (leave CircuitClosed 1 (Some (ErrorString ''down'')) ?c) = opened"
    by (simp add: opened_def failing_def Call_closed_fails leave_def NewCircuit_def)
  ultimately have "breaker_reach (opened, ((\<lambda>_. None)(0 := Some (CircuitClosed, 1)))(0 := None))"
    by (metis breaker_reach.intros)
  then show ?thesis by simp
qed

lemma one_probe_witness: "\<not> ci_probeActive opened"
  using one_probe [OF opened_reach] by (simp add: probes_def)

lemma circuit_recovers_witness: "ci_state (snd (Call None 11 None opened)) = CircuitClosed"
  using circuit_recovers [OF opened_reach, of 11]
  by (simp add: opened_def failing_def Call_closed_fails NewCircuit_def)

end
