(* ===== verification/Gateway_Dispatch.thy ===== *)
theory Gateway_Dispatch
  imports Clocks
begin

text \<open>
  \<^verbatim>\<open>internal/integration/integration.go\<close>: the dispatcher that sends each command to the
  gateway once per idempotency key. \<^verbatim>\<open>Dispatch\<close> holds the lock twice, before and after the
  gateway call; callers that find their command in flight wait for the call that performs it. A
  call is the number \<open>di_next\<close> had when it began, \<open>di_done\<close> holds what its channel published. The
  gateway, the encoding of commands and the wall clock are parameters.
\<close>

section \<open>The dispatcher\<close>

record gateway_result =
  gr_ID :: string
  gr_Accepted :: bool
  gr_Error :: string
  gr_At :: time

record dispatcher =
  di_Results :: "string \<rightharpoonup> gateway_result"
  di_fingerprints :: "string \<rightharpoonup> string"
  di_inflight :: "string \<rightharpoonup> nat \<times> string"
  di_done :: "nat \<rightharpoonup> gateway_result"
  di_next :: nat

definition NewDispatcher :: dispatcher where
  "NewDispatcher = \<lparr>di_Results = Map.empty, di_fingerprints = Map.empty, di_inflight = Map.empty,
     di_done = Map.empty, di_next = 0\<rparr>"

definition refusal :: "string \<Rightarrow> string \<Rightarrow> time \<Rightarrow> gateway_result" where
  "refusal i text now = \<lparr>gr_ID = i, gr_Accepted = False, gr_Error = text, gr_At = now\<rparr>"

datatype admission = Refuse gateway_result | Previous gateway_result | Join nat | Begin nat

text \<open>Up to the gateway call; \<open>encoded\<close> is the outcome of \<^verbatim>\<open>EncodeCommand\<close>.\<close>

definition Dispatch_enter ::
    "bool \<Rightarrow> string \<Rightarrow> string \<Rightarrow> err + string \<Rightarrow> time \<Rightarrow> dispatcher \<Rightarrow> admission \<times> dispatcher" where
  "Dispatch_enter has_gateway i act encoded now d =
     (if \<not> has_gateway \<or> i = [] \<or> act = []
      then (Refuse (refusal i ''dispatcher request is incomplete'' now), d)
      else case encoded of
        Inl e \<Rightarrow> (Refuse (refusal i (err_text e) now), d)
      | Inr fingerprint \<Rightarrow>
          (case di_Results d i of
             Some previous \<Rightarrow>
               if di_fingerprints d i \<noteq> Some fingerprint
               then (Refuse (refusal i ''idempotency key was reused with a different command'' now), d)
               else (Previous previous, d)
           | None \<Rightarrow>
               (case di_inflight d i of
                  Some (n, f) \<Rightarrow>
                    if f \<noteq> fingerprint
                    then (Refuse (refusal i ''idempotency key was reused with a different command'' now), d)
                    else (Join n, d)
                | None \<Rightarrow>
                    (Begin (di_next d),
                     d\<lparr>di_inflight := (di_inflight d)(i \<mapsto> (di_next d, fingerprint)), di_next := di_next d + 1\<rparr>))))"

definition gateway_timeout :: "duration \<Rightarrow> duration" where
  "gateway_timeout t = (if t \<le> 0 then 5 * second else t)"

definition gateway_outcome :: "string \<Rightarrow> err option \<Rightarrow> time \<Rightarrow> gateway_result" where
  "gateway_outcome i e now = \<lparr>gr_ID = i, gr_Accepted = (e = None),
     gr_Error = (case e of None \<Rightarrow> [] | Some e \<Rightarrow> err_text e), gr_At = now\<rparr>"

text \<open>After the gateway call.\<close>

definition Dispatch_finish :: "string \<Rightarrow> nat \<Rightarrow> string \<Rightarrow> gateway_result \<Rightarrow> dispatcher \<Rightarrow> dispatcher" where
  "Dispatch_finish i n fingerprint result d =
     d\<lparr>di_Results := (di_Results d)(i \<mapsto> result), di_fingerprints := (di_fingerprints d)(i \<mapsto> fingerprint),
       di_done := (di_done d)(n \<mapsto> result), di_inflight := (di_inflight d)(i := None)\<rparr>"

definition Forget :: "string \<Rightarrow> dispatcher \<Rightarrow> dispatcher" where
  "Forget i d = d\<lparr>di_Results := (di_Results d)(i := None), di_fingerprints := (di_fingerprints d)(i := None)\<rparr>"

record health_snapshot =
  hs_DeviceID :: string
  hs_Healthy :: bool
  hs_Error :: string
  hs_CheckedAt :: time

text \<open>\<open>health\<close> is the gateway's answer, if there is a gateway.\<close>

definition CheckGateway :: "(string \<Rightarrow> err option) option \<Rightarrow> string \<Rightarrow> time \<Rightarrow> health_snapshot" where
  "CheckGateway health i now =
     (case health of
        Some h \<Rightarrow>
          if i = [] then \<lparr>hs_DeviceID = i, hs_Healthy = False, hs_Error = ''gateway check is not configured'', hs_CheckedAt = now\<rparr>
          else \<lparr>hs_DeviceID = i, hs_Healthy = (h i = None),
                hs_Error = (case h i of None \<Rightarrow> [] | Some e \<Rightarrow> err_text e), hs_CheckedAt = now\<rparr>
      | None \<Rightarrow> \<lparr>hs_DeviceID = i, hs_Healthy = False, hs_Error = ''gateway check is not configured'', hs_CheckedAt = now\<rparr>)"

definition IsTransient :: "err option \<Rightarrow> bool" where
  "IsTransient e \<longleftrightarrow> (case e of None \<Rightarrow> False | Some e \<Rightarrow> err_is e Canceled \<or> err_is e DeadlineExceeded)"

section \<open>Concurrent callers\<close>

datatype caller = Waiting nat string string | Calling nat string string

text \<open>With the dispatcher: the callers, the commands the gateway was given, the keys that were
  forgotten, the results that callers got for their command, and the calls in which the gateway
  panicked: such a panic unwinds \<^verbatim>\<open>Dispatch\<close>, whose second critical section is not deferred, so the
  call stays in flight.\<close>

record dispatch_system =
  ds_dispatcher :: dispatcher
  ds_callers :: "nat \<rightharpoonup> caller"
  ds_commands :: "(string \<times> string) list"
  ds_forgotten :: "string list"
  ds_replies :: "(string \<times> string \<times> gateway_result) list"
  ds_panicked :: "nat list"

inductive dispatch_step :: "dispatch_system \<Rightarrow> dispatch_system \<Rightarrow> bool" where
  refused: "Dispatch_enter g i act enc now (ds_dispatcher s) = (Refuse r, d) \<Longrightarrow>
     dispatch_step s (s\<lparr>ds_dispatcher := d\<rparr>)"
| previous: "Dispatch_enter g i act (Inr f) now (ds_dispatcher s) = (Previous r, d) \<Longrightarrow>
     dispatch_step s (s\<lparr>ds_dispatcher := d, ds_replies := (i, f, r) # ds_replies s\<rparr>)"
| joins: "ds_callers s k = None \<Longrightarrow> Dispatch_enter g i act (Inr f) now (ds_dispatcher s) = (Join n, d) \<Longrightarrow>
     dispatch_step s (s\<lparr>ds_dispatcher := d, ds_callers := (ds_callers s)(k \<mapsto> Waiting n i f)\<rparr>)"
| begins: "ds_callers s k = None \<Longrightarrow> Dispatch_enter g i act (Inr f) now (ds_dispatcher s) = (Begin n, d) \<Longrightarrow>
     dispatch_step s (s\<lparr>ds_dispatcher := d, ds_callers := (ds_callers s)(k \<mapsto> Calling n i f),
       ds_commands := (i, f) # ds_commands s\<rparr>)"
| finishes: "ds_callers s k = Some (Calling n i f) \<Longrightarrow> r = gateway_outcome i e now \<Longrightarrow>
     dispatch_step s (s\<lparr>ds_dispatcher := Dispatch_finish i n f r (ds_dispatcher s),
       ds_callers := (ds_callers s)(k := None), ds_replies := (i, f, r) # ds_replies s\<rparr>)"
| panics: "ds_callers s k = Some (Calling n i f) \<Longrightarrow>
     dispatch_step s (s\<lparr>ds_callers := (ds_callers s)(k := None), ds_panicked := n # ds_panicked s\<rparr>)"
| wakes: "ds_callers s k = Some (Waiting n i f) \<Longrightarrow> di_done (ds_dispatcher s) n = Some r \<Longrightarrow>
     dispatch_step s (s\<lparr>ds_callers := (ds_callers s)(k := None), ds_replies := (i, f, r) # ds_replies s\<rparr>)"
| gives_up: "ds_callers s k = Some (Waiting n i f) \<Longrightarrow> dispatch_step s (s\<lparr>ds_callers := (ds_callers s)(k := None)\<rparr>)"
| forgets: "dispatch_step s (s\<lparr>ds_dispatcher := Forget i (ds_dispatcher s), ds_forgotten := i # ds_forgotten s\<rparr>)"

inductive dispatch_reach :: "dispatch_system \<Rightarrow> bool" where
  start: "dispatch_reach \<lparr>ds_dispatcher = NewDispatcher, ds_callers = Map.empty, ds_commands = [],
     ds_forgotten = [], ds_replies = [], ds_panicked = []\<rparr>"
| step: "dispatch_reach s \<Longrightarrow> dispatch_step s s' \<Longrightarrow> dispatch_reach s'"

definition known :: "dispatcher \<Rightarrow> string set" where
  "known d = dom (di_Results d) \<union> dom (di_inflight d)"

definition answered :: "dispatch_system \<Rightarrow> string \<Rightarrow> string \<Rightarrow> gateway_result \<Rightarrow> bool" where
  "answered s i f r \<longleftrightarrow> i \<in> set (ds_forgotten s) \<or>
     di_Results (ds_dispatcher s) i = Some r \<and> di_fingerprints (ds_dispatcher s) i = Some f"

definition calls_ok :: "dispatch_system \<Rightarrow> bool" where
  "calls_ok s \<longleftrightarrow> (let d = ds_dispatcher s in
     (\<forall>i n f. di_inflight d i = Some (n, f) \<longrightarrow> n < di_next d \<and> (i \<in> set (ds_forgotten s) \<or> di_Results d i = None)) \<and>
     (\<forall>i j n f g. di_inflight d i = Some (n, f) \<longrightarrow> di_inflight d j = Some (n, g) \<longrightarrow> i = j) \<and>
     (\<forall>k n i f. ds_callers s k = Some (Calling n i f) \<longrightarrow> di_inflight d i = Some (n, f)) \<and>
     (\<forall>j k n i f. ds_callers s j = Some (Calling n i f) \<longrightarrow> ds_callers s k = Some (Calling n i f) \<longrightarrow> j = k))"

definition waits_ok :: "dispatch_system \<Rightarrow> bool" where
  "waits_ok s \<longleftrightarrow> (let d = ds_dispatcher s in
     (\<forall>k n i f. ds_callers s k = Some (Waiting n i f) \<longrightarrow> di_inflight d i = Some (n, f) \<or>
        (\<exists>r. di_done d n = Some r \<and> answered s i f r)) \<and>
     (\<forall>i n f. di_inflight d i = Some (n, f) \<longrightarrow> di_done d n = None) \<and>
     (\<forall>n. di_done d n \<noteq> None \<longrightarrow> n < di_next d) \<and>
     (\<forall>i f r. (i, f, r) \<in> set (ds_replies s) \<longrightarrow> answered s i f r))"

definition counts_ok :: "dispatch_system \<Rightarrow> bool" where
  "counts_ok s \<longleftrightarrow> (\<forall>i. count_list (map fst (ds_commands s)) i \<le>
     count_list (ds_forgotten s) i + (if i \<in> known (ds_dispatcher s) then 1 else 0))"

lemma inflight_free:
  assumes "calls_ok s" "di_inflight (ds_dispatcher s) i = Some (n, f)"
  shows "n < di_next (ds_dispatcher s) \<and> (i \<in> set (ds_forgotten s) \<or> di_Results (ds_dispatcher s) i = None)"
  using assms unfolding calls_ok_def Let_def by metis

lemma inflight_undone:
  assumes "waits_ok s" "di_inflight (ds_dispatcher s) i = Some (n, f)"
  shows "di_done (ds_dispatcher s) n = None"
  using assms unfolding waits_ok_def Let_def by blast

lemma Dispatch_enter_cases:
  assumes "Dispatch_enter g i act enc now d = (x, d')"
  obtains (refuse) r where "x = Refuse r" "d' = d"
    | (previous) f r where "enc = Inr f" "x = Previous r" "d' = d" "di_Results d i = Some r"
        "di_fingerprints d i = Some f"
    | (join) f n where "enc = Inr f" "x = Join n" "d' = d" "di_Results d i = None" "di_inflight d i = Some (n, f)"
    | (begin_call) f where "enc = Inr f" "x = Begin (di_next d)" "di_Results d i = None" "di_inflight d i = None"
        "d' = d\<lparr>di_inflight := (di_inflight d)(i \<mapsto> (di_next d, f)), di_next := di_next d + 1\<rparr>"
proof (cases "\<not> g \<or> i = [] \<or> act = []")
  case True
  then show thesis using assms refuse by (auto simp: Dispatch_enter_def)
next
  case ready: False
  show thesis
  proof (cases enc)
    case (Inl e)
    then show thesis using assms refuse ready by (auto simp: Dispatch_enter_def)
  next
    case (Inr f)
    note enter = assms [unfolded Dispatch_enter_def, simplified ready Inr, simplified]
    show thesis
    proof (cases "di_Results d i")
      case (Some r)
      then show thesis using enter refuse previous Inr by (auto split: if_splits)
    next
      case None
      then show thesis using enter refuse join begin_call Inr
        by (cases "di_inflight d i") (auto split: if_splits)
    qed
  qed
qed

lemma calls_ok_step:
  assumes "dispatch_step s s'" and ok: "calls_ok s"
  shows "calls_ok s'"
  using assms(1)
proof cases
  case (refused g i act enc now r d)
  then have "s' = s" by (auto elim!: Dispatch_enter_cases)
  with ok show ?thesis by simp
next
  case (previous g i act f now r d)
  then have "d = ds_dispatcher s" by (auto elim!: Dispatch_enter_cases)
  with previous(1) ok show ?thesis by (simp add: calls_ok_def Let_def)
next
  case (joins k g i act f now n d)
  then have "d = ds_dispatcher s" by (auto elim!: Dispatch_enter_cases)
  with joins(1) ok show ?thesis by (simp add: calls_ok_def Let_def)
next
  case (begins k g i act f now n d)
  let ?d = "ds_dispatcher s"
  from begins(3) have new: "di_Results ?d i = None" "di_inflight ?d i = None" "n = di_next ?d"
      "d = ?d\<lparr>di_inflight := (di_inflight ?d)(i \<mapsto> (di_next ?d, f)), di_next := di_next ?d + 1\<rparr>"
    by (auto elim!: Dispatch_enter_cases)
  from ok new(2) have "\<forall>j m g. di_inflight ?d j = Some (m, g) \<longrightarrow> m \<noteq> di_next ?d \<and> j \<noteq> i"
    unfolding calls_ok_def Let_def by fastforce
  with ok new begins(2) show ?thesis
    unfolding begins(1) calls_ok_def Let_def by (fastforce simp: less_Suc_eq split: if_splits)
next
  case (finishes k n i f r e now)
  have "ds_callers s j \<noteq> Some (Calling m i g)" if "j \<noteq> k" for j m g
    using ok finishes(2) that unfolding calls_ok_def Let_def by (metis option.inject prod.inject)
  with finishes ok show ?thesis by (auto simp: calls_ok_def Let_def Dispatch_finish_def)
next
  case (panics k n i f)
  then show ?thesis using ok by (auto simp: calls_ok_def Let_def)
next
  case (wakes k n i f r)
  then show ?thesis using ok by (auto simp: calls_ok_def Let_def)
next
  case (gives_up k n i f)
  then show ?thesis using ok by (auto simp: calls_ok_def Let_def)
next
  case (forgets i)
  then show ?thesis using ok by (fastforce simp: calls_ok_def Let_def Forget_def)
qed

lemma known_finish: "known (Dispatch_finish i n f r d) = insert i (known d)"
proof (rule set_eqI)
  fix x
  show "x \<in> known (Dispatch_finish i n f r d) \<longleftrightarrow> x \<in> insert i (known d)"
    by (cases "x = i") (simp_all add: known_def Dispatch_finish_def domIff)
qed

lemma known_begin: "known (d\<lparr>di_inflight := (di_inflight d)(i \<mapsto> x), di_next := m\<rparr>) = insert i (known d)"
  by (simp add: known_def)

lemma counts_ok_same:
  "counts_ok s \<Longrightarrow> ds_commands s' = ds_commands s \<Longrightarrow> ds_forgotten s' = ds_forgotten s \<Longrightarrow>
     known (ds_dispatcher s') = known (ds_dispatcher s) \<Longrightarrow> counts_ok s'"
  by (simp add: counts_ok_def)

lemma counts_ok_step:
  assumes "dispatch_step s s'" and ok: "counts_ok s" "calls_ok s"
  shows "counts_ok s'"
  using assms(1)
proof cases
  case (refused g i act enc now r d)
  then show ?thesis by (intro counts_ok_same [OF ok(1)]) (auto elim!: Dispatch_enter_cases)
next
  case (previous g i act f now r d)
  then show ?thesis by (intro counts_ok_same [OF ok(1)]) (auto elim!: Dispatch_enter_cases)
next
  case (joins k g i act f now n d)
  then show ?thesis by (intro counts_ok_same [OF ok(1)]) (auto elim!: Dispatch_enter_cases)
next
  case (begins k g i act f now n d)
  from begins(3) have i: "i \<notin> known (ds_dispatcher s)"
    by (auto simp: known_def elim!: Dispatch_enter_cases)
  from begins(3) have "known d = insert i (known (ds_dispatcher s))"
    by (auto simp: known_begin elim!: Dispatch_enter_cases)
  note i = i this
  have "count_list (map fst (ds_commands s)) i \<le> count_list (ds_forgotten s) i"
    using ok(1) i(1) by (auto simp: counts_ok_def split: if_splits)
  with ok(1) begins(1) i show ?thesis by (auto simp: counts_ok_def)
next
  case (finishes k n i f r e now)
  then have "di_inflight (ds_dispatcher s) i = Some (n, f)" using ok(2) by (auto simp: calls_ok_def Let_def)
  then have "i \<in> known (ds_dispatcher s)" by (auto simp: known_def)
  then have "known (Dispatch_finish i n f r (ds_dispatcher s)) = known (ds_dispatcher s)"
    by (simp add: known_finish insert_absorb)
  with finishes show ?thesis by (intro counts_ok_same [OF ok(1)]) auto
next
  case (panics k n i f)
  then show ?thesis by (intro counts_ok_same [OF ok(1)]) auto
next
  case (wakes k n i f r)
  then show ?thesis by (intro counts_ok_same [OF ok(1)]) auto
next
  case (gives_up k n i f)
  then show ?thesis by (intro counts_ok_same [OF ok(1)]) auto
next
  case (forgets i)
  have "known (Forget i (ds_dispatcher s)) \<supseteq> known (ds_dispatcher s) - {i}"
    by (auto simp: known_def Forget_def)
  moreover have "count_list (map fst (ds_commands s)) i \<le> count_list (ds_forgotten s) i + 1"
    using ok(1) by (auto simp: counts_ok_def split: if_splits)
  ultimately show ?thesis
    using ok(1) forgets by (auto simp: counts_ok_def split: if_splits)
qed

lemma waits_ok_begins:
  assumes ok: "waits_ok s"
    and enter: "Dispatch_enter g i act (Inr f) now (ds_dispatcher s) = (Begin n, d)"
    and s': "s' = s\<lparr>ds_dispatcher := d, ds_callers := (ds_callers s)(k \<mapsto> Calling n i f),
       ds_commands := (i, f) # ds_commands s\<rparr>"
  shows "waits_ok s'"
proof -
  let ?d = "ds_dispatcher s"
  from enter have new: "di_Results ?d i = None" "di_inflight ?d i = None" "n = di_next ?d"
      "d = ?d\<lparr>di_inflight := (di_inflight ?d)(i \<mapsto> (di_next ?d, f)), di_next := di_next ?d + 1\<rparr>"
    by (auto elim!: Dispatch_enter_cases)
  note w = ok [unfolded waits_ok_def Let_def]
  have replies: "ds_replies s' = ds_replies s" unfolding s' by simp
  have fresh: "di_done ?d (di_next ?d) = None" using w by (metis less_irrefl)
  have same: "answered s' j g r \<longleftrightarrow> answered s j g r" for j g r
    unfolding s' new(4) answered_def by simp
  have waiting: "di_inflight d j = Some (m, g) \<or> (\<exists>r. di_done d m = Some r \<and> answered s j g r)"
    if "ds_callers s' l = Some (Waiting m j g)" for l m j g
  proof -
    from that have "ds_callers s l = Some (Waiting m j g)" unfolding s' by (simp split: if_splits)
    with w have "di_inflight ?d j = Some (m, g) \<or> (\<exists>r. di_done ?d m = Some r \<and> answered s j g r)" by blast
    with new(2,4) show ?thesis by auto
  qed
  have "di_done d m = None" if "di_inflight d j = Some (m, g)" for j m g
  proof (cases "j = i")
    case True
    then show ?thesis using that fresh unfolding new(4) by simp
  next
    case False
    then have "di_inflight ?d j = Some (m, g)" using that unfolding new(4) by simp
    then have "di_done ?d m = None" using w by blast
    then show ?thesis unfolding new(4) by simp
  qed
  moreover have "di_done d m \<noteq> None \<longrightarrow> m < di_next d" for m
    using w unfolding new(4) by (auto intro: less_SucI)
  moreover have "(j, g, r) \<in> set (ds_replies s') \<longrightarrow> answered s' j g r" for j g r
    unfolding same replies using w by blast
  moreover have "ds_dispatcher s' = d" unfolding s' by simp
  ultimately show ?thesis using waiting unfolding waits_ok_def Let_def same by simp
qed

lemma waits_ok_finishes:
  assumes ok: "waits_ok s" "calls_ok s"
    and call: "ds_callers s k = Some (Calling n i f)"
    and s': "s' = s\<lparr>ds_dispatcher := Dispatch_finish i n f r (ds_dispatcher s),
       ds_callers := (ds_callers s)(k := None), ds_replies := (i, f, r) # ds_replies s\<rparr>"
  shows "waits_ok s'"
proof -
  let ?d = "ds_dispatcher s" and ?d' = "Dispatch_finish i n f r (ds_dispatcher s)"
  note w = ok(1) [unfolded waits_ok_def Let_def] and c = ok(2) [unfolded calls_ok_def Let_def]
  have mine: "di_inflight ?d i = Some (n, f)" using c call by blast
  then have free: "i \<in> set (ds_forgotten s) \<or> di_Results ?d i = None" "n < di_next ?d" "di_done ?d n = None"
    using inflight_free [OF ok(2) mine] inflight_undone [OF ok(1) mine] by simp_all
  have only: "j = i" if "di_inflight ?d j = Some (n, g)" for j g using c mine that by blast
  have now: "answered s' i f r" unfolding s' answered_def by (simp add: Dispatch_finish_def)
  have still: "answered s' j g q" if "answered s j g q" for j g q
    using that free(1) unfolding s' answered_def by (auto simp: Dispatch_finish_def)
  have waiting: "di_inflight ?d' j = Some (m, g) \<or> (\<exists>q. di_done ?d' m = Some q \<and> answered s' j g q)"
    if "ds_callers s' l = Some (Waiting m j g)" for l m j g
  proof -
    from that have "ds_callers s l = Some (Waiting m j g)" unfolding s' by (simp split: if_splits)
    with w consider "di_inflight ?d j = Some (m, g)" | q where "di_done ?d m = Some q" "answered s j g q" by blast
    then show ?thesis
    proof cases
      case 1
      then show ?thesis using mine now by (cases "j = i") (auto simp: Dispatch_finish_def)
    next
      case 2
      then show ?thesis using still free(3) by (auto simp: Dispatch_finish_def)
    qed
  qed
  have quiet: "di_done ?d' m = None" if "di_inflight ?d' j = Some (m, g)" for j m g
  proof -
    from that have j: "j \<noteq> i" "di_inflight ?d j = Some (m, g)" by (auto simp: Dispatch_finish_def split: if_splits)
    then have "m \<noteq> n" "di_done ?d m = None" using only w by blast+
    then show ?thesis by (simp add: Dispatch_finish_def)
  qed
  have bounded: "m < di_next ?d'" if "di_done ?d' m \<noteq> None" for m
  proof (cases "m = n")
    case True
    then show ?thesis using free(2) by (simp add: Dispatch_finish_def)
  next
    case False
    then have "di_done ?d m \<noteq> None" using that by (simp add: Dispatch_finish_def)
    then have "m < di_next ?d" using w by blast
    then show ?thesis by (simp add: Dispatch_finish_def)
  qed
  have replies: "answered s' j g q" if "(j, g, q) \<in> set (ds_replies s')" for j g q
  proof -
    from that have "(j, g, q) = (i, f, r) \<or> (j, g, q) \<in> set (ds_replies s)" unfolding s' by auto
    then show ?thesis using w now still by blast
  qed
  have "ds_dispatcher s' = ?d'" unfolding s' by simp
  then show ?thesis unfolding waits_ok_def Let_def using waiting quiet bounded replies by auto
qed

lemma waits_ok_step:
  assumes "dispatch_step s s'" and ok: "waits_ok s" "calls_ok s"
  shows "waits_ok s'"
  using assms(1)
proof cases
  case (refused g i act enc now r d)
  then have "s' = s" by (auto elim!: Dispatch_enter_cases)
  with ok show ?thesis by simp
next
  case (previous g i act f now r d)
  then have "d = ds_dispatcher s" "answered s i f r" by (auto simp: answered_def elim!: Dispatch_enter_cases)
  with previous(1) ok show ?thesis by (auto simp: waits_ok_def answered_def Let_def)
next
  case (joins k g i act f now n d)
  then have "d = ds_dispatcher s" "di_inflight (ds_dispatcher s) i = Some (n, f)"
    by (auto elim!: Dispatch_enter_cases)
  with joins(1) ok show ?thesis by (simp add: waits_ok_def answered_def Let_def)
next
  case (begins k g i act f now n d)
  then show ?thesis using ok(1) waits_ok_begins by blast
next
  case (finishes k n i f r e now)
  then show ?thesis using ok waits_ok_finishes by blast
next
  case (panics k n i f)
  then show ?thesis using ok by (auto simp: waits_ok_def answered_def Let_def)
next
  case (wakes k n i f r)
  then have "answered s i f r"
    using ok(1) inflight_undone [OF ok(1)] unfolding waits_ok_def Let_def
    by (metis option.distinct(1) option.inject)
  with wakes(1) ok(1) show ?thesis by (auto simp: waits_ok_def answered_def Let_def)
next
  case (gives_up k n i f)
  then show ?thesis using ok by (auto simp: waits_ok_def answered_def Let_def)
next
  case (forgets i)
  have same: "ds_callers s' = ds_callers s" "ds_replies s' = ds_replies s"
      "di_inflight (ds_dispatcher s') = di_inflight (ds_dispatcher s)"
      "di_done (ds_dispatcher s') = di_done (ds_dispatcher s)"
      "di_next (ds_dispatcher s') = di_next (ds_dispatcher s)"
    unfolding forgets by (simp_all add: Forget_def)
  have still: "answered s' j g q" if "answered s j g q" for j g q
    using that unfolding forgets answered_def by (auto simp: Forget_def)
  show ?thesis using ok(1) still unfolding waits_ok_def Let_def same by blast
qed

definition served :: "dispatch_system \<Rightarrow> bool" where
  "served s \<longleftrightarrow> (\<forall>i n f. di_inflight (ds_dispatcher s) i = Some (n, f) \<longrightarrow>
     (\<exists>k. ds_callers s k = Some (Calling n i f)) \<or> n \<in> set (ds_panicked s))"

text \<open>A call in which the gateway panicked stays in flight, and nobody performs it.\<close>

definition stranded :: "dispatch_system \<Rightarrow> bool" where
  "stranded s \<longleftrightarrow> (\<forall>n\<in>set (ds_panicked s). (\<exists>i f. di_inflight (ds_dispatcher s) i = Some (n, f)) \<and>
     (\<forall>k i f. ds_callers s k \<noteq> Some (Calling n i f)))"

lemma served_step:
  assumes "dispatch_step s s'" and ok: "served s" "calls_ok s"
  shows "served s'"
  using assms(1)
proof cases
  case (refused g i act enc now r d)
  then have "s' = s" by (auto elim!: Dispatch_enter_cases)
  with ok show ?thesis by simp
next
  case (previous g i act f now r d)
  then have "d = ds_dispatcher s" by (auto elim!: Dispatch_enter_cases)
  with previous(1) ok show ?thesis by (simp add: served_def)
next
  case (joins k g i act f now n d)
  then have "d = ds_dispatcher s" by (auto elim!: Dispatch_enter_cases)
  with joins(1,2) ok show ?thesis unfolding served_def by (auto; metis option.distinct(1))
next
  case (begins k g i act f now n d)
  then have "d = (ds_dispatcher s)\<lparr>di_inflight := (di_inflight (ds_dispatcher s))(i \<mapsto> (n, f)), di_next := n + 1\<rparr>"
    by (auto elim!: Dispatch_enter_cases)
  with begins(1,2) ok show ?thesis unfolding served_def by (auto; metis option.distinct(1))
next
  case (finishes k n i f r e now)
  have "j \<noteq> k" if "ds_callers s j = Some (Calling m x g)" "x \<noteq> i" for j m x g
    using that finishes(2) by auto
  with finishes ok show ?thesis
    unfolding served_def by (auto simp: Dispatch_finish_def) metis
next
  case (panics k n i f)
  then have "j \<noteq> k" if "ds_callers s j = Some (Calling m x g)" "m \<noteq> n" for j m x g using that by auto
  with panics ok show ?thesis unfolding served_def by auto metis
next
  case (wakes k n i f r)
  then have "ds_callers s j = Some (Calling m x g) \<Longrightarrow> j \<noteq> k" for j m x g by auto
  with wakes ok show ?thesis unfolding served_def by auto metis
next
  case (gives_up k n i f)
  then have "ds_callers s j = Some (Calling m x g) \<Longrightarrow> j \<noteq> k" for j m x g by auto
  with gives_up ok show ?thesis unfolding served_def by auto metis
next
  case (forgets i)
  then show ?thesis using ok by (simp add: served_def Forget_def)
qed

lemma stranded_step:
  assumes "dispatch_step s s'" and ok: "stranded s" "calls_ok s"
  shows "stranded s'"
  using assms(1)
proof cases
  case (refused g i act enc now r d)
  then have "s' = s" by (auto elim!: Dispatch_enter_cases)
  with ok show ?thesis by simp
next
  case (previous g i act f now r d)
  then have "d = ds_dispatcher s" by (auto elim!: Dispatch_enter_cases)
  with previous(1) ok show ?thesis by (simp add: stranded_def)
next
  case (joins k g i act f now n d)
  then have "d = ds_dispatcher s" by (auto elim!: Dispatch_enter_cases)
  with joins(1) ok show ?thesis by (simp add: stranded_def)
next
  case (begins k g i act f now n d)
  let ?d = "ds_dispatcher s"
  from begins(3) have new: "di_inflight ?d i = None" "n = di_next ?d"
      "di_inflight d = (di_inflight ?d)(i \<mapsto> (n, f))"
    by (auto elim!: Dispatch_enter_cases)
  have "\<forall>m\<in>set (ds_panicked s). m \<noteq> n \<and> (\<exists>j g. di_inflight d j = Some (m, g))"
  proof
    fix m
    assume "m \<in> set (ds_panicked s)"
    with ok(1) obtain j g where j: "di_inflight ?d j = Some (m, g)" by (auto simp: stranded_def)
    with new inflight_free [OF ok(2) j] have "m \<noteq> n" "di_inflight d j = Some (m, g)" by auto
    then show "m \<noteq> n \<and> (\<exists>j g. di_inflight d j = Some (m, g))" by blast
  qed
  with ok(1) show ?thesis unfolding begins(1) stranded_def by auto
next
  case (finishes k n i f r e now)
  have "n \<notin> set (ds_panicked s)" using ok(1) finishes(2) unfolding stranded_def by metis
  moreover have "di_inflight (ds_dispatcher s) i = Some (n, f)"
    using ok(2) finishes(2) unfolding calls_ok_def Let_def by blast
  ultimately have n: "n \<notin> set (ds_panicked s)" "di_inflight (ds_dispatcher s) i = Some (n, f)" .
  have "\<exists>j g. di_inflight (ds_dispatcher s') j = Some (m, g)" if "m \<in> set (ds_panicked s)" for m
  proof -
    from ok(1) that obtain j g where j: "di_inflight (ds_dispatcher s) j = Some (m, g)" by (auto simp: stranded_def)
    with n that have "j \<noteq> i" by auto
    with j have "di_inflight (ds_dispatcher s') j = Some (m, g)" by (simp add: finishes(1) Dispatch_finish_def)
    then show ?thesis by blast
  qed
  with ok(1) show ?thesis by (simp add: finishes(1) stranded_def)
next
  case (panics k n i f)
  have mine: "di_inflight (ds_dispatcher s) i = Some (n, f)"
    using ok(2) panics(2) unfolding calls_ok_def Let_def by blast
  have "j = k" if "ds_callers s j = Some (Calling n x g)" for j x g
  proof -
    have "di_inflight (ds_dispatcher s) x = Some (n, g)" using ok(2) that unfolding calls_ok_def Let_def by blast
    with mine ok(2) have "x = i" unfolding calls_ok_def Let_def by blast
    with mine \<open>di_inflight (ds_dispatcher s) x = _\<close> have "g = f" by simp
    with \<open>x = i\<close> that panics(2) ok(2) show ?thesis unfolding calls_ok_def Let_def by blast
  qed
  with mine ok(1) show ?thesis unfolding panics(1) stranded_def by auto
next
  case (wakes k n i f r)
  then show ?thesis using ok(1) by (auto simp: stranded_def)
next
  case (gives_up k n i f)
  then show ?thesis using ok(1) by (auto simp: stranded_def)
next
  case (forgets i)
  then show ?thesis using ok(1) by (simp add: stranded_def Forget_def)
qed

lemma panicked_step: "dispatch_step s s' \<Longrightarrow> set (ds_panicked s) \<subseteq> set (ds_panicked s')"
  by (cases rule: dispatch_step.cases) auto

lemma panicked_steps: "dispatch_step\<^sup>*\<^sup>* s s' \<Longrightarrow> n \<in> set (ds_panicked s) \<Longrightarrow> n \<in> set (ds_panicked s')"
  by (induction rule: rtranclp_induct) (use panicked_step in blast)+

lemma reach_steps: "dispatch_step\<^sup>*\<^sup>* s s' \<Longrightarrow> dispatch_reach s \<Longrightarrow> dispatch_reach s'"
  by (induction rule: rtranclp_induct) (auto intro: dispatch_reach.step)

lemma reach_ok:
  assumes "dispatch_reach s"
  shows "calls_ok s \<and> waits_ok s \<and> counts_ok s \<and> served s \<and> stranded s"
  using assms
proof induction
  case start
  show ?case
    by (simp add: calls_ok_def waits_ok_def counts_ok_def served_def stranded_def NewDispatcher_def known_def)
next
  case (step s s')
  then show ?case
    using calls_ok_step waits_ok_step counts_ok_step served_step stranded_step by blast
qed

section \<open>Properties\<close>

text \<open>C27. The gateway is given a command for an idempotency key at most once, plus once for each time
  the key was forgotten, however the callers interleave.\<close>
theorem command_sent_once:
  assumes "dispatch_reach s"
  shows "count_list (map fst (ds_commands s)) i \<le> count_list (ds_forgotten s) i + 1"
proof -
  have "count_list (map fst (ds_commands s)) i \<le>
      count_list (ds_forgotten s) i + (if i \<in> known (ds_dispatcher s) then 1 else 0)"
    using reach_ok [OF assms] by (simp add: counts_ok_def)
  also have "\<dots> \<le> count_list (ds_forgotten s) i + 1" by simp
  finally show ?thesis .
qed

text \<open>C28. As long as a key is not forgotten, any two callers that get an outcome for it, rather than a
  refusal or the end of their own context, had sent the same command and get the same result, the one
  of the gateway call.\<close>
theorem replies_agree:
  assumes "dispatch_reach s" "i \<notin> set (ds_forgotten s)"
    and "(i, f, r) \<in> set (ds_replies s)" "(i, g, q) \<in> set (ds_replies s)"
  shows "f = g \<and> r = q"
  using reach_ok [OF assms(1)] assms(2-4) unfolding waits_ok_def answered_def Let_def
  by (metis option.inject)

text \<open>C29. A caller that waits for another's call can get its result: it is there, or someone performs that
  very call, and once that one finishes the result is there. The one exception is a call in which the
  gateway panicked: its result never comes, whatever the callers do.\<close>
theorem no_lost_wakeup:
  assumes "dispatch_reach s" "ds_callers s k = Some (Waiting n i f)"
  shows "if n \<in> set (ds_panicked s)
    then \<forall>s'. dispatch_step\<^sup>*\<^sup>* s s' \<longrightarrow> di_done (ds_dispatcher s') n = None
    else (di_done (ds_dispatcher s) n \<noteq> None \<or> (\<exists>j. ds_callers s j = Some (Calling n i f))) \<and>
      (\<exists>s' r. dispatch_step\<^sup>*\<^sup>* s s' \<and> ds_callers s' k = Some (Waiting n i f) \<and>
        di_done (ds_dispatcher s') n = Some r)"
proof (cases "n \<in> set (ds_panicked s)")
  case True
  have "di_done (ds_dispatcher s') n = None" if s': "dispatch_step\<^sup>*\<^sup>* s s'" for s'
    using reach_ok [OF reach_steps [OF s' assms(1)]] panicked_steps [OF s' True] inflight_undone
    by (fastforce simp: stranded_def)
  with True show ?thesis by simp
next
  case False
  have "di_inflight (ds_dispatcher s) i = Some (n, f) \<or> (\<exists>r. di_done (ds_dispatcher s) n = Some r)"
    using reach_ok [OF assms(1)] assms(2) unfolding waits_ok_def Let_def by blast
  then consider r where "di_done (ds_dispatcher s) n = Some r" | j where "ds_callers s j = Some (Calling n i f)"
    using reach_ok [OF assms(1)] False unfolding served_def by blast
  then show ?thesis
  proof cases
    case 1
    with False assms(2) show ?thesis by (auto intro: exI [of _ s])
  next
    case 2
    let ?r = "gateway_outcome i None 0"
    let ?s = "s\<lparr>ds_dispatcher := Dispatch_finish i n f ?r (ds_dispatcher s), ds_callers := (ds_callers s)(j := None),
      ds_replies := (i, f, ?r) # ds_replies s\<rparr>"
    have "dispatch_step\<^sup>*\<^sup>* s ?s" using dispatch_step.finishes [OF 2 HOL.refl] by (rule r_into_rtranclp)
    moreover have "ds_callers ?s k = Some (Waiting n i f)" using 2 assms(2) by auto
    moreover have "di_done (ds_dispatcher ?s) n = Some ?r" by (simp add: Dispatch_finish_def)
    ultimately show ?thesis using False 2 by (simp only: if_False) blast
  qed
qed

definition waiting_state :: dispatch_system where
  "waiting_state = \<lparr>ds_dispatcher = snd (Dispatch_enter True ''k'' ''on'' (Inr ''{}'') 1 NewDispatcher),
     ds_callers = [0 \<mapsto> Calling 0 ''k'' ''{}'', 1 \<mapsto> Waiting 0 ''k'' ''{}''],
     ds_commands = [(''k'', ''{}'')], ds_forgotten = [], ds_replies = [], ds_panicked = []\<rparr>"

definition answered_state :: dispatch_system where
  "answered_state = waiting_state
     \<lparr>ds_dispatcher := Dispatch_finish ''k'' 0 ''{}'' (gateway_outcome ''k'' None 2) (ds_dispatcher waiting_state),
      ds_callers := Map.empty,
      ds_replies := [(''k'', ''{}'', gateway_outcome ''k'' None 2), (''k'', ''{}'', gateway_outcome ''k'' None 2)]\<rparr>"

lemma waiting_reached: "dispatch_reach waiting_state"
proof -
  let ?s0 = "\<lparr>ds_dispatcher = NewDispatcher, ds_callers = Map.empty, ds_commands = [],
     ds_forgotten = [], ds_replies = [], ds_panicked = []\<rparr>"
  let ?d = "snd (Dispatch_enter True ''k'' ''on'' (Inr ''{}'') 1 NewDispatcher)"
  have a: "Dispatch_enter True ''k'' ''on'' (Inr ''{}'') 1 NewDispatcher = (Begin 0, ?d)"
    by (simp add: Dispatch_enter_def NewDispatcher_def)
  have b: "Dispatch_enter True ''k'' ''on'' (Inr ''{}'') 1 ?d = (Join 0, ?d)"
    by (simp add: Dispatch_enter_def NewDispatcher_def)
  have "dispatch_step ?s0 (?s0\<lparr>ds_dispatcher := ?d, ds_callers := (ds_callers ?s0)(0 \<mapsto> Calling 0 ''k'' ''{}''),
     ds_commands := (''k'', ''{}'') # ds_commands ?s0\<rparr>)" (is "dispatch_step _ ?s1")
    by (rule dispatch_step.begins [where act = "''on''" and g = True and now = 1]) (use a in simp_all)
  with dispatch_reach.start have r: "dispatch_reach ?s1" by (rule dispatch_reach.step)
  have "dispatch_step ?s1 (?s1\<lparr>ds_dispatcher := ?d, ds_callers := (ds_callers ?s1)(1 \<mapsto> Waiting 0 ''k'' ''{}'')\<rparr>)"
    by (rule dispatch_step.joins [where act = "''on''" and g = True and now = 1]) (use b in simp_all)
  with r have "dispatch_reach (?s1\<lparr>ds_dispatcher := ?d, ds_callers := (ds_callers ?s1)(1 \<mapsto> Waiting 0 ''k'' ''{}'')\<rparr>)"
    by (rule dispatch_reach.step)
  then show ?thesis by (simp add: waiting_state_def)
qed

lemma answered_reached: "dispatch_reach answered_state"
proof -
  let ?r = "gateway_outcome ''k'' None 2"
  let ?s1 = "waiting_state\<lparr>ds_dispatcher := Dispatch_finish ''k'' 0 ''{}'' ?r (ds_dispatcher waiting_state),
       ds_callers := (ds_callers waiting_state)(0 := None), ds_replies := (''k'', ''{}'', ?r) # ds_replies waiting_state\<rparr>"
  have "dispatch_step waiting_state ?s1"
    by (rule dispatch_step.finishes [where e = None and now = 2]) (simp_all add: waiting_state_def)
  with waiting_reached have r: "dispatch_reach ?s1" by (rule dispatch_reach.step)
  have "dispatch_step ?s1 (?s1\<lparr>ds_callers := (ds_callers ?s1)(1 := None),
      ds_replies := (''k'', ''{}'', ?r) # ds_replies ?s1\<rparr>)" (is "dispatch_step _ ?s2")
    by (rule dispatch_step.wakes [where n = 0]) (simp_all add: waiting_state_def Dispatch_finish_def)
  with r have "dispatch_reach ?s2" by (rule dispatch_reach.step)
  moreover have "?s2 = answered_state"
    by (simp add: answered_state_def waiting_state_def fun_eq_iff)
  ultimately show ?thesis by simp
qed

theorem command_sent_once_witness:
  "count_list (map fst (ds_commands answered_state)) ''k'' = 1 \<and>
   count_list (map fst (ds_commands answered_state)) ''k'' \<le> count_list (ds_forgotten answered_state) ''k'' + 1"
  using command_sent_once [OF answered_reached, of "''k''"]
  by (simp add: answered_state_def waiting_state_def)

theorem replies_agree_witness:
  "length (ds_replies answered_state) = 2 \<and> snd (ds_replies answered_state ! 0) = snd (ds_replies answered_state ! 1)"
proof -
  have n: "length (ds_replies answered_state) = 2" "''k'' \<notin> set (ds_forgotten answered_state)"
    by (simp_all add: answered_state_def waiting_state_def)
  obtain f r where 0: "ds_replies answered_state ! 0 = (''k'', f, r)" by (simp add: answered_state_def)
  obtain g q where 1: "ds_replies answered_state ! 1 = (''k'', g, q)" by (simp add: answered_state_def)
  have "(''k'', f, r) \<in> set (ds_replies answered_state)" "(''k'', g, q) \<in> set (ds_replies answered_state)"
    using nth_mem [of 0 "ds_replies answered_state"] nth_mem [of 1 "ds_replies answered_state"] unfolding n(1) 0 1
    by simp_all
  from replies_agree [OF answered_reached n(2) this] n(1) 0 1 show ?thesis by simp
qed

theorem no_lost_wakeup_witness:
  "(\<exists>j. ds_callers waiting_state j = Some (Calling 0 ''k'' ''{}'')) \<and>
   (\<exists>s' r. dispatch_step\<^sup>*\<^sup>* waiting_state s' \<and> ds_callers s' 1 = Some (Waiting 0 ''k'' ''{}'') \<and>
     di_done (ds_dispatcher s') 0 = Some r)"
proof -
  have "di_done (ds_dispatcher waiting_state) 0 = None"
    by (simp add: waiting_state_def Dispatch_enter_def NewDispatcher_def Let_def)
  then show ?thesis
    using no_lost_wakeup [OF waiting_reached, of 1 0 "''k''" "''{}''"] by (simp add: waiting_state_def)
qed

text \<open>A waiter that is stranded: the gateway panics in the call it waits for, and every later caller of the
  key that sends the same command joins it.\<close>

definition stranded_state :: dispatch_system where
  "stranded_state = waiting_state\<lparr>ds_callers := (ds_callers waiting_state)(0 := None), ds_panicked := [0]\<rparr>"

lemma stranded_waiter:
  "dispatch_reach stranded_state \<and> ds_callers stranded_state 1 = Some (Waiting 0 ''k'' ''{}'') \<and>
   (\<forall>s'. dispatch_step\<^sup>*\<^sup>* stranded_state s' \<longrightarrow> di_done (ds_dispatcher s') 0 = None) \<and>
   fst (Dispatch_enter True ''k'' ''on'' (Inr ''{}'') 9 (ds_dispatcher stranded_state)) = Join 0"
proof -
  have "dispatch_step waiting_state stranded_state"
    using dispatch_step.panics [of waiting_state 0 0 "''k''" "''{}''"] by (simp add: waiting_state_def stranded_state_def)
  with waiting_reached have r: "dispatch_reach stranded_state" by (rule dispatch_reach.step)
  have "di_done (ds_dispatcher s') 0 = None" if s': "dispatch_step\<^sup>*\<^sup>* stranded_state s'" for s'
    using reach_ok [OF reach_steps [OF s' r]] panicked_steps [OF s', of 0] inflight_undone
    by (fastforce simp: stranded_def stranded_state_def)
  moreover have "fst (Dispatch_enter True ''k'' ''on'' (Inr ''{}'') 9 (ds_dispatcher stranded_state)) = Join 0"
    by (simp add: stranded_state_def waiting_state_def Dispatch_enter_def NewDispatcher_def)
  ultimately show ?thesis using r by (simp add: stranded_state_def waiting_state_def)
qed

end
