(* ===== verification/Worker.thy ===== *)
theory Worker
  imports Automation_Service
begin

text \<open>
  \<^verbatim>\<open>internal/worker/worker.go\<close>: the runner that claims queued automation runs and executes them,
  and the runner that claims outbox messages and publishes them. Both poll: a tick of their ticker
  is one \<^verbatim>\<open>process\<close>. A log is the list of its messages with their errors; what a process hands to
  the publisher is the list it returns.
\<close>

section \<open>Logging\<close>

type_synonym log = "(string \<times> err) list"

definition err_of :: "err + 'a \<Rightarrow> err option" where
  "err_of x = (case x of Inl e \<Rightarrow> Some e | Inr _ \<Rightarrow> None)"

text \<open>\<^verbatim>\<open>if err != nil && w.Logger != nil\<close>.\<close>

definition logged :: "bool \<Rightarrow> string \<Rightarrow> err option \<Rightarrow> log" where
  "logged has_logger text e = (case e of Some x \<Rightarrow> if has_logger then [(text, x)] else [] | None \<Rightarrow> [])"

section \<open>The automation runner\<close>

definition millisecond :: duration where
  "millisecond = 1000000"

record runner =
  rn_Workers :: int
  rn_PollInterval :: duration

definition New_runner :: "int \<Rightarrow> runner" where
  "New_runner n = \<lparr>rn_Workers = (if n < 1 then 1 else n), rn_PollInterval = 100 * millisecond\<rparr>"

text \<open>The start of \<^verbatim>\<open>Run\<close>; \<open>configured\<close> says that the runner, its repository and its service are there.\<close>

definition Runner_start :: "bool \<Rightarrow> runner \<Rightarrow> err + runner" where
  "Runner_start configured w =
     (if \<not> configured then Inl (ErrorString ''automation runner is not configured'')
      else Inr (w\<lparr>rn_Workers := (if rn_Workers w < 1 then 1 else rn_Workers w),
        rn_PollInterval := (if rn_PollInterval w \<le> 0 then 100 * millisecond else rn_PollInterval w)\<rparr>))"

text \<open>\<open>ctx_err\<close> is the error of the context once it is done, \<open>clock\<close> the service's and \<open>now\<close> the wall clock.\<close>

definition Runner_process ::
    "bool \<Rightarrow> world clock \<Rightarrow> time \<Rightarrow> err option \<Rightarrow> world \<Rightarrow> log \<times> world" where
  "Runner_process has_logger clock now ctx_err w =
     (case ClaimRun w of
        (Inl e, w1) \<Rightarrow>
          (if \<not> err_is e ErrNoRows then logged has_logger ''automation claim failed'' (Some e) else [], w1)
      | (Inr run, w1) \<Rightarrow>
          (case Execute repo_automations clock ctx_err (run_ID run) w1 of
             (Inr _, w2) \<Rightarrow> ([], w2)
           | (Inl e, w2) \<Rightarrow>
               (let l = logged has_logger ''automation run failed'' (Some e) in
                if err_is e Canceled \<or> err_is e DeadlineExceeded
                then case RequeueRun (run_ID run) w2 of
                  (r, w3) \<Rightarrow> (l @ logged has_logger ''cancelled automation run was not requeued'' (err_of r), w3)
                else case FinishRun (run_ID run) RunFailed (err_text e) now w2 of
                  (r, w3) \<Rightarrow> (l @ logged has_logger ''automation failure state was not persisted'' (err_of r), w3))))"

section \<open>The outbox runner\<close>

record outbox_runner =
  ow_RetryLimit :: int
  ow_PollInterval :: duration

definition OutboxRunner_start :: "bool \<Rightarrow> outbox_runner \<Rightarrow> err + outbox_runner" where
  "OutboxRunner_start configured w =
     (if \<not> configured then Inl (ErrorString ''outbox runner is not configured'')
      else Inr (w\<lparr>ow_PollInterval := (if ow_PollInterval w \<le> 0 then 100 * millisecond else ow_PollInterval w),
        ow_RetryLimit := (if ow_RetryLimit w < 1 then 5 else ow_RetryLimit w)\<rparr>))"

definition OutboxRunner_process ::
    "env \<Rightarrow> bool \<Rightarrow> int \<Rightarrow> time \<Rightarrow> (outbox_message \<Rightarrow> err option) \<Rightarrow> world \<Rightarrow> (log \<times> outbox_message list) \<times> world" where
  "OutboxRunner_process e has_logger limit now publish w =
     (case ClaimOutbox (env_pg e) w of
        (Inl x, w1) \<Rightarrow>
          ((if \<not> err_is x ErrNoRows then logged has_logger ''outbox claim failed'' (Some x) else [], []), w1)
      | (Inr msg, w1) \<Rightarrow>
          (case publish msg of
             None \<Rightarrow>
               (case MarkOutbox (out_ID msg) True 0 w1 of
                  (r, w2) \<Rightarrow> ((logged has_logger ''outbox delivery state was not persisted'' (err_of r), [msg]), w2))
           | Some pubErr \<Rightarrow>
               if out_Attempts msg \<ge> limit
               then case MarkOutboxFailed (out_ID msg) (err_text pubErr) w1 of
                 (r, w2) \<Rightarrow> ((logged has_logger ''outbox permanent failure was not persisted'' (err_of r) @
                   logged has_logger ''outbox permanently failed'' (Some pubErr), [msg]), w2)
               else
                 (let next_at = now + wrap64 (out_Attempts msg * second) in
                  case RescheduleOutbox (env_pg e) (env_quoted e) (out_ID msg) (out_Attempts msg) next_at (Some pubErr) w1 of
                    (r, w2) \<Rightarrow> ((logged has_logger ''outbox retry was not persisted'' (err_of r), [msg]), w2))))"

record memory_publisher =
  mp_Err :: "err option"
  mp_Messages :: "outbox_message list"

definition MemoryPublisher_Publish :: "outbox_message \<Rightarrow> memory_publisher \<Rightarrow> err option \<times> memory_publisher" where
  "MemoryPublisher_Publish m p =
     (case mp_Err p of
        Some e \<Rightarrow> (Some e, p)
      | None \<Rightarrow> (None, p\<lparr>mp_Messages := mp_Messages p @ [m]\<rparr>))"

section \<open>Polling\<close>

text \<open>The loops of both runners: a tick is a step of the process, the end of the context ends them.\<close>

datatype 'a poll_event = Tick 'a | ContextDone

fun poll_loop :: "('a \<Rightarrow> 'w \<Rightarrow> 'w) \<Rightarrow> 'a poll_event list \<Rightarrow> 'w \<Rightarrow> 'w" where
  "poll_loop process [] w = w"
| "poll_loop process (ContextDone # es) w = w"
| "poll_loop process (Tick x # es) w = poll_loop process es (process x w)"

section \<open>What a process keeps\<close>

lemma kept_steps:
  assumes "kept b (wdb w)"
  shows "kept b (wdb (snd (ClaimRun w)))" "kept b (wdb (snd (RequeueRun i w)))"
    "kept b (wdb (snd (FinishRun i RunFailed text t w)))" "kept b (wdb (snd (ExecuteAutomationRun i t w)))"
    "kept b (wdb (snd (ClaimOutbox p w)))" "kept b (wdb (snd (MarkOutbox i d t w)))"
    "kept b (wdb (snd (MarkOutboxFailed i text w)))" "kept b (wdb (snd (RescheduleOutbox p q i n t x w)))"
  by (rule steadyD [where I = "kept b", OF _ assms],
      (rule steady_ExecuteAutomationRun | (unfold single_statement_defs)?,
        intro steady_intros grows_statements grows_closing_updates grows_run_updates))+

lemma kept_Execute:
  assumes "kept b (wdb w)" and "\<And>v. wdb (snd (clock v)) = wdb v"
  shows "kept b (wdb (snd (Execute repo_automations clock ctx i w)))"
  using assms kept_steps(4) [of b "snd (clock w)" i "fst (clock w)"]
  by (auto simp: Execute_def with_now_def repo_automations_def split: option.split prod.split)

lemma kept_Runner_process:
  assumes "kept b (wdb w)" and "\<And>v. wdb (snd (clock v)) = wdb v"
  shows "kept b (wdb (snd (Runner_process g clock now ctx w)))"
proof (cases "ClaimRun w")
  case (Pair x w1)
  then have k1: "kept b (wdb w1)" using kept_steps(1) [OF assms(1)] by simp
  show ?thesis
  proof (cases x)
    case (Inl e)
    with Pair k1 show ?thesis by (simp add: Runner_process_def)
  next
    case (Inr run)
    obtain y w2 where ex: "Execute repo_automations clock ctx (run_ID run) w1 = (y, w2)" by fastforce
    then have k2: "kept b (wdb w2)" using kept_Execute [OF k1 assms(2), of ctx "run_ID run"] by simp
    from Pair Inr ex k2 show ?thesis
      using kept_steps(2,3) [OF k2]
      by (cases y) (simp_all add: Runner_process_def Let_def split_beta)
  qed
qed

lemma kept_OutboxRunner_process:
  assumes "kept b (wdb w)"
  shows "kept b (wdb (snd (OutboxRunner_process e g limit now publish w)))"
proof (cases "ClaimOutbox (env_pg e) w")
  case (Pair x w1)
  then have k1: "kept b (wdb w1)" using kept_steps(5) [OF assms, of "env_pg e"] by simp
  from Pair k1 show ?thesis
    using kept_steps(6-8) [OF k1]
    by (cases x) (simp_all add: OutboxRunner_process_def Let_def split_beta split: option.split)
qed

text \<open>Without pending faults no call sees one.\<close>

definition calm :: "world \<Rightarrow> bool" where
  "calm w \<longleftrightarrow> wfaults w = []"

lemma calm_stmt: "keeps calm (stmt f)"
  by (rule keepsI) (simp add: calm_def stmt_run)

lemma calm_driver_call: "keeps calm driver_call"
  unfolding driver_call_def by (rule calm_stmt)

lemma calm_rollback [simp]: "calm (rollback db w) \<longleftrightarrow> calm w"
  by (simp add: calm_def rollback_def)

lemma calm_WithTx:
  assumes "keeps calm body"
  shows "keeps calm (WithTx body)"
proof (rule keepsI)
  fix w
  assume "calm w"
  then have d: "driver_call w = (Inr (), w)" by (simp add: calm_def driver_call_run)
  obtain x w2 where b: "body w = (x, w2)" by fastforce
  with keepsD [OF assms \<open>calm w\<close>] have "calm w2" by simp
  then have "driver_call w2 = (Inr (), w2)" by (simp add: calm_def driver_call_run)
  with d b \<open>calm w2\<close> show "calm (snd (WithTx body w))" by (simp add: WithTx_def split: sum.split)
qed

lemma calm_case_prod: "(\<And>x y. keeps P (f x y)) \<Longrightarrow> keeps P (case z of (x, y) \<Rightarrow> f x y)"
  by (cases z) simp

lemma calm_ExecuteAutomationRun: "keeps calm (ExecuteAutomationRun i t)"
  unfolding ExecuteAutomationRun_def enqueue_action_def query_def
  by (intro keeps_if keeps_fail calm_WithTx keeps_and_then keeps_map_err keeps_for_each keeps_ret calm_stmt
      calm_driver_call calm_case_prod)

section \<open>Runs\<close>

abbreviation queued :: "run_row \<Rightarrow> bool" where
  "queued r \<equiv> rr_State r = RunQueued"

lemma ClaimRun_calm:
  assumes "calm w"
  shows "ClaimRun w = (case least_by rr_ID queued (db_runs (wdb w)) of
      None \<Rightarrow> (Inl ErrNoRows, w)
    | Some c \<Rightarrow> (Inr ((scan_run c)\<lparr>run_State := RunRunning, run_StartedAt := Some (wnow w)\<rparr>),
        w\<lparr>wdb := (wdb w)\<lparr>db_runs := update_where (\<lambda>r. rr_ID r = rr_ID c)
          (\<lambda>r. r\<lparr>rr_State := RunRunning, rr_StartedAt := Some (wnow w)\<rparr>) (db_runs (wdb w))\<rparr>\<rparr>))"
  using assms by (cases "least_by rr_ID queued (db_runs (wdb w))")
    (simp_all add: ClaimRun_def calm_def stmt_run claim_run_def)

lemma ClaimRun_Inl:
  assumes "ClaimRun w = (Inl e, w1)"
  shows "wdb w1 = wdb w \<and> (calm w \<longrightarrow> w1 = w \<and> \<not> list_ex queued (db_runs (wdb w)))"
proof (cases "calm w")
  case True
  with assms show ?thesis by (auto simp: ClaimRun_calm least_by_None split: option.splits)
next
  case False
  with assms show ?thesis
    unfolding ClaimRun_def by (cases claim_run w rule: stmt_cases) (auto simp: claim_run_def split: option.splits)
qed

lemma claimed_run_running:
  assumes "schema_ok (wdb w)" "ClaimRun w = (Inr run, w1)"
  obtains c where "c \<in> set (db_runs (wdb w1))" "running (run_ID run) c"
    "schema_ok (wdb w1)" "calm w \<longrightarrow> calm w1" "db_outbox (wdb w1) = db_outbox (wdb w)" "db_audit (wdb w1) = db_audit (wdb w)"
proof -
  have s: "stmt claim_run w = (Inr run, w1)" using assms(2) by (simp add: ClaimRun_def)
  from stmt_Inr [OF s] obtain c where c: "least_by rr_ID queued (db_runs (wdb w)) = Some c" "run_ID run = rr_ID c"
      and w1: "wdb w1 = (wdb w)\<lparr>db_runs := update_where (\<lambda>r. rr_ID r = rr_ID c)
          (\<lambda>r. r\<lparr>rr_State := RunRunning, rr_StartedAt := Some (wnow w)\<rparr>) (db_runs (wdb w))\<rparr>"
      and f: "wfaults w1 = tl (wfaults w)"
    by (auto simp: claim_run_def scan_run_def split: option.splits)
  let ?f = "\<lambda>r. r\<lparr>rr_State := RunRunning, rr_StartedAt := Some (wnow w)\<rparr>"
  have "schema_ok (wdb w1)"
    using schema_ok_call [OF assms(1), of undefined Call_ClaimRun] assms(2)
    by (simp add: discard_def and_then_def)
  moreover have "?f c \<in> set (db_runs (wdb w1))"
    using least_by_Some [OF c(1)] update_where_mem [of c "db_runs (wdb w)" "\<lambda>r. rr_ID r = rr_ID c" ?f]
    by (simp add: w1)
  ultimately show thesis using that [of "?f c"] c(2) f by (simp add: w1 running_def calm_def)
qed

text \<open>The update of a run that is running succeeds, or the driver fails and the run stays as it is.\<close>

lemma update_run_outcome:
  assumes "schema_ok (wdb w)" "c \<in> set (db_runs (wdb w))" "running i c"
  obtains (updated) w' where "stmt (update_run i f) w = (Inr 1, w')"
      "wdb w' = (wdb w)\<lparr>db_runs := update_where (running i) f (db_runs (wdb w))\<rparr>"
    | (fault) e w' where "stmt (update_run i f) w = (Inl e, w')" "wdb w' = wdb w" "\<not> calm w"
proof -
  have "count_where (running i) (db_runs (wdb w)) = 1"
    using count_where_key [of rr_ID "db_runs (wdb w)" "running i" i] schema_keyed(5) [OF assms(1)] assms(2,3)
    by (auto simp: keyed_def running_def list_ex_iff)
  then show thesis
    using updated fault by (cases "update_run i f" w rule: stmt_cases) (auto simp: calm_def update_run_def)
qed

lemma Execute_outcome:
  assumes "schema_ok (wdb w)" "Execute repo_automations (FixedClock_Now t) ctx i w = (x, w')"
  shows "(calm w \<longrightarrow> calm w') \<and> schema_ok (wdb w') \<and>
    (case x of Inl e \<Rightarrow> same_tables (wdb w) (wdb w') | Inr _ \<Rightarrow> executed i t (wdb w) (wdb w'))"
proof (cases "0 < i \<and> ctx = None")
  case True
  with assms(2) have ex: "ExecuteAutomationRun i t w = (x, w')"
    by (simp add: Execute_def with_now_def FixedClock_Now_def repo_automations_def)
  have "calm w \<longrightarrow> calm w'" using keepsD [OF calm_ExecuteAutomationRun, of w i t] ex by simp
  moreover have "schema_ok (wdb w')"
    using schema_ok_call [OF assms(1), of undefined "Call_ExecuteAutomationRun i t"] ex by simp
  moreover have "same_tables (wdb w) (wdb w')" if "x = Inl e" for e
    using atomicD [OF atomic_run_call assms(1), of undefined "Call_ExecuteAutomationRun i t"] ex that by simp
  moreover have "executed i t (wdb w) (wdb w')" if "x = Inr u" for u
    using ExecuteAutomationRun_Inr ex that by simp
  ultimately show ?thesis by (cases x) auto
next
  case False
  with assms have "x = Inl (case ctx of Some e \<Rightarrow> if i \<le> 0 then ErrInvalid else e | None \<Rightarrow> ErrInvalid)" "w' = w"
    by (auto simp: Execute_def split: option.splits if_splits)
  with assms(1) show ?thesis by (simp add: same_tables_I)
qed

text \<open>The state a run that could not be executed is left in.\<close>

definition settled_run :: "err \<Rightarrow> time \<Rightarrow> run_row \<Rightarrow> run_row" where
  "settled_run e now r =
     (if is_cancellation e
      then r\<lparr>rr_State := RunQueued, rr_StartedAt := None, rr_ErrorText := None, rr_FinishedAt := None\<rparr>
      else r\<lparr>rr_State := RunFailed, rr_ErrorText := Some (err_text e), rr_FinishedAt := Some now\<rparr>)"

text \<open>A log that says that the new state of a run could not be stored.\<close>

definition unsettled :: "log \<Rightarrow> bool" where
  "unsettled l \<longleftrightarrow> list_ex (\<lambda>x. fst x \<in> {''cancelled automation run was not requeued'',
     ''automation failure state was not persisted''}) l"

text \<open>What the worker does after an execution that failed.\<close>

lemma settles_failed_run:
  assumes "schema_ok (wdb w2)" "c \<in> set (db_runs (wdb w2))" "running i c"
    and "(if is_cancellation e
      then case RequeueRun i w2 of (r, w3) \<Rightarrow> (l0 @ logged g ''cancelled automation run was not requeued'' (err_of r), w3)
      else case FinishRun i RunFailed (err_text e) now w2 of
        (r, w3) \<Rightarrow> (l0 @ logged g ''automation failure state was not persisted'' (err_of r), w3)) = (l, w')"
  shows "wdb w' = (wdb w2)\<lparr>db_runs := update_where (running i) (settled_run e now) (db_runs (wdb w2))\<rparr> \<or>
    wdb w' = wdb w2 \<and> \<not> calm w2 \<and> (g \<longrightarrow> unsettled l)"
proof (cases "is_cancellation e")
  case True
  show ?thesis
    by (rule update_run_outcome [OF assms(1-3), of "\<lambda>r. r\<lparr>rr_State := RunQueued, rr_StartedAt := None,
        rr_ErrorText := None, rr_FinishedAt := None\<rparr>"])
      (use assms(4) True in \<open>auto simp: RequeueRun_def and_then_def map_err_def settled_run_def [abs_def] err_of_def
        logged_def unsettled_def\<close>)
next
  case False
  show ?thesis
    by (rule update_run_outcome [OF assms(1-3), of "\<lambda>r. r\<lparr>rr_State := RunFailed, rr_ErrorText := Some (err_text e),
        rr_FinishedAt := Some now\<rparr>"])
      (use assms(4) False in \<open>auto simp: FinishRun_def and_then_def map_err_def settled_run_def [abs_def] err_of_def
        logged_def unsettled_def\<close>)
qed

text \<open>C30. A process that claims a run settles it, whatever the driver does: the run is dispatched completely
  and has succeeded, or nothing was sent and it is queued again when the context was done, or failed with
  the error. Only when the driver fails while that last state is stored does the run stay running as
  claimed, with nothing sent and the failure logged; then it is left to the maintenance, which fails stale
  runs. If no run is claimed no table changes, and without failures of the driver none was queued.\<close>

theorem worker_settles_run:
  assumes ok: "schema_ok (wdb w)"
    and p: "Runner_process g (FixedClock_Now t) now ctx w = (l, w')"
  shows "case ClaimRun w of
      (Inl e, _) \<Rightarrow> wdb w' = wdb w \<and> (calm w \<longrightarrow> \<not> list_ex queued (db_runs (wdb w)))
    | (Inr run, w1) \<Rightarrow> list_ex (running (run_ID run)) (db_runs (wdb w1)) \<and>
        (case fst (Execute repo_automations (FixedClock_Now t) ctx (run_ID run) w1) of
           Inr _ \<Rightarrow> executed (run_ID run) t (wdb w1) (wdb w') \<and> \<not> list_ex (running (run_ID run)) (db_runs (wdb w'))
         | Inl e \<Rightarrow> db_outbox (wdb w') = db_outbox (wdb w) \<and> db_audit (wdb w') = db_audit (wdb w) \<and>
             (db_runs (wdb w') = update_where (running (run_ID run)) (settled_run e now) (db_runs (wdb w1)) \<and>
                \<not> list_ex (running (run_ID run)) (db_runs (wdb w')) \<or>
              db_runs (wdb w') = db_runs (wdb w1) \<and> \<not> calm w \<and> (g \<longrightarrow> unsettled l)))"
proof (cases "ClaimRun w")
  case (Pair x w1)
  show ?thesis
  proof (cases x)
    case (Inl e)
    with Pair have "ClaimRun w = (Inl e, w1)" by simp
    from ClaimRun_Inl [OF this] Inl Pair p show ?thesis by (auto simp: Runner_process_def)
  next
    case (Inr run)
    let ?i = "run_ID run"
    from Pair Inr have "ClaimRun w = (Inr run, w1)" by simp
    from claimed_run_running [OF ok this] obtain c where c: "c \<in> set (db_runs (wdb w1))" "running ?i c"
      and w1: "schema_ok (wdb w1)" "calm w \<longrightarrow> calm w1" "db_outbox (wdb w1) = db_outbox (wdb w)" "db_audit (wdb w1) = db_audit (wdb w)" .
    have claimed: "list_ex (running ?i) (db_runs (wdb w1))" using c by (auto simp: list_ex_iff)
    obtain y w2 where ex: "Execute repo_automations (FixedClock_Now t) ctx ?i w1 = (y, w2)" by fastforce
    note x2 = Execute_outcome [OF w1(1) ex]
    have gone: "\<not> list_ex (running ?i) (update_where (running ?i) f rows)"
      if "\<And>r. rr_State (f r) \<noteq> RunRunning" for f and rows
      using that by (auto simp: list_ex_iff set_update_where running_def)
    show ?thesis
    proof (cases y)
      case (Inr u)
      with p Pair \<open>x = Inr run\<close> ex x2 have "executed ?i t (wdb w1) (wdb w')"
        by (simp add: Runner_process_def)
      moreover from this have "\<not> list_ex (running ?i) (db_runs (wdb w'))"
        unfolding executed_def using gone by fastforce
      ultimately show ?thesis using Pair \<open>x = Inr run\<close> ex Inr claimed by simp
    next
      case (Inl e)
      then have same: "same_tables (wdb w1) (wdb w2)" using x2 by simp
      with c(1) have c2: "c \<in> set (db_runs (wdb w2))" by (simp add: same_tablesD)
      have "wdb w' = (wdb w2)\<lparr>db_runs := update_where (running ?i) (settled_run e now) (db_runs (wdb w2))\<rparr> \<or>
          wdb w' = wdb w2 \<and> \<not> calm w2 \<and> (g \<longrightarrow> unsettled l)"
        using p Pair \<open>x = Inr run\<close> ex Inl x2
        by (intro settles_failed_run [where ?l0.0 = "logged g ''automation run failed'' (Some e)", OF _ c2 c(2)])
          (simp_all add: Runner_process_def Let_def is_cancellation_def)
      with same w1(2-4) x2 claimed gone [of "settled_run e now"] show ?thesis
        using Pair \<open>x = Inr run\<close> ex Inl by (auto simp: same_tablesD settled_run_def)
    qed
  qed
qed

section \<open>Messages\<close>

text \<open>A closing update of a message that is pending succeeds, or the driver fails and the message stays as it is.\<close>

lemma update_pending_outcome:
  assumes "schema_ok (wdb w)" "c \<in> set (db_outbox (wdb w))" "obr_ID c = i" "pending c"
  obtains (updated) w' where "stmt (update_pending i f) w = (Inr 1, w')"
      "wdb w' = (wdb w)\<lparr>db_outbox := update_where (\<lambda>r. obr_ID r = i) (f (wnow w)) (db_outbox (wdb w))\<rparr>"
    | (fault) e w' where "stmt (update_pending i f) w = (Inl e, w')" "wdb w' = wdb w" "\<not> calm w"
proof -
  let ?hit = "\<lambda>r. obr_ID r = i \<and> pending r"
  have keyed: "keyed obr_ID (db_outbox (wdb w)) (seqs (wdb w) TOutbox)" by (rule schema_keyed(7) [OF assms(1)])
  have "count_where ?hit (db_outbox (wdb w)) = 1"
    using count_where_key [of obr_ID "db_outbox (wdb w)" ?hit i] keyed assms(2-4)
    by (auto simp: keyed_def list_ex_iff)
  moreover have "update_where ?hit g (db_outbox (wdb w)) = update_where (\<lambda>r. obr_ID r = i) g (db_outbox (wdb w))" for g
  proof -
    have "x = c" if "x \<in> set (db_outbox (wdb w))" "obr_ID x = i" for x
      using keyed_inj [OF keyed assms(2) that(1)] assms(3) that(2) by simp
    then show ?thesis unfolding update_where_def using assms(4) by (intro map_cong) auto
  qed
  ultimately have "update_pending i f (wnow w) (wdb w) =
      (Inr 1, (wdb w)\<lparr>db_outbox := update_where (\<lambda>r. obr_ID r = i) (f (wnow w)) (db_outbox (wdb w))\<rparr>)"
    by (simp add: update_pending_def Let_def)
  then show thesis
    using updated fault by (cases "update_pending i f" w rule: stmt_cases) (auto simp: calm_def)
qed

text \<open>What becomes of the message \<open>c\<close> that a process claims: \<open>server\<close> is the database's clock.\<close>

definition claimed :: "time \<Rightarrow> outbox_row \<Rightarrow> outbox_row" where
  "claimed server c = c\<lparr>obr_LockedAt := Some server, obr_Attempts := obr_Attempts c + 1\<rparr>"

definition after_publish ::
    "env \<Rightarrow> int \<Rightarrow> time \<Rightarrow> (outbox_message \<Rightarrow> err option) \<Rightarrow> time \<Rightarrow> outbox_row \<Rightarrow> outbox_row" where
  "after_publish e limit now publish server c =
     (let n = obr_Attempts c + 1 in
      case publish (scan_outbox (env_pg e) (claimed server c)) of
        None \<Rightarrow> (claimed server c)\<lparr>obr_DeliveredAt := Some server, obr_LockedAt := None\<rparr>
      | Some x \<Rightarrow>
          if limit \<le> n
          then (claimed server c)\<lparr>obr_LockedAt := None, obr_FailedAt := Some server, obr_FailureReason := Some (err_text x)\<rparr>
          else case jsonb_in (env_pg e) (attempt_json (env_quoted e) n (Some x)) of
            Inl _ \<Rightarrow> claimed server c
          | Inr j \<Rightarrow> c\<lparr>obr_Attempts := n, obr_AvailableAt := now + n * second, obr_LockedAt := None,
              obr_Payload := jsonb_concat (obr_Payload c) j\<rparr>)"

lemma update_where_twice:
  "(\<And>r. p r \<Longrightarrow> p (f r)) \<Longrightarrow> update_where p g (update_where p f rows) = update_where p (\<lambda>r. g (f r)) rows"
  by (simp add: update_where_def)

lemma update_where_unique:
  assumes "keyed key rows n" "c \<in> set rows" "f c = g c"
  shows "update_where (\<lambda>r. key r = key c) f rows = update_where (\<lambda>r. key r = key c) g rows"
  unfolding update_where_def using keyed_inj [OF assms(1) _ assms(2)] assms(3) by (intro map_cong) auto

lemma ClaimOutbox_row:
  assumes "schema_ok (wdb w)" "ClaimOutbox p w = (Inr m, w1)"
  obtains c where "c \<in> set (db_outbox (wdb w))" "claimable (wnow w) c" "m = scan_outbox p (claimed (wnow w) c)"
    "wdb w1 = (wdb w)\<lparr>db_outbox := update_where (\<lambda>r. obr_ID r = obr_ID c) (claimed (wnow w)) (db_outbox (wdb w))\<rparr>"
    "least_by obr_ID (claimable (wnow w)) (db_outbox (wdb w)) = Some c"
    "obr_Attempts c \<noteq> 2147483647" "calm w \<longrightarrow> calm w1" "schema_ok (wdb w1)" "claimed (wnow w) c \<in> set (db_outbox (wdb w1))"
    "wnow w1 = wnow w"
proof -
  have s: "stmt (claim_outbox p) w = (Inr m, w1)" using assms(2) by (simp add: ClaimOutbox_def)
  from stmt_Inr [OF s] obtain c where c: "least_by obr_ID (claimable (wnow w)) (db_outbox (wdb w)) = Some c"
      and n: "obr_Attempts c \<noteq> 2147483647" and m: "m = scan_outbox p (claimed (wnow w) c)"
      and w1: "wdb w1 = (wdb w)\<lparr>db_outbox :=
        update_where (\<lambda>r. obr_ID r = obr_ID c) (claimed (wnow w)) (db_outbox (wdb w))\<rparr>"
      and f: "wfaults w1 = tl (wfaults w)" "wnow w1 = wnow w"
    by (auto simp: claim_outbox_def Let_def claimed_def [abs_def] split: option.splits if_splits)
  have "schema_ok (wdb w1)"
    using kept_steps(5) [OF keptI [OF assms(1)], of p] assms(2) by (simp add: kept_def)
  moreover have "claimed (wnow w) c \<in> set (db_outbox (wdb w1))"
    using least_by_Some [OF c] update_where_mem [of c _ "\<lambda>r. obr_ID r = obr_ID c" "claimed (wnow w)"]
    by (simp add: w1)
  ultimately show thesis using that [OF _ _ m w1 c n] least_by_Some [OF c] f by (simp add: calm_def)
qed

lemma update_where_id [simp]: "update_where p id rows = rows"
  by (simp add: update_where_def cong: if_cong)

lemma reschedule_outcome:
  assumes "schema_ok (wdb w)" "c \<in> set (db_outbox (wdb w))" "obr_ID c = i" "pending c" "0 \<le> n" "fits_int4 n"
  obtains (rejected) e w' y where "stmt (reschedule_outbox p q i n t x) w = (Inl e, w')" "wdb w' = wdb w"
      "jsonb_in p (attempt_json q n x) = Inl y"
    | (updated) w' j where "stmt (reschedule_outbox p q i n t x) w = (Inr 1, w')" "jsonb_in p (attempt_json q n x) = Inr j"
      "wdb w' = (wdb w)\<lparr>db_outbox := update_where (\<lambda>r. obr_ID r = i)
         (\<lambda>r. r\<lparr>obr_Attempts := n, obr_AvailableAt := t, obr_LockedAt := None,
            obr_Payload := jsonb_concat (obr_Payload r) j\<rparr>) (db_outbox (wdb w))\<rparr>"
    | (fault) e w' where "stmt (reschedule_outbox p q i n t x) w = (Inl e, w')" "wdb w' = wdb w" "\<not> calm w"
proof (cases "jsonb_in p (attempt_json q n x)")
  case (Inl y)
  then show thesis using assms(6) rejected fault
    by (cases "reschedule_outbox p q i n t x" w rule: stmt_cases) (auto simp: reschedule_outbox_def calm_def)
next
  case (Inr j)
  with assms(5,6) have "reschedule_outbox p q i n t x = update_pending i (\<lambda>now r. r\<lparr>obr_Attempts := n,
      obr_AvailableAt := t, obr_LockedAt := None, obr_Payload := jsonb_concat (obr_Payload r) j\<rparr>)"
    by (intro ext) (simp add: reschedule_outbox_def)
  then show thesis using updated fault Inr
    by (cases rule: update_pending_outcome [OF assms(1-4), of "\<lambda>now r. r\<lparr>obr_Attempts := n,
      obr_AvailableAt := t, obr_LockedAt := None, obr_Payload := jsonb_concat (obr_Payload r) j\<rparr>"]) auto
qed

text \<open>A log that says that the outcome of a publication could not be stored.\<close>

definition unrecorded :: "log \<Rightarrow> bool" where
  "unrecorded l \<longleftrightarrow> list_ex (\<lambda>x. fst x \<in> {''outbox delivery state was not persisted'',
     ''outbox permanent failure was not persisted'', ''outbox retry was not persisted''}) l"

text \<open>Publishing a claimed message and recording the outcome.\<close>

lemma publish_outcome:
  assumes k: "schema_ok (wdb w1)" "claimed n c \<in> set (db_outbox (wdb w1))" "wnow w1 = n"
    and pend: "pending c" and bounds: "0 \<le> obr_Attempts c" "obr_Attempts c + 1 \<le> 2147483647"
    and claim: "ClaimOutbox (env_pg e) w = (Inr m, w1)" and m: "m = scan_outbox (env_pg e) (claimed n c)"
    and p: "OutboxRunner_process e g limit now publish w = ((l, ms), w')"
  obtains h where "ms = [m]"
    "wdb w' = (wdb w1)\<lparr>db_outbox := update_where (\<lambda>r. obr_ID r = obr_ID c) h (db_outbox (wdb w1))\<rparr>"
    "h (claimed n c) = after_publish e limit now publish n c \<or>
     h (claimed n c) = claimed n c \<and> \<not> calm w1 \<and> (g \<longrightarrow> unrecorded l)"
proof -
  have fields: "out_ID m = obr_ID c" "out_Attempts m = obr_Attempts c + 1"
    by (simp_all add: m scan_outbox_def claimed_def)
  have wrap: "wrap64 ((obr_Attempts c + 1) * second) = (obr_Attempts c + 1) * second"
    using bounds by (intro wrap64_id) (simp_all add: max_i64_def min_i64_def)
  have row: "obr_ID (claimed n c) = obr_ID c" "pending (claimed n c)"
    using pend by (simp_all add: claimed_def pending_def)
  note u = update_pending_outcome [OF k(1,2) row]
  note defs = OutboxRunner_process_def and_then_def after_publish_def Let_def m err_of_def logged_def unrecorded_def
  show thesis
  proof (cases "publish m")
    case None
    let ?f = "\<lambda>now r. r\<lparr>obr_DeliveredAt := Some now, obr_LockedAt := None\<rparr>"
    show thesis
    proof (cases rule: u [of ?f])
      case (1 w2)
      then show thesis using p claim fields k(3) None by (intro that [of "?f n"]) (auto simp: defs MarkOutbox_def)
    next
      case (2 x w2)
      then show thesis using p claim fields None by (intro that [of id]) (auto simp: defs MarkOutbox_def)
    qed
  next
    case (Some x)
    show thesis
    proof (cases "limit \<le> obr_Attempts c + 1")
      case True
      let ?f = "\<lambda>now r. r\<lparr>obr_LockedAt := None, obr_FailedAt := Some now, obr_FailureReason := Some (err_text x)\<rparr>"
      show thesis
      proof (cases rule: u [of ?f])
        case (1 w2)
        then show thesis using p claim fields k(3) Some True
          by (intro that [of "?f n"]) (auto simp: defs MarkOutboxFailed_def)
      next
        case (2 y w2)
        then show thesis using p claim fields Some True by (intro that [of id]) (auto simp: defs MarkOutboxFailed_def)
      qed
    next
      case False
      have int4: "0 \<le> obr_Attempts c + 1" "fits_int4 (obr_Attempts c + 1)" using bounds by (simp_all add: fits_int4_def)
      show thesis
      proof (cases rule: reschedule_outcome [OF k(1,2) row int4, of "env_pg e" "env_quoted e"
          "now + (obr_Attempts c + 1) * second" "Some x"])
        case (1 y w2 z)
        then show thesis using p claim fields wrap Some False
          by (intro that [of id]) (auto simp: defs RescheduleOutbox_def)
      next
        case (2 w2 j)
        then show thesis using p claim fields wrap Some False
          by (intro that [of "\<lambda>r. r\<lparr>obr_Attempts := obr_Attempts c + 1,
                obr_AvailableAt := now + (obr_Attempts c + 1) * second, obr_LockedAt := None,
                obr_Payload := jsonb_concat (obr_Payload r) j\<rparr>"])
            (auto simp: defs RescheduleOutbox_def claimed_def)
      next
        case (3 y w2)
        then show thesis using p claim fields wrap Some False
          by (intro that [of id]) (auto simp: defs RescheduleOutbox_def)
      qed
    qed
  qed
qed

text \<open>A process publishes the message with the least id among the claimable ones, and exactly that
  message's row changes: delivered when the publisher accepts it, failed with the publisher's error
  when the attempts reach the limit, otherwise available again after one second per attempt. If the
  driver fails then, the message stays claimed, and the log says so.\<close>

lemma OutboxRunner_process_outcome:
  assumes ok: "schema_ok (wdb w)"
    and p: "OutboxRunner_process e g limit now publish w = ((l, ms), w')"
  shows "ms = [] \<and> wdb w' = wdb w \<or>
    (\<exists>c. least_by obr_ID (claimable (wnow w)) (db_outbox (wdb w)) = Some c \<and>
       ms = [scan_outbox (env_pg e) (claimed (wnow w) c)] \<and>
       (wdb w' = (wdb w)\<lparr>db_outbox := update_where (\<lambda>r. obr_ID r = obr_ID c)
          (after_publish e limit now publish (wnow w)) (db_outbox (wdb w))\<rparr> \<or>
        wdb w' = (wdb w)\<lparr>db_outbox := update_where (\<lambda>r. obr_ID r = obr_ID c)
          (claimed (wnow w)) (db_outbox (wdb w))\<rparr> \<and> \<not> calm w \<and> (g \<longrightarrow> unrecorded l)))"
proof (cases "ClaimOutbox (env_pg e) w")
  case (Pair x w1)
  show ?thesis
  proof (cases x)
    case (Inl y)
    then have "wdb w1 = wdb w" using Pair unfolding ClaimOutbox_def
      by (cases "claim_outbox (env_pg e)" w rule: stmt_cases)
        (auto simp: claim_outbox_def Let_def split: option.splits if_splits)
    with Inl Pair p show ?thesis by (simp add: OutboxRunner_process_def)
  next
    case (Inr m)
    let ?n = "wnow w"
    let ?after = "after_publish e limit now publish ?n"
    from Pair Inr have claim: "ClaimOutbox (env_pg e) w = (Inr m, w1)" by simp
    from ClaimOutbox_row [OF ok claim] obtain c where c: "c \<in> set (db_outbox (wdb w))" "claimable ?n c"
        and m: "m = scan_outbox (env_pg e) (claimed ?n c)" and n: "obr_Attempts c \<noteq> 2147483647"
        and w1: "wdb w1 = (wdb w)\<lparr>db_outbox := update_where (\<lambda>r. obr_ID r = obr_ID c) (claimed ?n) (db_outbox (wdb w))\<rparr>"
        and least: "least_by obr_ID (claimable ?n) (db_outbox (wdb w)) = Some c"
        and k: "calm w \<longrightarrow> calm w1" "schema_ok (wdb w1)" "claimed ?n c \<in> set (db_outbox (wdb w1))" "wnow w1 = ?n"
      by blast
    have "0 \<le> obr_Attempts c" "obr_Attempts c + 1 \<le> 2147483647"
      using c(1) ok n by (auto simp: schema_ok_def outbox_ok_def outbox_row_ok_def)
    from publish_outcome [OF k(2-4) _ this claim m p] c(2) obtain h where h: "ms = [m]"
        "h (claimed ?n c) = ?after c \<or> h (claimed ?n c) = claimed ?n c \<and> \<not> calm w1 \<and> (g \<longrightarrow> unrecorded l)"
        and w': "wdb w' = (wdb w1)\<lparr>db_outbox := update_where (\<lambda>r. obr_ID r = obr_ID c) h (db_outbox (wdb w1))\<rparr>"
      by (auto simp: claimable_def)
    have "update_where (\<lambda>r. obr_ID r = obr_ID c) h (db_outbox (wdb w1)) =
        update_where (\<lambda>r. obr_ID r = obr_ID c) (\<lambda>r. h (claimed ?n r)) (db_outbox (wdb w))"
      by (simp add: w1, rule update_where_twice, simp add: claimed_def)
    also have "\<dots> = update_where (\<lambda>r. obr_ID r = obr_ID c) f (db_outbox (wdb w))"
      if "h (claimed ?n c) = f c" for f
      by (rule update_where_unique [OF schema_keyed(7) [OF ok] c(1)]) (rule that)
    finally have "wdb w' = (wdb w)\<lparr>db_outbox := update_where (\<lambda>r. obr_ID r = obr_ID c) f (db_outbox (wdb w))\<rparr>"
      if "h (claimed ?n c) = f c" for f
      using that w' by (simp add: w1)
    then show ?thesis using h least m k(1) by blast
  qed
qed

text \<open>Rounds of the outbox runner, one after another, each at its times, with its failures of the driver and its
  publisher; what each logs and publishes.\<close>

type_synonym outbox_round = "time \<times> time \<times> err option list \<times> (outbox_message \<Rightarrow> err option)"

definition round_world :: "env \<Rightarrow> int \<Rightarrow> outbox_round \<Rightarrow> world \<Rightarrow> (log \<times> outbox_message list) \<times> world" where
  "round_world e limit x w = (case x of (server, now, faults, publish) \<Rightarrow>
     OutboxRunner_process e True limit now publish (w\<lparr>wnow := server, wfaults := faults\<rparr>))"

fun run_rounds :: "env \<Rightarrow> int \<Rightarrow> outbox_round list \<Rightarrow> world \<Rightarrow> (log \<times> outbox_message list) list \<times> world" where
  "run_rounds e limit [] w = ([], w)"
| "run_rounds e limit (x # xs) w =
     (case round_world e limit x w of (y, w') \<Rightarrow> case run_rounds e limit xs w' of (ys, w'') \<Rightarrow> (y # ys, w''))"

text \<open>The ids that rounds publish, and how many rounds published \<open>i\<close> and could not store the outcome.\<close>

definition published :: "(log \<times> outbox_message list) list \<Rightarrow> int list" where
  "published ys = concat (map (\<lambda>(l, ms). map out_ID ms) ys)"

definition lost :: "int \<Rightarrow> (log \<times> outbox_message list) list \<Rightarrow> nat" where
  "lost i ys = length (filter (\<lambda>(l, ms). unrecorded l \<and> list_ex (\<lambda>m. out_ID m = i) ms) ys)"

text \<open>The publications a row has left.\<close>

definition chances :: "int \<Rightarrow> outbox_row \<Rightarrow> nat" where
  "chances limit r = (if pending r then nat (max 1 (limit - obr_Attempts r)) else 0)"

definition chances_of :: "int \<Rightarrow> int \<Rightarrow> outbox_row list \<Rightarrow> nat" where
  "chances_of limit i rows = (\<Sum>r\<leftarrow>rows. if obr_ID r = i then chances limit r else 0)"

lemma chances_after_publish:
  "claimable server c \<Longrightarrow> chances limit (after_publish e limit now publish server c) < chances limit c"
  by (auto simp: chances_def after_publish_def claimed_def claimable_def pending_def Let_def
      split: option.split sum.split)

lemma sum_update_where_less:
  fixes v :: "outbox_row \<Rightarrow> nat"
  assumes "distinct (map obr_ID rows)" "c \<in> set rows" "v (f c) < v c"
  shows "(\<Sum>r\<leftarrow>update_where (\<lambda>r. obr_ID r = obr_ID c) f rows. v r) < (\<Sum>r\<leftarrow>rows. v r)"
  using assms
proof (induction rows)
  case Nil
  then show ?case by simp
next
  case (Cons r rows)
  show ?case
  proof (cases "r = c")
    case True
    with Cons.prems(1) have "update_where (\<lambda>r. obr_ID r = obr_ID c) f rows = rows"
      by (intro update_where_none) (auto simp: list_ex_iff image_iff)
    with True Cons.prems(3) show ?thesis by (simp add: update_where_def)
  next
    case False
    with Cons show ?thesis by (auto simp: update_where_def image_iff)
  qed
qed

lemma sum_update_where_le:
  fixes v :: "outbox_row \<Rightarrow> nat"
  assumes "distinct (map obr_ID rows)" "c \<in> set rows" "v (f c) \<le> v c"
  shows "(\<Sum>r\<leftarrow>update_where (\<lambda>r. obr_ID r = obr_ID c) f rows. v r) \<le> (\<Sum>r\<leftarrow>rows. v r)"
proof (cases "v (f c) < v c")
  case True
  then show ?thesis using sum_update_where_less [OF assms(1,2)] by (metis less_imp_le)
next
  case False
  with assms(3) have "v (f c) = v c" by simp
  moreover have "r = c" if "r \<in> set rows" "obr_ID r = obr_ID c" for r
    using assms(1,2) that by (metis distinct_map inj_onD)
  ultimately have "map v (update_where (\<lambda>r. obr_ID r = obr_ID c) f rows) = map v rows"
    unfolding update_where_def by (auto intro!: map_cong simp: comp_def)
  then show ?thesis by simp
qed

lemma obr_ID_after_publish [simp]: "obr_ID (after_publish e limit now publish server c) = obr_ID c"
  by (simp add: after_publish_def claimed_def Let_def split: option.split sum.split)

lemma obr_ID_claimed [simp]: "obr_ID (claimed server c) = obr_ID c"
  by (simp add: claimed_def)

lemma chances_claimed: "chances limit (claimed server c) \<le> chances limit c"
  by (auto simp: chances_def claimed_def pending_def)

lemma round_cases:
  assumes "schema_ok (wdb w)" "round_world e limit x w = ((l, ms), w')"
  obtains (none) "ms = []" "wdb w' = wdb w"
  | (one) c f where "c \<in> set (db_outbox (wdb w))" "claimable (fst x) c" "map out_ID ms = [obr_ID c]"
      "db_outbox (wdb w') = update_where (\<lambda>r. obr_ID r = obr_ID c) f (db_outbox (wdb w))"
      "f = after_publish e limit (fst (snd x)) (snd (snd (snd x))) (fst x) \<or>
       f = claimed (fst x) \<and> fst (snd (snd x)) \<noteq> [] \<and> unrecorded l"
proof -
  obtain server now faults publish where x: "x = (server, now, faults, publish)" by (cases x)
  let ?w = "w\<lparr>wnow := server, wfaults := faults\<rparr>"
  have p: "OutboxRunner_process e True limit now publish ?w = ((l, ms), w')"
    using assms(2) by (simp add: round_world_def x)
  have "schema_ok (wdb ?w)" using assms(1) by simp
  from OutboxRunner_process_outcome [OF this p] show thesis
  proof (elim disjE exE conjE)
    assume "ms = []" "wdb w' = wdb ?w"
    then show thesis by (intro none) simp_all
  next
    fix c
    assume c: "least_by obr_ID (claimable (wnow ?w)) (db_outbox (wdb ?w)) = Some c"
      and "ms = [scan_outbox (env_pg e) (claimed (wnow ?w) c)]"
      and "wdb w' = (wdb ?w)\<lparr>db_outbox := update_where (\<lambda>r. obr_ID r = obr_ID c)
         (after_publish e limit now publish (wnow ?w)) (db_outbox (wdb ?w))\<rparr>"
    then show thesis using least_by_Some [OF c]
      by (intro one [of c "after_publish e limit now publish server"]) (simp_all add: x scan_outbox_def)
  next
    fix c
    assume c: "least_by obr_ID (claimable (wnow ?w)) (db_outbox (wdb ?w)) = Some c"
      and "ms = [scan_outbox (env_pg e) (claimed (wnow ?w) c)]"
      and "wdb w' = (wdb ?w)\<lparr>db_outbox := update_where (\<lambda>r. obr_ID r = obr_ID c)
         (claimed (wnow ?w)) (db_outbox (wdb ?w))\<rparr>" "\<not> calm ?w" "True \<longrightarrow> unrecorded l"
    then show thesis using least_by_Some [OF c]
      by (intro one [of c "claimed server"]) (simp_all add: x scan_outbox_def calm_def)
  qed
qed

lemma round_schema:
  "schema_ok (wdb w) \<Longrightarrow> round_world e limit x w = (y, w') \<Longrightarrow> schema_ok (wdb w')"
  using kept_OutboxRunner_process [OF keptI, of "w\<lparr>wnow := fst x, wfaults := fst (snd (snd x))\<rparr>" e True limit
      "fst (snd x)" "snd (snd (snd x))"]
  by (cases x) (simp add: round_world_def kept_def)

text \<open>C31. Whatever the driver and the publishers do, a message is published at most as often as it has attempts
  left of the retry limit, but once if it is pending and has none left; once more for each round that
  published it and logged that it could not store the outcome; and not at all when it is closed.\<close>

theorem publications_bounded:
  assumes "schema_ok (wdb w)"
  shows "count_list (published (fst (run_rounds e limit xs w))) i \<le>
    chances_of limit i (db_outbox (wdb w)) + lost i (fst (run_rounds e limit xs w))"
  using assms
proof (induction xs arbitrary: w)
  case Nil
  then show ?case by (simp add: published_def)
next
  case (Cons x xs)
  obtain l ms w' where r: "round_world e limit x w = ((l, ms), w')" by (metis prod.exhaust)
  obtain ys w'' where rest: "run_rounds e limit xs w' = (ys, w'')" by fastforce
  have run: "fst (run_rounds e limit (x # xs) w) = (l, ms) # ys" using r rest by simp
  have IH: "count_list (published ys) i \<le> chances_of limit i (db_outbox (wdb w')) + lost i ys"
    using Cons.IH [OF round_schema [OF Cons.prems r]] rest by simp
  from Cons.prems r show ?case
  proof (cases rule: round_cases)
    case none
    with run IH show ?thesis by (simp add: published_def lost_def)
  next
    case (one c f)
    have d: "distinct (map obr_ID (db_outbox (wdb w)))"
      using schema_keyed(7) [OF Cons.prems] by (simp add: keyed_def)
    have keeps: "chances limit (f c) \<le> chances limit c"
      using one(5) chances_claimed chances_after_publish [OF one(2)] by (auto intro: less_imp_le)
    have "chances_of limit i (db_outbox (wdb w')) \<le> chances_of limit i (db_outbox (wdb w))"
      unfolding one(4) chances_of_def
    proof (rule sum_update_where_le [OF d one(1)])
      show "(if obr_ID (f c) = i then chances limit (f c) else 0) \<le> (if obr_ID c = i then chances limit c else 0)"
        using keeps one(5) by auto
    qed
    moreover have "chances_of limit i (db_outbox (wdb w')) < chances_of limit i (db_outbox (wdb w))"
      if "obr_ID c = i" "\<not> unrecorded l"
    proof -
      have "chances limit (f c) < chances limit c" "obr_ID (f c) = i"
        using one(5) that chances_after_publish [OF one(2)] by auto
      then show ?thesis
        unfolding one(4) chances_of_def using that(1) by (intro sum_update_where_less [OF d one(1)]) simp
    qed
    moreover have "list_ex (\<lambda>m. out_ID m = i) ms \<longleftrightarrow> obr_ID c = i"
      using one(3) by (auto simp: map_eq_Cons_conv)
    ultimately show ?thesis using run IH one(3) by (auto simp: published_def lost_def)
  qed
qed

text \<open>Rounds that poll: the driver does not fail, the clocks do not go back, no two rounds are more than \<open>gap\<close>
  apart, and \<open>delay\<close> is the longest back-off as the server sees it.\<close>

fun polled :: "duration \<Rightarrow> duration \<Rightarrow> int \<Rightarrow> time \<Rightarrow> outbox_round list \<Rightarrow> bool" where
  "polled gap delay limit t [] \<longleftrightarrow> True"
| "polled gap delay limit t ((server, now, faults, publish) # xs) \<longleftrightarrow> t \<le> server \<and> server \<le> t + gap \<and>
     now + limit * second \<le> server + delay \<and> faults = [] \<and> polled gap delay limit server xs"

definition due_by :: "time \<Rightarrow> database \<Rightarrow> bool" where
  "due_by t db \<longleftrightarrow> (\<forall>r\<in>set (db_outbox db). pending r \<longrightarrow> claimable t r \<and> obr_Attempts r < 2147483647)"

lemma due_by_mono: "due_by t db \<Longrightarrow> t \<le> u \<Longrightarrow> due_by u db"
  by (fastforce simp: due_by_def claimable_def split: option.splits)

lemma round_publishes:
  assumes "list_ex pending (db_outbox (wdb w))" "due_by server (wdb w)"
    and "round_world e limit (server, now, [], publish) w = ((l, ms), w')"
  shows "ms \<noteq> []"
proof -
  from assms(1,2) obtain c where c: "least_by obr_ID (claimable server) (db_outbox (wdb w)) = Some c"
    using least_by_None [of obr_ID "claimable server"] by (fastforce simp: due_by_def list_ex_iff)
  with least_by_Some [OF c] assms(2) have "obr_Attempts c \<noteq> 2147483647" by (auto simp: claimable_def due_by_def)
  with c obtain m w1 where "ClaimOutbox (env_pg e) (w\<lparr>wnow := server, wfaults := []\<rparr>) = (Inr m, w1)"
    by (simp add: ClaimOutbox_def stmt_run claim_outbox_def Let_def)
  with assms(3) show ?thesis
    by (auto simp: round_world_def OutboxRunner_process_def Let_def split: prod.splits option.splits if_splits)
qed

lemma due_after_publish:
  assumes "pending (after_publish e limit now publish server c)"
    and "\<And>m y n. publish m = Some y \<Longrightarrow> \<exists>j. jsonb_in (env_pg e) (attempt_json (env_quoted e) n (Some y)) = Inr j"
  shows "obr_Attempts (after_publish e limit now publish server c) < limit \<and>
    (\<forall>t\<ge>now + limit * second. claimable t (after_publish e limit now publish server c))"
proof -
  let ?n = "obr_Attempts c + 1"
  from assms(1) obtain y where y: "publish (scan_outbox (env_pg e) (claimed server c)) = Some y" "?n < limit"
    by (auto simp: after_publish_def claimed_def pending_def Let_def split: option.splits sum.splits if_splits)
  with assms(2) obtain j where "jsonb_in (env_pg e) (attempt_json (env_quoted e) ?n (Some y)) = Inr j" by blast
  with y have a: "after_publish e limit now publish server c = c\<lparr>obr_Attempts := ?n, obr_AvailableAt := now + ?n * second,
      obr_LockedAt := None, obr_Payload := jsonb_concat (obr_Payload c) j\<rparr>"
    by (simp add: after_publish_def Let_def)
  with assms(1) y(2) show ?thesis by (auto simp: claimable_def)
qed

text \<open>A round of a polling runner either publishes, and then less is left to publish and everything pending is due
  once the back-off is over; or it changes nothing, because nothing pending is due yet.\<close>

lemma polled_round:
  assumes ok: "schema_ok (wdb w)" and r: "round_world e limit (server, now, [], publish) w = (y, w')"
    and due: "due_by t (wdb w)" and lim: "limit \<le> 2147483647"
    and json: "\<forall>m y n. publish m = Some y \<longrightarrow> (\<exists>j. jsonb_in (env_pg e) (attempt_json (env_quoted e) n (Some y)) = Inr j)"
  shows "wdb w' = wdb w \<and> (list_ex pending (db_outbox (wdb w)) \<longrightarrow> server < t) \<or>
    (\<Sum>r\<leftarrow>db_outbox (wdb w'). chances limit r) < (\<Sum>r\<leftarrow>db_outbox (wdb w). chances limit r) \<and>
    due_by (max t (now + limit * second)) (wdb w')"
proof -
  obtain l ms where y: "y = (l, ms)" by (cases y)
  from ok r [unfolded y] show ?thesis
  proof (cases rule: round_cases)
    case none
    have "server < t" if "list_ex pending (db_outbox (wdb w))"
      using round_publishes [OF that due_by_mono [OF due] r [unfolded y]] none(1) by (cases "t \<le> server") simp_all
    with none(2) show ?thesis by blast
  next
    case (one c f)
    have f: "f = after_publish e limit now publish server" using one(5) by simp
    have d: "distinct (map obr_ID (db_outbox (wdb w)))"
      using schema_keyed(7) [OF ok] by (simp add: keyed_def)
    have only: "x = c" if "x \<in> set (db_outbox (wdb w))" "obr_ID x = obr_ID c" for x
      using d one(1) that by (metis distinct_map inj_onD)
    have "(\<Sum>r\<leftarrow>db_outbox (wdb w'). chances limit r) < (\<Sum>r\<leftarrow>db_outbox (wdb w). chances limit r)"
      unfolding one(4) f using sum_update_where_less [OF d one(1), of "chances limit"] chances_after_publish one(2) by simp
    moreover have "due_by (max t (now + limit * second)) (wdb w')"
      unfolding due_by_def
    proof (intro ballI impI)
      fix x
      assume "x \<in> set (db_outbox (wdb w'))" and x: "pending x"
      then consider "x = f c" | "x \<in> set (db_outbox (wdb w))" using only by (auto simp: one(4) set_update_where split: if_splits)
      then show "claimable (max t (now + limit * second)) x \<and> obr_Attempts x < 2147483647"
      proof cases
        case 1
        with due_after_publish [where e = e and publish = publish and limit = limit and now = now and server = server and c = c]
          x lim json show ?thesis by (simp add: f)
      next
        case 2
        with due_by_mono [OF due, of "max t (now + limit * second)"] x show ?thesis by (simp add: due_by_def)
      qed
    qed
    ultimately show ?thesis by blast
  qed
qed

lemma no_chances: "(\<Sum>r\<leftarrow>rows. chances limit r) = 0 \<longleftrightarrow> \<not> list_ex pending rows"
  by (induction rows) (auto simp: chances_def)

lemma polled_drains:
  assumes "schema_ok (wdb w)" "polled gap delay limit u xs" "u \<le> t" "due_by t (wdb w)"
    and "limit \<le> 2147483647" "0 < delay" "0 \<le> gap"
    and "\<forall>x\<in>set xs. \<forall>m y n. snd (snd (snd x)) m = Some y \<longrightarrow>
      (\<exists>j. jsonb_in (env_pg e) (attempt_json (env_quoted e) n (Some y)) = Inr j)"
    and "S = (\<Sum>r\<leftarrow>db_outbox (wdb w). chances limit r)"
    and "S = 0 \<or> xs \<noteq> [] \<and> t + int S * (delay + gap) \<le> fst (last xs)"
  shows "\<not> list_ex pending (db_outbox (wdb (snd (run_rounds e limit xs w))))"
  using assms(1-4,8-10)
proof (induction xs arbitrary: w u t S)
  case Nil
  then show ?case using no_chances by auto
next
  case (Cons x xs)
  obtain server now publish where x: "x = (server, now, [], publish)"
      and step: "u \<le> server" "server \<le> u + gap" "now + limit * second \<le> server + delay" "polled gap delay limit server xs"
    using Cons.prems(2) by (cases x) auto
  obtain y w' where r: "round_world e limit (server, now, [], publish) w = (y, w')" by fastforce
  have tail: "snd (run_rounds e limit (x # xs) w) = snd (run_rounds e limit xs w')"
    using r by (simp add: x split: prod.split)
  have ok: "schema_ok (wdb w')" by (rule round_schema [OF Cons.prems(1) r])
  have json: "\<forall>m y n. publish m = Some y \<longrightarrow> (\<exists>j. jsonb_in (env_pg e) (attempt_json (env_quoted e) n (Some y)) = Inr j)"
    using Cons.prems(5) by (simp add: x)
  have rest: "\<forall>x\<in>set xs. \<forall>m y n. snd (snd (snd x)) m = Some y \<longrightarrow>
      (\<exists>j. jsonb_in (env_pg e) (attempt_json (env_quoted e) n (Some y)) = Inr j)"
    using Cons.prems(5) by simp
  note IH = Cons.IH [OF ok step(4) _ _ rest HOL.refl, folded tail]
  from polled_round [OF Cons.prems(1) r Cons.prems(4) assms(5) json] show ?case
  proof (elim disjE conjE)
    assume same: "wdb w' = wdb w" and early: "list_ex pending (db_outbox (wdb w)) \<longrightarrow> server < t"
    show ?thesis
    proof (cases "S = 0")
      case True
      with same Cons.prems(6) no_chances [of limit "db_outbox (wdb w)"] show ?thesis
        by (intro IH [of "max t server"]) (auto intro: due_by_mono [OF Cons.prems(4)])
    next
      case False
      with early Cons.prems(6) no_chances [of limit "db_outbox (wdb w)"] have "server < t" by simp
      moreover from False assms(6,7) have "0 \<le> int S * (delay + gap)" by simp
      ultimately have "xs \<noteq> []" using False Cons.prems(7) by (auto simp: x)
      with False same \<open>server < t\<close> Cons.prems(4,6,7) show ?thesis by (intro IH [of t]) auto
    qed
  next
    let ?S = "\<Sum>r\<leftarrow>db_outbox (wdb w'). chances limit r"
    assume less: "?S < (\<Sum>r\<leftarrow>db_outbox (wdb w). chances limit r)"
      and due: "due_by (max t (now + limit * second)) (wdb w')"
    let ?t = "max t (server + delay)"
    have t: "?t \<le> t + (delay + gap)" using step(2) Cons.prems(3) assms(6,7) by simp
    have "xs \<noteq> [] \<and> ?t + int ?S * (delay + gap) \<le> fst (last xs)" if "?S \<noteq> 0"
    proof -
      have "int ?S + 1 \<le> int S" "2 \<le> int S" using less Cons.prems(6) that by linarith+
      then have m: "(int ?S + 1) * (delay + gap) \<le> int S * (delay + gap)" "2 * (delay + gap) \<le> int S * (delay + gap)"
        using assms(6,7) by (intro mult_right_mono; simp)+
      have "S \<noteq> 0" using \<open>2 \<le> int S\<close> by simp
      then have long: "t + int S * (delay + gap) \<le> fst (last (x # xs))" using Cons.prems(7) by blast
      have "xs \<noteq> []"
      proof
        assume "xs = []"
        with long m(2) step(2) Cons.prems(3) assms(6,7) show False by (simp add: x)
      qed
      moreover have "(int ?S + 1) * (delay + gap) = int ?S * (delay + gap) + (delay + gap)" by (simp add: algebra_simps)
      with m(1) t long have "?t + int ?S * (delay + gap) \<le> fst (last (x # xs))" by linarith
      ultimately show ?thesis by simp
    qed
    moreover have "due_by ?t (wdb w')" using step(3) by (intro due_by_mono [OF due]) linarith
    moreover have "server \<le> ?t" using assms(6) by simp
    ultimately show ?thesis by (intro IH [of ?t]) blast+
  qed
qed

text \<open>C32. The outbox drains. A runner that polls at least every \<open>gap\<close>, starting at a time \<open>t\<close> at which everything
  pending is due, has delivered or failed every message once it has polled for one back-off and one \<open>gap\<close> per
  attempt that the pending messages have left, whatever the publishers answer. This holds while the driver does
  not fail, nothing else writes to the outbox, and the server accepts the errors' texts as JSON.\<close>

theorem outbox_drains:
  assumes "schema_ok (wdb w)" "due_by t (wdb w)" "polled gap delay limit t xs" "xs \<noteq> []"
    and "limit \<le> 2147483647" "0 < delay" "0 \<le> gap"
    and "\<forall>x\<in>set xs. \<forall>m y n. snd (snd (snd x)) m = Some y \<longrightarrow>
      (\<exists>j. jsonb_in (env_pg e) (attempt_json (env_quoted e) n (Some y)) = Inr j)"
    and "t + int (\<Sum>r\<leftarrow>db_outbox (wdb w). chances limit r) * (delay + gap) \<le> fst (last xs)"
  shows "\<not> list_ex pending (db_outbox (wdb (snd (run_rounds e limit xs w))))"
  using polled_drains [OF assms(1,3) order_refl assms(2,5-8) HOL.refl] assms(4,9) by blast

section \<open>Witnesses\<close>

definition sample_queued :: world where
  "sample_queued = sample\<lparr>wdb := sample_db\<lparr>db_runs := [\<lparr>rr_ID = 1, rr_AutomationID = 1, rr_IdempotencyKey = ''k'',
     rr_State = RunQueued, rr_ErrorText = None, rr_StartedAt = None, rr_FinishedAt = None\<rparr>]\<rparr>\<rparr>"

lemma sample_queued_ok: "schema_ok (wdb sample_queued)" "calm sample_queued"
  by (simp_all add: sample_queued_def calm_def sample_db_def empty_db_def schema_ok_def table_oks keyed_def owners
      device_row_ok_def max_i64_def outbox_row_ok_def pending_def)

lemma sample_queued_claim: "least_by rr_ID queued (db_runs (wdb sample_queued)) = Some (hd (db_runs (wdb sample_queued)))"
  by (simp add: sample_queued_def least_by_def)

theorem worker_settles_run_witness:
  "\<not> list_ex (running 1) (db_runs (wdb (snd (Runner_process True (FixedClock_Now 5) 6 None sample_queued))))"
proof -
  let ?p = "Runner_process True (FixedClock_Now 5) 6 None sample_queued"
  have "?p = (fst ?p, snd ?p)" by simp
  moreover obtain run w1 where "ClaimRun sample_queued = (Inr run, w1)" "run_ID run = 1"
    by (simp add: ClaimRun_calm [OF sample_queued_ok(2)] sample_queued_claim scan_run_def) (simp add: sample_queued_def)
  ultimately show ?thesis
    using worker_settles_run [OF sample_queued_ok(1), of True 5 6 None "fst ?p" "snd ?p"] sample_queued_ok(2)
    by (auto split: sum.splits)
qed

text \<open>Every publisher fails; the outcome of the second publication cannot be stored, and after the lease a third
  one follows, although the limit is two.\<close>

definition failing_rounds :: "outbox_round list" where
  "failing_rounds = [(3, 3, [], \<lambda>_. Some DeadlineExceeded), (10 * second, 10 * second, [None, Some DeadlineExceeded], \<lambda>_. Some Canceled),
     (10 * minute, 10 * minute, [], \<lambda>_. Some Canceled)]"

lemmas round_simps = round_world_def OutboxRunner_process_def ClaimOutbox_def stmt_def claim_outbox_def least_by_def
  claimable_def pending_def Let_def sample_db_def sample_def scan_outbox_def update_where_def RescheduleOutbox_def
  reschedule_outbox_def sample_env_def fits_int4_def attempt_json_def show_int_def and_then_def wrap64_id max_i64_def
  min_i64_def update_pending_def count_where_def empty_db_def MarkOutboxFailed_def err_of_def logged_def

lemma failing_rounds_run:
  "published (fst (run_rounds sample_env 2 failing_rounds sample)) = [1, 1, 1]"
  "lost 1 (fst (run_rounds sample_env 2 failing_rounds sample)) = 1"
  by (simp_all add: failing_rounds_def round_simps published_def lost_def unrecorded_def)

theorem publications_bounded_witness:
  "count_list (published (fst (run_rounds sample_env 2 failing_rounds sample))) 1 = 3 \<and> 3 \<le> chances_of 2 1 (db_outbox sample_db) + 1"
  using publications_bounded [of sample sample_env 2 failing_rounds 1] sample_ok
  by (simp add: failing_rounds_run)

definition polling_rounds :: "outbox_round list" where
  "polling_rounds = map (\<lambda>t. (t, t, [], \<lambda>_. Some DeadlineExceeded)) [3, 3 + 5 * second, 3 + 10 * second, 3 + 15 * second]"

theorem outbox_drains_witness:
  "list_ex pending (db_outbox sample_db) \<and>
   \<not> list_ex pending (db_outbox (wdb (snd (run_rounds sample_env 2 polling_rounds sample))))"
  using outbox_drains [of sample 3 "5 * second" "2 * second" 2 polling_rounds sample_env] sample_ok
  by (simp add: polling_rounds_def due_by_def claimable_def pending_def chances_def sample_env_def attempt_json_def
      sample_db_def)

end
