(* ===== verification/Recovery.thy ===== *)
theory Recovery
  imports Worker "HOL-Library.List_Lexorder" "HOL-Library.Char_ord"
begin

text \<open>
  The rest of \<^verbatim>\<open>internal/worker\<close>: exponential backoff (\<^verbatim>\<open>backoff.go\<close>), retry states, health checks
  and the guard against panics (\<^verbatim>\<open>recovery.go\<close>), and supervised jobs (\<^verbatim>\<open>supervisor.go\<close>). Lists of
  characters are ordered by the library as Go orders strings, byte by byte.
\<close>

section \<open>Backoff\<close>

record backoff =
  bo_Base :: duration
  bo_Max :: duration

fun backoff_loop :: "duration \<Rightarrow> nat \<Rightarrow> duration \<Rightarrow> duration" where
  "backoff_loop m 0 d = (if d > m then m else d)"
| "backoff_loop m (Suc n) d = (if d \<ge> quot m 2 then m else backoff_loop m n (wrap64 (d * 2)))"

definition Backoff_Duration :: "backoff \<Rightarrow> int \<Rightarrow> duration" where
  "Backoff_Duration b attempt =
     (if attempt < 1 then bo_Base b else backoff_loop (bo_Max b) (nat (attempt - 1)) (bo_Base b))"

section \<open>Retry states\<close>

record retry_state =
  rs_Attempt :: int
  rs_Limit :: int
  rs_Next :: time
  rs_LastError :: string
  rs_Permanent :: bool

definition RetryState_Validate :: "retry_state \<Rightarrow> err + unit" where
  "RetryState_Validate s =
     (if rs_Attempt s < 0 \<or> rs_Limit s < 0 \<or> rs_Attempt s > rs_Limit s
      then Inl (ErrorString ''invalid retry state'')
      else if rs_Attempt s > 0 \<and> rs_Next s = 0 then Inl (ErrorString ''retry time is required'')
      else if rs_Permanent s \<and> rs_Attempt s < rs_Limit s
      then Inl (ErrorString ''permanent state before retry limit'')
      else Inr ())"

definition errorString :: "err option \<Rightarrow> string" where
  "errorString e = (case e of None \<Rightarrow> [] | Some x \<Rightarrow> err_text x)"

definition NextRetry :: "retry_state \<Rightarrow> err option \<Rightarrow> time \<Rightarrow> (int \<Rightarrow> duration) \<Rightarrow> retry_state" where
  "NextRetry state cause now backoff =
     (let s = state\<lparr>rs_Attempt := wrap64 (rs_Attempt state + 1), rs_LastError := errorString cause\<rparr> in
      if rs_Attempt s \<ge> rs_Limit s then s\<lparr>rs_Permanent := True, rs_Next := now\<rparr>
      else s\<lparr>rs_Next := now + backoff (rs_Attempt s)\<rparr>)"

section \<open>Health checks\<close>

record health =
  ht_Name :: string
  ht_Healthy :: bool
  ht_CheckedAt :: time
  ht_Error :: string

text \<open>
  \<open>checks\<close> is the map as a list without double names; a check is missing or has an outcome.
  \<open>quoted\<close> is the \<^verbatim>\<open>%q\<close> of \<^verbatim>\<open>fmt\<close>, \<open>now\<close> the time each check reads.
\<close>

definition check_health :: "(string \<Rightarrow> string) \<Rightarrow> (string \<Rightarrow> time) \<Rightarrow> string \<Rightarrow> err option option \<Rightarrow> health" where
  "check_health quoted now name check =
     (let e = (case check of
          None \<Rightarrow> Some (ErrorString (''health check '' @ quoted name @ '' is not configured''))
        | Some outcome \<Rightarrow> outcome)
      in \<lparr>ht_Name = name, ht_Healthy = (e = None), ht_CheckedAt = now name, ht_Error = errorString e\<rparr>)"

definition RunHealthChecks ::
    "(string \<Rightarrow> string) \<Rightarrow> (string \<Rightarrow> time) \<Rightarrow> (string \<times> err option option) list \<Rightarrow> health list" where
  "RunHealthChecks quoted now checks =
     map (\<lambda>name. check_health quoted now name (case map_of checks name of None \<Rightarrow> None | Some c \<Rightarrow> c))
       (sort (map fst checks))"

section \<open>Guarded and supervised runs\<close>

datatype run_outcome = Returns "err option" | Panics string

definition GuardedRunner_Serve :: "run_outcome option \<Rightarrow> err option" where
  "GuardedRunner_Serve run =
     (case run of
        None \<Rightarrow> Some (ErrorString ''runner is not configured'')
      | Some (Panics v) \<Rightarrow> Some (ErrorString (''worker panic: '' @ v))
      | Some (Returns None) \<Rightarrow> None
      | Some (Returns (Some e)) \<Rightarrow> if \<not> err_is e Canceled then Some (Wrapf ''worker stopped: '' e []) else None)"

record 'w job =
  jb_Name :: string
  jb_Run :: "('w, unit) action option"
  jb_Interval :: duration

text \<open>The jobs that \<^verbatim>\<open>Start\<close> runs, each at its interval, and what it logs about the others.\<close>

definition Supervisor_Start :: "bool \<Rightarrow> 'w job list \<Rightarrow> 'w job list \<times> string list" where
  "Supervisor_Start has_logger jobs =
     (map (\<lambda>j. j\<lparr>jb_Interval := (if jb_Interval j \<le> 0 then minute else jb_Interval j)\<rparr>)
        (filter (\<lambda>j. jb_Run j \<noteq> None) jobs),
      if has_logger then map jb_Name (filter (\<lambda>j. jb_Run j = None) jobs) else [])"

definition RunOnce :: "'w job list \<Rightarrow> ('w, unit) action" where
  "RunOnce jobs = for_each (\<lambda>j. case jb_Run j of
     None \<Rightarrow> fail (ErrorString ''supervised job is not configured'') | Some run \<Rightarrow> run) jobs"

section \<open>Properties\<close>

lemma backoff_loop_closed:
  assumes "0 < d" "d \<le> m" "m \<le> max_i64"
  shows "backoff_loop m n d = (if n = 0 then d else if d * 2 ^ (n - 1) < m div 2 then d * 2 ^ n else m)"
  using assms
proof (induction n arbitrary: d)
  case 0
  then show ?case by simp
next
  case (Suc n)
  have half: "quot m 2 = m div 2" using Suc.prems by (simp add: quot_def)
  show ?case
  proof (cases "d < m div 2")
    case True
    then have "d * 2 \<le> m" by simp
    moreover have "wrap64 (d * 2) = d * 2"
      using calculation Suc.prems by (intro wrap64_id) (auto simp: min_i64_def)
    ultimately show ?thesis
      using Suc.IH [of "d * 2"] Suc.prems True by (cases n) (auto simp: half ac_simps)
  next
    case False
    moreover have "d * 1 \<le> d * 2 ^ n" using Suc.prems by (intro mult_left_mono) simp_all
    ultimately show ?thesis by (simp add: half)
  qed
qed

text \<open>For a positive base that is at most the maximum, the backoff starts at the base, doubles with
  every attempt while it is below half the maximum and stays at the maximum from then on; it lies
  between base and maximum and never overflows.\<close>

lemma backoff_doubles:
  assumes "0 < bo_Base b" "bo_Base b \<le> bo_Max b" "bo_Max b \<le> max_i64" "1 \<le> k"
  shows "Backoff_Duration b k =
      (if k = 1 then bo_Base b else if bo_Base b * 2 ^ nat (k - 2) < bo_Max b div 2 then bo_Base b * 2 ^ nat (k - 1)
       else bo_Max b) \<and>
    bo_Base b \<le> Backoff_Duration b k \<and> Backoff_Duration b k \<le> bo_Max b \<and>
    Backoff_Duration b k \<le> Backoff_Duration b (k + 1)"
proof -
  let ?f = "\<lambda>n. if n = 0 then bo_Base b else if bo_Base b * 2 ^ (n - 1) < bo_Max b div 2 then bo_Base b * 2 ^ n else bo_Max b"
  have D: "Backoff_Duration b j = ?f (nat (j - 1))" if "1 \<le> j" for j
    using that backoff_loop_closed [OF assms(1-3)] by (simp add: Backoff_Duration_def)
  have double: "bo_Base b * 2 ^ n = 2 * (bo_Base b * 2 ^ (n - 1))" if "0 < n" for n
    using that by (cases n) simp_all
  have pos: "bo_Base b \<le> bo_Base b * 2 ^ n" for n
    using mult_left_mono [of 1 "2 ^ n" "bo_Base b"] assms(1) by simp
  have bounds: "bo_Base b \<le> ?f n \<and> ?f n \<le> bo_Max b" for n
    using assms(2) pos [of n] double [of n] by (cases n) auto
  have mono: "?f n \<le> ?f (Suc n)" for n
    using bounds [of n] assms(1,2) double [of "Suc n"] by (cases n) auto
  let ?n = "nat (k - 1)"
  have "nat (k + 1 - 1) = Suc ?n" "?n - 1 = nat (k - 2)" "?n = 0 \<longleftrightarrow> k = 1" using assms(4) by simp_all
  then have "Backoff_Duration b (k + 1) = ?f (Suc ?n)" "Backoff_Duration b k = ?f ?n"
      "?f ?n = (if k = 1 then bo_Base b else if bo_Base b * 2 ^ nat (k - 2) < bo_Max b div 2
        then bo_Base b * 2 ^ ?n else bo_Max b)"
    using D [of k] D [of "k + 1"] assms(4) by simp_all
  with bounds [of ?n] mono [of ?n] show ?thesis by presburger
qed

fun after_failures :: "(int \<Rightarrow> duration) \<Rightarrow> (err option \<times> time) list \<Rightarrow> retry_state \<Rightarrow> retry_state" where
  "after_failures backoff [] s = s"
| "after_failures backoff ((cause, now) # xs) s = after_failures backoff xs (NextRetry s cause now backoff)"

text \<open>From a valid state that has failures left, failing at times after the epoch keeps the state
  valid and counts the attempts; it becomes permanent with the failure that reaches the limit.\<close>

lemma retries_end:
  assumes "RetryState_Validate s = Inr ()" "rs_Attempt s + int (length xs) \<le> rs_Limit s" "rs_Limit s \<le> max_i64"
    and "\<forall>x\<in>set xs. 0 < snd x" "\<And>n. 0 \<le> backoff n"
  shows "RetryState_Validate (after_failures backoff xs s) = Inr () \<and>
    rs_Attempt (after_failures backoff xs s) = rs_Attempt s + int (length xs) \<and>
    (xs \<noteq> [] \<longrightarrow> (rs_Permanent (after_failures backoff xs s) \<longleftrightarrow> rs_Attempt s + int (length xs) = rs_Limit s))"
  using assms(1-4)
proof (induction xs arbitrary: s)
  case Nil
  then show ?case by simp
next
  case (Cons x xs)
  obtain cause now where x: "x = (cause, now)" by (cases x)
  let ?s = "NextRetry s cause now backoff"
  have w: "wrap64 (rs_Attempt s + 1) = rs_Attempt s + 1"
    using Cons.prems by (intro wrap64_id) (auto simp: RetryState_Validate_def min_i64_def split: if_splits)
  have "0 < now" using Cons.prems(4) x by simp
  then have "now + backoff k \<noteq> 0" for k using assms(5) [of k] by linarith
  with w \<open>0 < now\<close> Cons.prems(1,2) have "RetryState_Validate ?s = Inr ()"
    by (auto simp: NextRetry_def RetryState_Validate_def Let_def split: if_splits)
  moreover have a: "rs_Attempt ?s = rs_Attempt s + 1" "rs_Limit ?s = rs_Limit s"
      "rs_Permanent ?s \<longleftrightarrow> rs_Attempt s + 1 = rs_Limit s"
    using w Cons.prems(1,2) by (auto simp: NextRetry_def RetryState_Validate_def Let_def split: if_splits)
  ultimately show ?case
    using Cons.IH [of ?s] Cons.prems by (cases "xs = []") (auto simp: x algebra_simps)
qed

lemma ht_Name_check_health [simp]: "ht_Name (check_health quoted now name c) = name"
  by (simp add: check_health_def Let_def)

text \<open>The results of the health checks come in the order of the names, one for each check and with
  its outcome, however the map is iterated.\<close>

lemma RunHealthChecks_ordered:
  assumes "distinct (map fst checks)" "mset checks' = mset checks"
  shows "RunHealthChecks quoted now checks' = RunHealthChecks quoted now checks \<and>
    map ht_Name (RunHealthChecks quoted now checks) = sort (map fst checks) \<and>
    set (RunHealthChecks quoted now checks) = (\<lambda>(name, c). check_health quoted now name c) ` set checks"
proof -
  have "distinct (map fst checks')"
    using assms by (metis mset_eq_imp_distinct_iff mset_map)
  with assms have m: "map_of checks' = map_of checks" by (simp add: map_of_inject_set set_mset_mset [symmetric] del: set_mset_mset)
  have "sort (map fst checks') = sort (map fst checks)"
    using assms(2) by (metis mset_map sorted_list_of_multiset_mset)
  moreover have "set (RunHealthChecks quoted now checks) = (\<lambda>(name, c). check_health quoted now name c) ` set checks"
    unfolding RunHealthChecks_def set_map set_sort image_image
    by (rule image_cong [OF HOL.refl]) (use assms(1) in auto)
  ultimately show ?thesis using m by (simp add: RunHealthChecks_def comp_def)
qed

section \<open>Witnesses\<close>

definition fresh_retry :: retry_state where
  "fresh_retry = \<lparr>rs_Attempt = 0, rs_Limit = 2, rs_Next = 0, rs_LastError = [], rs_Permanent = False\<rparr>"

end
