(* ===== verification/Http_Core.thy ===== *)
theory Http_Core
  imports Encoding Go_Errors
begin

text \<open>
  What the HTTP client and the HTTP server use of \<^verbatim>\<open>net/http\<close> and \<^verbatim>\<open>strings\<close>: header keys in
  their canonical form, headers, the fields of a string, and requests.
\<close>

section \<open>Header keys\<close>

text \<open>The bytes a header key may have (\<^verbatim>\<open>validHeaderFieldByte\<close>).\<close>

definition is_upper :: "char \<Rightarrow> bool" where
  "is_upper c \<longleftrightarrow> 65 \<le> (of_char c :: nat) \<and> (of_char c :: nat) \<le> 90"

definition is_lower :: "char \<Rightarrow> bool" where
  "is_lower c \<longleftrightarrow> 97 \<le> (of_char c :: nat) \<and> (of_char c :: nat) \<le> 122"

definition is_digit :: "char \<Rightarrow> bool" where
  "is_digit c \<longleftrightarrow> 48 \<le> (of_char c :: nat) \<and> (of_char c :: nat) \<le> 57"

definition token_char :: "char \<Rightarrow> bool" where
  "token_char c \<longleftrightarrow> is_upper c \<or> is_lower c \<or> is_digit c \<or>
     c \<in> set (''!#$%&*+-.^_|~'' @ [CHR 0x27, CHR 0x60])"

definition ascii_upper :: "char \<Rightarrow> char" where
  "ascii_upper c = (if is_lower c then char_of ((of_char c :: nat) - 32) else c)"

text \<open>Upper case at the start and after a dash, lower case elsewhere.\<close>

fun canon_loop :: "bool \<Rightarrow> string \<Rightarrow> string" where
  "canon_loop up [] = []"
| "canon_loop up (c # cs) = (if up then ascii_upper c else ascii_lower c) # canon_loop (c = CHR ''-'') cs"

definition canonical_key :: "string \<Rightarrow> string" where
  "canonical_key k = (if list_all token_char k then canon_loop True k else k)"

lemma canonical_samples [simp]:
  "canonical_key ''Accept'' = ''Accept''"
  "canonical_key ''Content-Type'' = ''Content-Type''"
  "canonical_key ''Authorization'' = ''Authorization''"
  "canonical_key ''Idempotency-Key'' = ''Idempotency-Key''"
  "canonical_key ''X-Request-ID'' = ''X-Request-Id''"
  "canonical_key ''Retry-After'' = ''Retry-After''"
  by code_simp+

section \<open>Headers\<close>

text \<open>The first value of every key.\<close>

type_synonym header = "string \<rightharpoonup> string"

definition header_set :: "string \<Rightarrow> string \<Rightarrow> header \<Rightarrow> header" where
  "header_set k v h = h(canonical_key k \<mapsto> v)"

definition header_get :: "string \<Rightarrow> header \<Rightarrow> string" where
  "header_get k h = (case h (canonical_key k) of None \<Rightarrow> [] | Some v \<Rightarrow> v)"

lemma header_get_set:
  "header_get k (header_set k' v h) = (if canonical_key k = canonical_key k' then v else header_get k h)"
  by (simp add: header_get_def header_set_def)

record http_request =
  hq_Method :: string
  hq_URL :: string
  hq_Header :: header
  hq_Body :: string

section \<open>strings.Fields and strings.EqualFold\<close>

text \<open>The maximal runs of bytes that belong to no space.\<close>

function split_fields_loop :: "string \<Rightarrow> string \<Rightarrow> string list" where
  "split_fields_loop run s =
     (case s of
        [] \<Rightarrow> (if run = [] then [] else [run])
      | c # cs \<Rightarrow>
          (case strip_any space_runes s of
             Some t \<Rightarrow> if length t < length s then (if run = [] then [] else [run]) @ split_fields_loop [] t else []
           | None \<Rightarrow> split_fields_loop (run @ [c]) cs))"
  by pat_completeness auto
termination by (relation "measure (\<lambda>(run, s). length s)") auto

declare split_fields_loop.simps [simp del]

definition split_fields :: "string \<Rightarrow> string list" where
  "split_fields s = split_fields_loop [] s"

text \<open>Folding ASCII letters is all of Unicode case folding that matters when one side has no k and no s.\<close>

definition equal_fold :: "string \<Rightarrow> string \<Rightarrow> bool" where
  "equal_fold a b \<longleftrightarrow> map ascii_lower a = map ascii_lower b"

lemma split_fields_plain:
  "\<forall>n\<le>length s. strip_any space_runes (drop n s) = None \<Longrightarrow> split_fields_loop run s = (if run @ s = [] then [] else [run @ s])"
proof (induction s arbitrary: run)
  case Nil
  then show ?case by (simp add: split_fields_loop.simps)
next
  case (Cons c cs)
  have "strip_any space_runes (c # cs) = None" using Cons.prems by (metis drop_0 le0)
  moreover have "\<forall>n\<le>length cs. strip_any space_runes (drop n cs) = None"
    using Cons.prems by (metis Suc_le_mono drop_Suc_Cons length_Cons)
  ultimately show ?case using Cons.IH [of "run @ [c]"] by (simp add: split_fields_loop.simps [of run "c # cs"])
qed

end
