(* ===== verification/Domain_Ops.thy ===== *)
theory Domain_Ops
  imports Rules Clocks
begin

text \<open>
  The operational half of \<^verbatim>\<open>internal/domain\<close>: alert decisions, batches of commands, single commands,
  parallel work, events, health checks, quotas, metrics, notifications and pages. Goroutines that
  write separate slots of a slice are modelled by what each of them observes; what depends on the
  order in which they finish takes that order as an argument.
\<close>

section \<open>alerts.go\<close>

record alert_policy =
  ap_Code :: string
  ap_Severity :: string
  ap_Cooldown :: duration
  ap_Threshold :: f64
  ap_Window :: duration

record alert_decision =
  ad_Open :: bool
  ad_Resolve :: bool
  ad_Reason :: string

definition EvaluateAlert :: "alert_policy \<Rightarrow> f64 \<Rightarrow> time option \<Rightarrow> time \<Rightarrow> bool \<Rightarrow> alert_decision" where
  "EvaluateAlert policy v previous now currentlyOpen =
     (if (case previous of None \<Rightarrow> False | Some l \<Rightarrow> time_sub now l < ap_Cooldown policy)
      then \<lparr>ad_Open = False, ad_Resolve = False, ad_Reason = ''cooldown''\<rparr>
      else let trigger = ap_Threshold policy \<le> v in
        if trigger \<and> \<not> currentlyOpen
        then \<lparr>ad_Open = True, ad_Resolve = False, ad_Reason = ap_Code policy @ '' threshold reached''\<rparr>
        else if \<not> trigger \<and> currentlyOpen
        then \<lparr>ad_Open = False, ad_Resolve = True, ad_Reason = ''value recovered''\<rparr>
        else \<lparr>ad_Open = False, ad_Resolve = False, ad_Reason = ''unchanged''\<rparr>)"

definition ValidSeverity :: "string \<Rightarrow> bool" where
  "ValidSeverity v \<longleftrightarrow> v = ''info'' \<or> v = ''warning'' \<or> v = ''critical''"

definition ValidAlertState :: "string \<Rightarrow> bool" where
  "ValidAlertState v \<longleftrightarrow> v = ''open'' \<or> v = ''acknowledged'' \<or> v = ''resolved''"

definition alert_transition :: "string \<Rightarrow> string \<Rightarrow> bool" where
  "alert_transition current nxt =
     (if current = ''open'' then nxt = ''acknowledged'' \<or> nxt = ''resolved''
      else if current = ''acknowledged'' then nxt = ''resolved''
      else False)"

text \<open>The details of an alert are a JSON object, empty for a nil map; \<open>marshal\<close> is \<^verbatim>\<open>json.Marshal\<close>.\<close>

definition EncodeDetails :: "(('k \<rightharpoonup> 'v) \<Rightarrow> err + string) \<Rightarrow> ('k \<rightharpoonup> 'v) option \<Rightarrow> err + string" where
  "EncodeDetails marshal details = marshal (case details of None \<Rightarrow> Map.empty | Some m \<Rightarrow> m)"

section \<open>batch.go\<close>

record batch_item =
  bi_DeviceID :: int
  bi_Action :: string
  bi_Payload :: string

record batch_result =
  br_DeviceID :: int
  br_Accepted :: bool
  br_Error :: "err option"
  br_Started :: time
  br_Finished :: time

fun batch_loop :: "int set \<Rightarrow> batch_item list \<Rightarrow> err + unit" where
  "batch_loop seen [] = Inr ()"
| "batch_loop seen (item # items) =
     (if bi_DeviceID item \<le> 0 \<or> bi_Action item = [] then Inl (ErrorString ''batch item is incomplete'')
      else if bi_DeviceID item \<in> seen
      then Inl (ErrorString (''device '' @ show_int (bi_DeviceID item) @ '' appears more than once''))
      else batch_loop (insert (bi_DeviceID item) seen) items)"

definition ValidateBatch :: "batch_item list \<Rightarrow> err + unit" where
  "ValidateBatch items =
     (if items = [] \<or> length items > 100
      then Inl (ErrorString ''batch must contain between one and one hundred items'')
      else batch_loop {} items)"

text \<open>
  What the goroutine of an item observes: its clock readings, whether the context was done when it
  looked, and else the outcome of \<^verbatim>\<open>execute\<close>.
\<close>

record item_run =
  ir_Started :: time
  ir_Cancelled :: "err option"
  ir_Outcome :: "err option"
  ir_Finished :: time

definition run_item :: "batch_item \<Rightarrow> item_run \<Rightarrow> batch_result" where
  "run_item item g =
     (let e = (case ir_Cancelled g of Some x \<Rightarrow> Some x | None \<Rightarrow> ir_Outcome g) in
      \<lparr>br_DeviceID = bi_DeviceID item, br_Accepted = (e = None), br_Error = e,
       br_Started = ir_Started g, br_Finished = ir_Finished g\<rparr>)"

definition counted_error :: "batch_result \<Rightarrow> err option" where
  "counted_error r = (case br_Error r of
     Some e \<Rightarrow> if \<not> err_is e Canceled \<and> \<not> err_is e DeadlineExceeded then Some e else None
   | None \<Rightarrow> None)"

text \<open>\<open>order\<close> is the order in which the goroutines finish, \<open>ctx_err\<close> the context's error at the end.\<close>

definition ExecuteBatch ::
    "batch_item list \<Rightarrow> bool \<Rightarrow> item_run list \<Rightarrow> nat list \<Rightarrow> err option \<Rightarrow> batch_result list \<times> err option" where
  "ExecuteBatch items has_execute runs order ctx_err =
     (case ValidateBatch items of
        Inl e \<Rightarrow> ([], Some e)
      | Inr _ \<Rightarrow>
          if \<not> has_execute then ([], Some (ErrorString ''batch executor is not configured''))
          else
            (let results = map2 run_item items runs;
                 firstErr = first_Some (map (\<lambda>i. counted_error (results ! i)) order)
             in if ctx_err \<noteq> None then (results, ctx_err) else (results, firstErr)))"

definition SortBatchResults :: "batch_result list \<Rightarrow> batch_result list" where
  "SortBatchResults results = slice_stable (\<lambda>a b. br_DeviceID a < br_DeviceID b) results"

section \<open>commands.go\<close>

record command =
  cmd_ID :: string
  cmd_DeviceID :: int
  cmd_Kind :: device_kind
  cmd_Action :: string
  cmd_Payload :: string
  cmd_IdempotencyKey :: string
  cmd_CreatedAt :: time

record command_result =
  cr_Accepted :: bool
  cr_Retryable :: bool
  cr_ErrorCode :: string
  cr_Message :: string

definition ValidateCommand :: "command \<Rightarrow> err + unit" where
  "ValidateCommand c =
     (if cmd_DeviceID c \<le> 0 \<or> trim_space (cmd_IdempotencyKey c) = [] \<or> \<not> CompatibleAction (cmd_Kind c) (cmd_Action c)
      then Inl ErrInvalid else Inr ())"

definition Dispatch_command ::
    "err option \<Rightarrow> (command \<Rightarrow> ('w, command_result) action) option \<Rightarrow> command \<Rightarrow> ('w, command_result) action" where
  "Dispatch_command ctx_err executor c =
     (case ValidateCommand c of
        Inl e \<Rightarrow> fail e
      | Inr _ \<Rightarrow>
          (case executor of
             None \<Rightarrow> fail (ErrorString ''command executor is not configured'')
           | Some execute \<Rightarrow>
               (case ctx_err of
                  Some e \<Rightarrow> fail e
                | None \<Rightarrow>
                    and_then (map_err (\<lambda>e. Wrapf ''dispatch command: '' e []) (execute c)) (\<lambda>result.
                    ret (if \<not> cr_Accepted result \<and> cr_ErrorCode result = []
                         then result\<lparr>cr_ErrorCode := ''device_rejected''\<rparr> else result)))))"

definition Retryable :: "err option \<Rightarrow> bool" where
  "Retryable e \<longleftrightarrow> (case e of None \<Rightarrow> False | Some e \<Rightarrow> err_is e DeadlineExceeded \<or> err_is e Canceled)"

section \<open>concurrency.go\<close>

text \<open>
  What becomes of an index: the context ended before a worker took it, or the worker that took it
  saw the context done, or ran the callback.
\<close>

datatype fate = NotTaken err | TakenLate err | Ran

definition Parallel :: "('a \<Rightarrow> err option) option \<Rightarrow> fate list \<Rightarrow> 'a list \<Rightarrow> err option list" where
  "Parallel f fates values =
     (case f of
        None \<Rightarrow> map (\<lambda>_. Some (ErrorString ''parallel callback is not configured'')) values
      | Some g \<Rightarrow> map2 (\<lambda>x v. case x of NotTaken e \<Rightarrow> Some e | TakenLate e \<Rightarrow> Some e | Ran \<Rightarrow> g v) fates values)"

definition FirstError :: "err option list \<Rightarrow> err option" where
  "FirstError errs = first_Some errs"

text \<open>\<^verbatim>\<open>errors.Join(combined, err)\<close> makes a new joined error of the two, or of \<open>err\<close> alone.\<close>

definition join_error :: "err option \<Rightarrow> err option \<Rightarrow> err option" where
  "join_error combined e = (case e of
     None \<Rightarrow> combined
   | Some x \<Rightarrow> Some (Joined (case combined of None \<Rightarrow> [x] | Some c \<Rightarrow> [c, x])))"

definition RequireAll :: "err option list \<Rightarrow> err option" where
  "RequireAll errs = foldl join_error None errs"

section \<open>events.go\<close>

record event =
  ev_Topic :: string
  ev_HouseholdID :: int
  ev_ObjectType :: string
  ev_ObjectID :: string
  ev_Action :: string
  ev_RequestID :: string
  ev_Payload :: string
  ev_At :: time

definition Event_Validate :: "event \<Rightarrow> err + unit" where
  "Event_Validate e =
     (if ev_Topic e = [] \<or> ev_HouseholdID e \<le> 0 \<or> ev_ObjectType e = [] \<or> ev_ObjectID e = [] \<or>
         ev_Action e = [] \<or> ev_RequestID e = []
      then Inl (ErrorString ''event fields required'') else Inr ())"

definition Event_JSON :: "(event \<Rightarrow> err + string) \<Rightarrow> event \<Rightarrow> err + string" where
  "Event_JSON marshal e = (case Event_Validate e of Inl x \<Rightarrow> Inl x | Inr _ \<Rightarrow> marshal e)"

definition Fanout_Publish :: "(event \<Rightarrow> ('w, unit) action) option list \<Rightarrow> event \<Rightarrow> ('w, unit) action" where
  "Fanout_Publish consumers e =
     (case Event_Validate e of
        Inl x \<Rightarrow> fail x
      | Inr _ \<Rightarrow> for_each (\<lambda>c. case c of None \<Rightarrow> ret () | Some consume \<Rightarrow> consume e) consumers)"

section \<open>health.go\<close>

record check =
  ck_Name :: string
  ck_Run :: "(err option) option"
  ck_Timeout :: duration

record status =
  st_Name :: string
  st_Healthy :: bool
  st_Duration :: duration
  st_Error :: string

text \<open>\<open>quoted\<close> is the \<^verbatim>\<open>%q\<close> of \<^verbatim>\<open>fmt\<close>; a check that is there has an outcome, and took a time.\<close>

definition RunChecks :: "(string \<Rightarrow> string) \<Rightarrow> (check \<times> duration) list \<Rightarrow> status list" where
  "RunChecks quoted checks = map (\<lambda>(c, took).
     let e = (case ck_Run c of
        None \<Rightarrow> Some (ErrorString (''health check '' @ quoted (ck_Name c) @ '' is not configured''))
      | Some outcome \<Rightarrow> outcome)
     in \<lparr>st_Name = ck_Name c, st_Healthy = (e = None), st_Duration = took,
         st_Error = (case e of None \<Rightarrow> [] | Some x \<Rightarrow> err_text x)\<rparr>) checks"

text \<open>A semaphore is its capacity and the number of slots taken.\<close>

record semaphore =
  sem_cap :: nat
  sem_taken :: nat

definition NewSemaphore :: "int \<Rightarrow> semaphore" where
  "NewSemaphore n = \<lparr>sem_cap = nat (if n < 1 then 1 else n), sem_taken = 0\<rparr>"

text \<open>
  \<open>ctx_err\<close> is the error of a context that is done. When a slot is free and the context is done,
  \<^verbatim>\<open>select\<close> picks either: \<open>prefer_slot\<close> is its choice. \<open>None\<close> means that the call blocks.
\<close>

definition Acquire :: "bool \<Rightarrow> err option \<Rightarrow> semaphore \<Rightarrow> ((err + unit) \<times> semaphore) option" where
  "Acquire prefer_slot ctx_err s =
     (let free = sem_taken s < sem_cap s in
      case ctx_err of
        None \<Rightarrow> if free then Some (Inr (), s\<lparr>sem_taken := sem_taken s + 1\<rparr>) else None
      | Some e \<Rightarrow>
          if free \<and> prefer_slot then Some (Inr (), s\<lparr>sem_taken := sem_taken s + 1\<rparr>)
          else Some (Inl (Wrapf ''acquire semaphore: '' e []), s))"

definition Release :: "semaphore \<Rightarrow> semaphore" where
  "Release s = s\<lparr>sem_taken := sem_taken s - 1\<rparr>"

section \<open>limits.go\<close>

record quota =
  q_Name :: string
  q_Limit :: int
  q_Used :: int
  q_ResetAt :: time
  q_HardBlock :: bool

definition Quota_Validate :: "quota \<Rightarrow> time \<Rightarrow> err + unit" where
  "Quota_Validate q now =
     (if trim_space (q_Name q) = [] \<or> q_Limit q < 0 \<or> q_Used q < 0 \<or> q_Used q > q_Limit q \<or> q_ResetAt q = 0
      then Inl (ErrorString ''invalid quota'')
      else if \<not> q_ResetAt q > now then Inl (ErrorString ''quota reset must be in the future'')
      else Inr ())"

definition Remaining :: "quota \<Rightarrow> int" where
  "Remaining q = (if q_Used q \<ge> q_Limit q then 0 else wrap64 (q_Limit q - q_Used q))"

definition Reserve :: "quota \<Rightarrow> int \<Rightarrow> err option \<times> quota" where
  "Reserve q n =
     (if n \<le> 0 \<or> n > Remaining q \<or> (q_HardBlock q \<and> q_Used q > 0)
      then (Some (ErrorString ''quota exceeded''), q)
      else (None, q\<lparr>q_Used := wrap64 (q_Used q + n)\<rparr>))"

fun average_loop :: "f64 \<Rightarrow> f64 list \<Rightarrow> err + f64" where
  "average_loop acc [] = Inr acc"
| "average_loop acc (v # vs) =
     (if is_nan v \<or> is_inf v then Inl (ErrorString ''non-finite value'') else average_loop (acc + v) vs)"

definition SafeAverage :: "f64 list \<Rightarrow> err + f64" where
  "SafeAverage values =
     (if values = [] then Inl (ErrorString ''empty values'')
      else case average_loop 0 values of
        Inl e \<Rightarrow> Inl e
      | Inr acc \<Rightarrow> Inr (f64_div_count acc (length values)))"

section \<open>metrics.go\<close>

type_synonym counter = "string \<rightharpoonup> int"

definition Counter_Get :: "string \<Rightarrow> counter \<Rightarrow> int" where
  "Counter_Get name c = (case c name of None \<Rightarrow> 0 | Some v \<Rightarrow> v)"

definition Counter_Add :: "string \<Rightarrow> int \<Rightarrow> counter \<Rightarrow> counter" where
  "Counter_Add name delta c = c(name \<mapsto> wrap64 (Counter_Get name c + delta))"

definition FormatMetric :: "string \<Rightarrow> int \<Rightarrow> string" where
  "FormatMetric name v = name @ '' '' @ show_int v"

record timer =
  tm_Started :: time
  tm_Elapsed :: duration

definition StartTimer :: "time \<Rightarrow> timer" where
  "StartTimer now = \<lparr>tm_Started = now, tm_Elapsed = 0\<rparr>"

definition Timer_Stop :: "time \<Rightarrow> timer \<Rightarrow> timer" where
  "Timer_Stop now t = t\<lparr>tm_Elapsed := time_sub now (tm_Started t)\<rparr>"

section \<open>notifications.go\<close>

record notification =
  nt_Recipient :: string
  nt_Channel :: string
  nt_Subject :: string
  nt_Body :: string
  nt_Metadata :: "string \<rightharpoonup> string"

definition ValidateNotification :: "notification \<Rightarrow> err + unit" where
  "ValidateNotification n =
     (if trim_space (nt_Recipient n) = [] \<or> trim_space (nt_Subject n) = [] \<or> trim_space (nt_Body n) = []
      then Inl (ErrorString ''notification fields required'')
      else if nt_Channel n = ''email'' \<or> nt_Channel n = ''push'' \<or> nt_Channel n = ''webhook'' then Inr ()
      else Inl (ErrorString ''unsupported notification channel''))"

definition Send_notification ::
    "err option \<Rightarrow> (notification \<Rightarrow> ('w, unit) action) option \<Rightarrow> notification \<Rightarrow> ('w, unit) action" where
  "Send_notification ctx_err notifier msg =
     (case ValidateNotification msg of
        Inl e \<Rightarrow> fail e
      | Inr _ \<Rightarrow>
          (case notifier of
             None \<Rightarrow> fail (ErrorString ''notifier is not configured'')
           | Some send \<Rightarrow> (case ctx_err of Some e \<Rightarrow> fail e | None \<Rightarrow> send msg)))"

definition CollectingNotifier_Send :: "notification \<Rightarrow> (notification list, unit) action" where
  "CollectingNotifier_Send msg ms = (Inr (), ms @ [msg])"

section \<open>pagination.go\<close>

record page =
  pg_Limit :: int
  pg_Offset :: int
  pg_Sort :: string
  pg_Query :: string

definition NormalizePage :: "page \<Rightarrow> page" where
  "NormalizePage p = p\<lparr>pg_Limit := (if pg_Limit p \<le> 0 \<or> pg_Limit p > 200 then 50 else pg_Limit p),
     pg_Offset := (if pg_Offset p < 0 then 0 else pg_Offset p),
     pg_Sort := trim_space (pg_Sort p), pg_Query := trim_space (pg_Query p)\<rparr>"

definition ValidatePage :: "page \<Rightarrow> err + unit" where
  "ValidatePage p =
     (if pg_Limit p < 0 \<or> pg_Limit p > 200 \<or> pg_Offset p < 0
      then Inl (Wrapf ''invalid page: '' (ErrorString ''bounds'') []) else Inr ())"

record 'a page_result =
  pr_Items :: "'a list"
  pr_Total :: int
  pr_Limit :: int
  pr_Offset :: int

text \<open>A slice that is nil is the empty list here: the result holds an empty one either way.\<close>

definition NewResult :: "'a list \<Rightarrow> int \<Rightarrow> page \<Rightarrow> 'a page_result" where
  "NewResult items n p0 =
     (let p = NormalizePage p0 in
      \<lparr>pr_Items = items, pr_Total = n, pr_Limit = pg_Limit p, pr_Offset = pg_Offset p\<rparr>)"

section \<open>Properties\<close>

text \<open>Validated batches have distinct devices.\<close>

lemma batch_loop_Inr:
  "batch_loop seen items = Inr () \<longleftrightarrow>
     (\<forall>i\<in>set items. 0 < bi_DeviceID i \<and> bi_Action i \<noteq> [] \<and> bi_DeviceID i \<notin> seen) \<and>
     distinct (map bi_DeviceID items)"
  by (induction seen items rule: batch_loop.induct) (auto simp: image_iff dest: sym)

lemma ValidateBatch_Inr:
  "ValidateBatch items = Inr () \<longleftrightarrow> items \<noteq> [] \<and> length items \<le> 100 \<and> distinct (map bi_DeviceID items) \<and>
     (\<forall>i\<in>set items. 0 < bi_DeviceID i \<and> bi_Action i \<noteq> [])"
  by (auto simp: ValidateBatch_def batch_loop_Inr)

lemma first_Some_None: "first_Some xs = None \<longleftrightarrow> (\<forall>x\<in>set xs. x = None)"
  by (induction xs rule: first_Some.induct) (auto split: option.splits)

lemma first_Some_mem: "first_Some xs = Some x \<Longrightarrow> Some x \<in> set xs"
  by (induction xs rule: first_Some.induct) (auto split: option.splits)

text \<open>A batch that runs to its end yields one result for each item, in the order of the items and
  with the outcome of the item's own run, whatever order the goroutines finish in. Its error is the
  context's, or else some item's error other than a cancellation, and absent only if there is none.\<close>

lemma ExecuteBatch_outcome:
  assumes "ValidateBatch items = Inr ()" "length runs = length items" "set order = {..<length items}"
    and "ExecuteBatch items True runs order ctx_err = (results, e)"
  shows "results = map2 run_item items runs \<and> map br_DeviceID results = map bi_DeviceID items \<and>
    distinct (map br_DeviceID results) \<and>
    (ctx_err \<noteq> None \<longrightarrow> e = ctx_err) \<and>
    (ctx_err = None \<longrightarrow> (e = None \<longleftrightarrow> (\<forall>r\<in>set results. counted_error r = None)) \<and>
       (\<forall>x. e = Some x \<longrightarrow> (\<exists>r\<in>set results. counted_error r = Some x)))"
proof -
  let ?rs = "map2 run_item items runs"
  have r: "results = ?rs" and e: "e = (if ctx_err \<noteq> None then ctx_err
      else first_Some (map (\<lambda>i. counted_error (?rs ! i)) order))"
    using assms(1,4) by (auto simp: ExecuteBatch_def Let_def split: if_splits)
  have ids: "map br_DeviceID ?rs = map bi_DeviceID items"
    using assms(2) by (intro nth_equalityI) (simp_all add: run_item_def Let_def)
  have "(\<lambda>i. ?rs ! i) ` set order = set ?rs"
    using nth_image [of "length items" ?rs] assms(2,3) by (simp add: lessThan_atLeast0)
  then have m: "set (map (\<lambda>i. counted_error (?rs ! i)) order) = counted_error ` set ?rs"
    by (metis image_image set_map)
  define es where "es = map (\<lambda>i. counted_error (?rs ! i)) order"
  have none: "first_Some es = None \<longleftrightarrow> (\<forall>r\<in>set ?rs. counted_error r = None)"
    unfolding first_Some_None es_def m by (simp only: ball_simps)
  have some: "\<exists>r\<in>set ?rs. counted_error r = Some x" if "first_Some es = Some x" for x
    using first_Some_mem [OF that] unfolding es_def m by (metis imageE)
  have d: "distinct (map br_DeviceID ?rs)" using assms(1) unfolding ids ValidateBatch_Inr by blast
  show ?thesis unfolding r e es_def [symmetric] using ids d none some by (cases ctx_err) auto
qed

text \<open>Reservations of a valid quota never exceed its limit and never overflow: the used amount
  stays between zero and the limit and grows by what was reserved, and a reservation that is refused
  changes nothing.\<close>

lemma Reserve_within_limit:
  assumes "Quota_Validate q now = Inr ()" "q_Limit q \<le> max_i64" "Reserve q n = (e, q')"
  shows "0 \<le> q_Used q' \<and> q_Used q' \<le> q_Limit q' \<and> q_Limit q' = q_Limit q \<and>
    (if e = None then 0 < n \<and> q_Used q' = q_Used q + n else q' = q) \<and>
    Remaining q' = q_Limit q' - q_Used q'"
proof -
  from assms(1) have u: "0 \<le> q_Used q" "q_Used q \<le> q_Limit q"
    by (auto simp: Quota_Validate_def split: if_splits)
  have w: "wrap64 x = x" if "0 \<le> x" "x \<le> q_Limit q" for x
    using that assms(2) by (intro wrap64_id) (auto simp: min_i64_def)
  have rem: "Remaining q1 = q_Limit q1 - q_Used q1"
    if "0 \<le> q_Used q1" "q_Used q1 \<le> q_Limit q1" "q_Limit q1 = q_Limit q" for q1
    using that w by (auto simp: Remaining_def)
  have "wrap64 (q_Used q + n) = q_Used q + n" if "0 < n" "n \<le> q_Limit q - q_Used q"
    using that u by (intro w) auto
  with assms(3) rem u show ?thesis by (auto simp: Reserve_def split: if_splits)
qed

text \<open>The average of finite values is not always finite: the sum overflows.\<close>

lemma bit_width_power: "bit_width (2 ^ k) = Suc k"
  by (induction k) (simp_all add: bit_width.simps [of "2 ^ _"] bit_width.simps [of "2 * 2 ^ _"] bit_width.simps [of "Suc 0"] bit_width.simps [of 0])

lemma quotient_of_of_nat: "quotient_of (of_nat n) = (int n, 1)"
  by (simp add: normalize_def quotient_of_Fract flip: Fract_of_nat_eq)

lemma leading_exponent_power: "leading_exponent (2 ^ k) = int k"
proof -
  have "quotient_of (2 ^ k) = (int (2 ^ k), 1)"
    using quotient_of_of_nat [of "2 ^ k"] by simp
  moreover have "pow2 (int k) = 2 ^ k" by (simp add: pow2_def)
  ultimately show ?thesis
    using bit_width_power [of k] bit_width_power [of 0]
    by (simp add: leading_exponent_def Let_def del: of_nat_power)
qed

lemma round64_power:
  assumes "52 \<le> k"
  shows "round64 (2 ^ k) = (if pow2 1024 \<le> 2 ^ k then PosInf else Fin (2 ^ k))"
proof -
  have m: "max (int k - 52) (-1074) = int (k - 52)" using assms by simp
  have u: "pow2 (int (k - 52)) = 2 ^ (k - 52)" by (simp add: pow2_def)
  have split: "(2 :: rat) ^ k = 2 ^ 52 * 2 ^ (k - 52)" using assms by (simp only: power_add [symmetric]) simp
  have "(2 :: rat) ^ k / 2 ^ (k - 52) = 2 ^ 52"
    unfolding split by (rule nonzero_mult_div_cancel_right) simp
  also have "\<dots> = of_int (2 ^ 52)" by simp
  finally have r: "round_half_even (2 ^ k / 2 ^ (k - 52)) = 2 ^ 52" by (simp only: round_half_even_of_int)
  have "of_int (2 ^ 52) * 2 ^ (k - 52) = (2 :: rat) ^ k" by (simp only: split) simp
  then show ?thesis
    unfolding round64_def round_magnitude_def Let_def leading_exponent_power m u r by simp
qed

lemma round64_power_overflow: "round64 (2 ^ 1024) = PosInf"
proof -
  have "round64 (2 ^ 1024) = (if pow2 1024 \<le> 2 ^ 1024 then PosInf else Fin (2 ^ 1024))"
    by (rule round64_power) simp
  then show ?thesis by (simp only: pow2_1024 order.refl if_True)
qed

lemma SafeAverage_twice:
  "round64 x = Fin x \<Longrightarrow> round64 (x + x) = PosInf \<Longrightarrow> SafeAverage [Fin x, Fin x] = Inr PosInf"
  by (simp add: SafeAverage_def is_nan_def is_inf_def plus_f64_def zero_f64_def)

lemma SafeAverage_overflows:
  "SafeAverage [Fin (2 ^ 1023), Fin (2 ^ 1023)] = Inr PosInf"
proof -
  have "(2 :: rat) ^ n + 2 ^ n = 2 ^ Suc n" for n by simp
  from this [of 1023] have double: "(2 :: rat) ^ 1023 + 2 ^ 1023 = 2 ^ 1024"
    by (simp only: Suc_numeral) (simp only: semiring_norm add_num_simps)
  have half: "round64 (2 ^ 1023) = Fin (2 ^ 1023)"
  proof -
    have "(2 :: rat) ^ 1023 < 2 ^ 1024" by (rule power_strict_increasing) simp_all
    moreover have "round64 (2 ^ 1023) = (if pow2 1024 \<le> 2 ^ 1023 then PosInf else Fin (2 ^ 1023))"
      by (rule round64_power) simp
    ultimately show ?thesis by (simp only: pow2_1024 not_le [symmetric] if_False)
  qed
  from half round64_power_overflow show ?thesis
    unfolding double [symmetric] by (rule SafeAverage_twice)
qed

section \<open>Witnesses\<close>

lemma trimmed_n: "trim_space ''n'' = ''n''"
  by code_simp

end
