(* ===== verification/Upkeep_Service.thy ===== *)
theory Upkeep_Service
  imports Recovery Domain_Ops Schedule
begin

text \<open>
  The services that watch over the rest: \<^verbatim>\<open>maintenance.go\<close> and its scheduler
  (\<^verbatim>\<open>worker/scheduler.go\<close>), \<^verbatim>\<open>retention.go\<close>, \<^verbatim>\<open>alerts.go\<close>, \<^verbatim>\<open>audit.go\<close>,
  \<^verbatim>\<open>notifications.go\<close> and \<^verbatim>\<open>policy.go\<close> of \<^verbatim>\<open>internal/service\<close>.
\<close>

section \<open>Maintenance\<close>

record 'w maintenance_repo =
  mr_VacuumSessions :: "time \<Rightarrow> ('w, int) action"
  mr_ExpirePlans :: "time \<Rightarrow> ('w, int) action"
  mr_FinishStaleRuns :: "time \<Rightarrow> ('w, int) action"

record maintenance_report =
  mn_SessionsDeleted :: int
  mn_PlansExpired :: int
  mn_RunsFailed :: int

text \<open>A service that is not configured is \<open>None\<close>.\<close>

definition Maintenance_Run :: "('w maintenance_repo \<times> 'w clock) option \<Rightarrow> ('w, maintenance_report) action" where
  "Maintenance_Run s =
     (case s of
        None \<Rightarrow> fail (ErrorString ''maintenance is not configured'')
      | Some (r, clock) \<Rightarrow>
          with_now clock (\<lambda>now.
          if now = 0 then fail (ErrorString ''maintenance clock returned zero time'')
          else
            and_then (map_err (wrap_op ''vacuum sessions'') (mr_VacuumSessions r now)) (\<lambda>sessions.
            and_then (map_err (wrap_op ''expire plans'') (mr_ExpirePlans r now)) (\<lambda>plans.
            and_then (map_err (wrap_op ''finish stale runs'') (mr_FinishStaleRuns r (now - 15 * minute))) (\<lambda>runs.
            ret \<lparr>mn_SessionsDeleted = sessions, mn_PlansExpired = plans, mn_RunsFailed = runs\<rparr>)))))"

definition Scheduler_RunOnce :: "('w maintenance_repo \<times> 'w clock) option option \<Rightarrow> ('w, maintenance_report) action" where
  "Scheduler_RunOnce s =
     (case s of
        None \<Rightarrow> fail (ErrorString ''maintenance scheduler is not configured'')
      | Some m \<Rightarrow> Maintenance_Run m)"

definition scheduler_interval :: "duration \<Rightarrow> duration" where
  "scheduler_interval d = (if d \<le> 0 then minute else d)"

text \<open>The loop of the scheduler: what its cycles log, and the state at the end.\<close>

definition Scheduler_cycle ::
    "bool \<Rightarrow> ('w maintenance_repo \<times> 'w clock) option \<Rightarrow> log \<times> 'w \<Rightarrow> log \<times> 'w" where
  "Scheduler_cycle has_logger m s = (case s of (l, w) \<Rightarrow>
     (case Maintenance_Run m w of (r, w') \<Rightarrow> (l @ logged has_logger ''maintenance cycle failed'' (err_of r), w')))"

definition Scheduler_Run ::
    "bool \<Rightarrow> ('w maintenance_repo \<times> 'w clock) option option \<Rightarrow> unit poll_event list \<Rightarrow> 'w \<Rightarrow> err + log \<times> 'w" where
  "Scheduler_Run has_logger s ticks w =
     (case s of
        None \<Rightarrow> Inl (ErrorString ''maintenance scheduler is not configured'')
      | Some m \<Rightarrow> Inr (poll_loop (\<lambda>_. Scheduler_cycle has_logger m) ticks ([], w)))"

section \<open>Retention\<close>

record 'w retention_repo =
  tr_DeleteTelemetryBefore :: "time \<Rightarrow> ('w, int) action"
  tr_DeleteExpiredSessions :: "time \<Rightarrow> ('w, int) action"

record retention_report =
  rt_TelemetryDeleted :: int
  rt_SessionsDeleted :: int
  rt_Cutoff :: time

definition Retention_Run ::
    "('w retention_repo \<times> 'w clock) option \<Rightarrow> duration \<Rightarrow> duration \<Rightarrow> ('w, retention_report) action" where
  "Retention_Run s telemetryAge sessionAge =
     (case s of
        None \<Rightarrow> fail (ErrorString ''retention is not configured'')
      | Some (r, clock) \<Rightarrow>
          if telemetryAge \<le> 0 \<or> sessionAge \<le> 0 then fail (ErrorString ''retention is not configured'')
          else with_now clock (\<lambda>now.
            if now = 0 then fail (ErrorString ''clock returned zero time'')
            else
              and_then (map_err (wrap_op ''delete telemetry'') (tr_DeleteTelemetryBefore r (now - telemetryAge))) (\<lambda>telemetry.
              and_then (map_err (wrap_op ''delete sessions'') (tr_DeleteExpiredSessions r (now - sessionAge))) (\<lambda>sessions.
              ret \<lparr>rt_TelemetryDeleted = telemetry, rt_SessionsDeleted = sessions, rt_Cutoff = now - telemetryAge\<rparr>))))"

section \<open>Alerts\<close>

record 'w alert_repo =
  lr_GetAlert :: "int \<Rightarrow> ('w, alert) action"
  lr_TransitionAlert :: "int \<Rightarrow> string \<Rightarrow> string \<Rightarrow> time \<Rightarrow> ('w, unit) action"

record alert_input =
  ai_HouseholdID :: int
  ai_DeviceID :: "int option"
  ai_Severity :: string
  ai_Code :: string
  ai_Details :: string

text \<open>\<open>marshal\<close> is the error of \<^verbatim>\<open>json.Marshal\<close> on the details, if any.\<close>

definition Alert_Validate :: "(string \<Rightarrow> err option) \<Rightarrow> alert_input \<Rightarrow> err + unit" where
  "Alert_Validate marshal i =
     (if ai_HouseholdID i \<le> 0 \<or> ai_Code i = [] \<or> \<not> ValidSeverity (ai_Severity i) then Inl ErrInvalid
      else case marshal (ai_Details i) of Some e \<Rightarrow> Inl e | None \<Rightarrow> Inr ())"

definition Alert_Resolve :: "('w alert_repo \<times> 'w clock) option \<Rightarrow> int \<Rightarrow> ('w, unit) action" where
  "Alert_Resolve s i =
     (case s of
        None \<Rightarrow> fail ErrInvalid
      | Some (r, clock) \<Rightarrow>
          if i \<le> 0 then fail ErrInvalid
          else
            and_then (lr_GetAlert r i) (\<lambda>a.
            if \<not> alert_transition (al_State a) ''resolved'' then fail ErrConflict
            else with_now clock (lr_TransitionAlert r i (al_State a) ''resolved'')))"

definition Alert_Decision :: "'w clock option \<Rightarrow> alert_policy \<Rightarrow> f64 \<Rightarrow> time option \<Rightarrow> bool \<Rightarrow> 'w \<Rightarrow> alert_decision \<times> 'w" where
  "Alert_Decision clock policy v previous is_open w =
     (case clock of
        None \<Rightarrow> (\<lparr>ad_Open = False, ad_Resolve = False, ad_Reason = ''alert service is not configured''\<rparr>, w)
      | Some c \<Rightarrow> (case c w of (now, w') \<Rightarrow> (EvaluateAlert policy v previous now is_open, w')))"

section \<open>Audit and notifications\<close>

text \<open>\<open>marshal\<close> is \<^verbatim>\<open>json.Marshal\<close>.\<close>

definition Record_audit ::
    "('p \<Rightarrow> err + string) \<Rightarrow> (audit_event \<Rightarrow> ('w, unit) action) option \<Rightarrow> int \<Rightarrow> int option \<Rightarrow> string \<Rightarrow> string
       \<Rightarrow> string \<Rightarrow> string \<Rightarrow> 'p \<Rightarrow> ('w, unit) action" where
  "Record_audit marshal repo household member requestID objectType objectID act payload =
     (case repo of
        None \<Rightarrow> fail (ErrorString ''audit service is not configured'')
      | Some add \<Rightarrow>
          if household \<le> 0 \<or> requestID = [] \<or> objectType = [] \<or> objectID = [] \<or> act = [] then fail ErrInvalid
          else case marshal payload of
            Inl e \<Rightarrow> fail e
          | Inr data \<Rightarrow> add \<lparr>aud_ID = 0, aud_HouseholdID = household, aud_ActorMemberID = member,
              aud_RequestID = requestID, aud_ObjectType = objectType, aud_ObjectID = objectID,
              aud_Action = act, aud_Payload = data, aud_CreatedAt = 0\<rparr>)"

definition SendAlert ::
    "err option \<Rightarrow> (notification \<Rightarrow> ('w, unit) action) option \<Rightarrow> string \<Rightarrow> string \<Rightarrow> string \<Rightarrow> ('w, unit) action" where
  "SendAlert ctx_err notifier recipient code severity =
     Send_notification ctx_err notifier \<lparr>nt_Recipient = recipient, nt_Channel = ''push'',
       nt_Subject = ''Smart home alert: '' @ code, nt_Body = ''Severity: '' @ severity, nt_Metadata = Map.empty\<rparr>"

definition SendInvite ::
    "err option \<Rightarrow> (notification \<Rightarrow> ('w, unit) action) option \<Rightarrow> string \<Rightarrow> string \<Rightarrow> ('w, unit) action" where
  "SendInvite ctx_err notifier recipient household_name =
     Send_notification ctx_err notifier \<lparr>nt_Recipient = recipient, nt_Channel = ''email'',
       nt_Subject = ''Household invitation'', nt_Body = ''You were invited to '' @ household_name,
       nt_Metadata = Map.empty\<rparr>"

section \<open>Policy\<close>

definition ValidateSchedule :: "err option \<Rightarrow> schedule_window list \<Rightarrow> f64 \<Rightarrow> err + unit" where
  "ValidateSchedule ctx_err windows limit =
     (case ctx_err of
        Some e \<Rightarrow> Inl e
      | None \<Rightarrow> if windows = [] then Inl (ErrorString ''schedule is empty'') else Capacity windows limit)"

definition ValidatePlan :: "'w clock option \<Rightarrow> time \<Rightarrow> time \<Rightarrow> 'w \<Rightarrow> (err + unit) \<times> 'w" where
  "ValidatePlan clock start stop w =
     (case clock of
        None \<Rightarrow> (Inl (ErrorString ''policy clock is not configured''), w)
      | Some c \<Rightarrow> (case c w of (now, w') \<Rightarrow> (ValidatePlanWindow start stop now, w')))"

section \<open>The services on the repository\<close>

definition repo_maintenance :: "world maintenance_repo" where
  "repo_maintenance = \<lparr>mr_VacuumSessions = VacuumSessions, mr_ExpirePlans = ExpirePlans,
     mr_FinishStaleRuns = FinishStaleRuns\<rparr>"

definition repo_retention :: "world retention_repo" where
  "repo_retention = \<lparr>tr_DeleteTelemetryBefore = DeleteTelemetryBefore, tr_DeleteExpiredSessions = DeleteExpiredSessions\<rparr>"

definition repo_alerts :: "pg \<Rightarrow> world alert_repo" where
  "repo_alerts p = \<lparr>lr_GetAlert = GetAlert p, lr_TransitionAlert = TransitionAlert\<rparr>"

section \<open>Properties\<close>

definition due_session :: "time \<Rightarrow> session \<Rightarrow> bool" where
  "due_session t s \<longleftrightarrow> ses_ExpiresAt s \<le> t \<or> ses_RevokedAt s \<noteq> None"

definition due_plan :: "time \<Rightarrow> energy_plan \<Rightarrow> bool" where
  "due_plan t p \<longleftrightarrow> (plan_State p = PlanDraft \<or> plan_State p = PlanScheduled) \<and> plan_EndsAt p < t"

definition stuck_run :: "time \<Rightarrow> run_row \<Rightarrow> bool" where
  "stuck_run t r \<longleftrightarrow> rr_State r = RunRunning \<and>
     (case rr_StartedAt r of None \<Rightarrow> False | Some u \<Rightarrow> u < t - 15 * minute)"

definition maintained :: "time \<Rightarrow> time \<Rightarrow> database \<Rightarrow> database" where
  "maintained t server db = db\<lparr>
     db_sessions := filter (\<lambda>s. \<not> due_session t s) (db_sessions db),
     db_plans := update_where (due_plan t) (\<lambda>p. p\<lparr>plan_State := PlanCancelled\<rparr>) (db_plans db),
     db_runs := update_where (stuck_run t) (\<lambda>r. r\<lparr>rr_State := RunFailed, rr_ErrorText := Some ''worker timeout'',
       rr_FinishedAt := Some server\<rparr>) (db_runs db)\<rparr>"

lemma Maintenance_Run_calm:
  assumes "calm w" "t \<noteq> 0"
  shows "Maintenance_Run (Some (repo_maintenance, FixedClock_Now t)) w =
    (Inr \<lparr>mn_SessionsDeleted = count_where (due_session t) (db_sessions (wdb w)),
          mn_PlansExpired = count_where (due_plan t) (db_plans (wdb w)),
          mn_RunsFailed = count_where (stuck_run t) (db_runs (wdb w))\<rparr>,
     w\<lparr>wdb := maintained t (wnow w) (wdb w)\<rparr>)"
  using assms
  by (simp add: Maintenance_Run_def repo_maintenance_def with_now_def FixedClock_Now_def calm_def
      VacuumSessions_def DeleteExpiredSessions_def ExpirePlans_def FinishStaleRuns_def and_then_def map_err_def
      stmt_run delete_expired_sessions_def expire_plans_def fail_stale_runs_def Let_def stuck_run_def [abs_def]
      due_session_def [abs_def] due_plan_def [abs_def] maintained_def cong: option.case_cong)

text \<open>C33. A maintenance cycle without driver faults deletes exactly the sessions that are expired or
  revoked, cancels exactly the plans that ended before they started and fails exactly the runs that
  have been running for more than fifteen minutes, and reports their numbers. Nothing due remains, so
  that a second cycle at the same time finds nothing to do.\<close>

theorem maintenance_cycle:
  assumes "calm w" "t \<noteq> 0" "Maintenance_Run (Some (repo_maintenance, FixedClock_Now t)) w = (x, w')"
  shows "x = Inr \<lparr>mn_SessionsDeleted = count_where (due_session t) (db_sessions (wdb w)),
          mn_PlansExpired = count_where (due_plan t) (db_plans (wdb w)),
          mn_RunsFailed = count_where (stuck_run t) (db_runs (wdb w))\<rparr> \<and>
    wdb w' = maintained t (wnow w) (wdb w) \<and>
    Maintenance_Run (Some (repo_maintenance, FixedClock_Now t)) w' =
      (Inr \<lparr>mn_SessionsDeleted = 0, mn_PlansExpired = 0, mn_RunsFailed = 0\<rparr>, w')"
proof -
  have w': "w' = w\<lparr>wdb := maintained t (wnow w) (wdb w)\<rparr>" using assms Maintenance_Run_calm by simp
  have none: "\<not> list_ex p (update_where p f rows)" if "\<And>r. p r \<Longrightarrow> \<not> p (f r)" for p :: "'r \<Rightarrow> bool" and f rows
    using that by (auto simp: list_ex_iff set_update_where)
  have plans: "\<not> list_ex (due_plan t) (db_plans (wdb w'))" and runs: "\<not> list_ex (stuck_run t) (db_runs (wdb w'))"
    unfolding w' by (simp_all add: maintained_def none due_plan_def stuck_run_def)
  have sessions: "\<not> list_ex (due_session t) (db_sessions (wdb w'))"
    unfolding w' by (auto simp: maintained_def list_ex_iff)
  have fixed: "maintained t (wnow w') (wdb w') = wdb w'"
    using plans runs sessions by (simp add: maintained_def update_where_none filter_id_conv list_ex_iff)
  have "calm w'" using assms(1) by (simp add: w' calm_def)
  from Maintenance_Run_calm [OF this assms(2)] fixed plans runs sessions
  have "Maintenance_Run (Some (repo_maintenance, FixedClock_Now t)) w' =
      (Inr \<lparr>mn_SessionsDeleted = 0, mn_PlansExpired = 0, mn_RunsFailed = 0\<rparr>, w')"
    by (simp add: count_where_eq_0)
  with assms Maintenance_Run_calm w' show ?thesis by simp
qed

theorem maintenance_cycle_witness:
  "Maintenance_Run (Some (repo_maintenance, FixedClock_Now (20 * minute)))
     (snd (Maintenance_Run (Some (repo_maintenance, FixedClock_Now (20 * minute))) sample)) =
   (Inr \<lparr>mn_SessionsDeleted = 0, mn_PlansExpired = 0, mn_RunsFailed = 0\<rparr>,
    snd (Maintenance_Run (Some (repo_maintenance, FixedClock_Now (20 * minute))) sample))"
  using maintenance_cycle [OF _ _ prod.collapse [symmetric], of sample "20 * minute"]
  by (simp add: calm_def)

end
