(* ===== verification/Command_Service.thy ===== *)
theory Command_Service
  imports Upkeep_Service
begin

text \<open>
  Sending commands to devices and listing devices: \<^verbatim>\<open>batch.go\<close>, \<^verbatim>\<open>dispatch.go\<close>,
  \<^verbatim>\<open>commands.go\<close> and \<^verbatim>\<open>pagination.go\<close> of \<^verbatim>\<open>internal/service\<close>. The functions that send a
  command are arguments, and so is the context, as its error in a state.
\<close>

section \<open>Batches\<close>

record batch_command =
  bc_DeviceID :: int
  bc_Action :: string
  bc_RequestID :: string
  bc_Payload :: string

definition ValidateDeviceCommand :: "device \<Rightarrow> string \<Rightarrow> err + unit" where
  "ValidateDeviceCommand d act =
     (if dev_State d \<noteq> DeviceEnabled then Inl (ErrorString ''device is not enabled'')
      else case dev_Kind d of
        KindLight \<Rightarrow> if act \<noteq> ''on'' \<and> act \<noteq> ''off'' then Inl ErrInvalid else Inr ()
      | KindThermostat \<Rightarrow> if act \<noteq> ''heat'' \<and> act \<noteq> ''cool'' then Inl ErrInvalid else Inr ()
      | KindLock \<Rightarrow> if act \<noteq> ''lock'' \<and> act \<noteq> ''unlock'' then Inl ErrInvalid else Inr ()
      | _ \<Rightarrow> Inl (ErrorString ''device does not accept commands''))"

definition batch_items :: "batch_command list \<Rightarrow> batch_item list" where
  "batch_items commands =
     map (\<lambda>c. \<lparr>bi_DeviceID = bc_DeviceID c, bi_Action = bc_Action c, bi_Payload = bc_Payload c\<rparr>) commands"

definition ValidateCommands :: "'w device_repo option \<Rightarrow> batch_command list \<Rightarrow> ('w, unit) action" where
  "ValidateCommands r commands =
     (case r of
        None \<Rightarrow> fail (ErrorString ''device service is not configured'')
      | Some repo \<Rightarrow>
          (case ValidateBatch (batch_items commands) of
             Inl e \<Rightarrow> fail e
           | Inr _ \<Rightarrow>
               for_each (\<lambda>c.
                 and_then (map_err (wrap_op (''load device '' @ show_int (bc_DeviceID c))) (dr_GetDevice repo (bc_DeviceID c))) (\<lambda>d.
                 case ValidateDeviceCommand d (bc_Action c) of
                   Inl e \<Rightarrow> fail (wrap_op (''device '' @ show_int (bc_DeviceID c)) e)
                 | Inr _ \<Rightarrow> ret ())) commands))"

text \<open>The callback of \<^verbatim>\<open>Execute\<close>: the command of the item's device; \<open>dispatch\<close> is its outcome.\<close>

fun dispatch_item :: "(batch_command \<Rightarrow> err option) \<Rightarrow> batch_command list \<Rightarrow> batch_item \<Rightarrow> err option" where
  "dispatch_item dispatch [] item = Some (ErrorString ''batch command disappeared'')"
| "dispatch_item dispatch (c # cs) item =
     (if bc_DeviceID c = bi_DeviceID item then dispatch c else dispatch_item dispatch cs item)"

text \<open>
  \<open>seen\<close> gives the times at which the goroutine of an item starts and finishes and whether it sees the
  context done, \<open>order\<close> in
  which order they finish, \<open>ctx_err\<close> how the context is at the end.
\<close>

definition Execute_batch ::
    "'w device_repo option \<Rightarrow> batch_command list \<Rightarrow> (batch_command \<Rightarrow> err option) option
       \<Rightarrow> (batch_item \<Rightarrow> time \<times> err option \<times> time) \<Rightarrow> nat list \<Rightarrow> err option
       \<Rightarrow> 'w \<Rightarrow> (batch_result list \<times> err option) \<times> 'w" where
  "Execute_batch r commands dispatch seen order ctx_err w =
     (case dispatch of
        None \<Rightarrow> (([], Some (ErrorString ''batch dispatcher is not configured'')), w)
      | Some f \<Rightarrow>
          (case ValidateCommands r commands w of
             (Inl e, w') \<Rightarrow> (([], Some e), w')
           | (Inr _, w') \<Rightarrow>
               (let items = batch_items commands;
                    runs = map (\<lambda>i. case seen i of (t0, e, t1) \<Rightarrow>
                      \<lparr>ir_Started = t0, ir_Cancelled = e, ir_Outcome = dispatch_item f commands i,
                       ir_Finished = t1\<rparr>) items
                in (ExecuteBatch items True runs order ctx_err, w'))))"

text \<open>\<open>report\<close> renders the payload of the audit event: the error's text and the finishing time.\<close>

definition AuditResult ::
    "(string \<times> time \<Rightarrow> err + string) \<Rightarrow> (audit_event \<Rightarrow> ('w, unit) action) option option \<Rightarrow> int \<Rightarrow> int option
       \<Rightarrow> string \<Rightarrow> batch_result \<Rightarrow> ('w, unit) action" where
  "AuditResult report audit household member requestID result =
     (case audit of
        None \<Rightarrow> fail (ErrorString ''audit service is not configured'')
      | Some repo \<Rightarrow>
          if br_DeviceID result \<le> 0 \<or> requestID = [] then fail ErrInvalid
          else Record_audit report repo household member requestID ''device'' (show_int (br_DeviceID result))
            (if br_Error result \<noteq> None then ''failed'' else ''accepted'')
            (errorString (br_Error result), br_Finished result))"

section \<open>The sequential dispatcher\<close>

record dispatch_record =
  dp_RequestID :: string
  dp_DeviceID :: int
  dp_Action :: string
  dp_State :: string
  dp_Error :: string
  dp_At :: time

definition zero_record :: dispatch_record where
  "zero_record = \<lparr>dp_RequestID = [], dp_DeviceID = 0, dp_Action = [], dp_State = [], dp_Error = [], dp_At = 0\<rparr>"

record 'w command_dispatcher =
  cd_GetDevice :: "(int \<Rightarrow> ('w, device) action) option"
  cd_AddAudit :: "(audit_event \<Rightarrow> ('w, unit) action) option"
  cd_Now :: "'w clock"
  cd_MaxBatch :: int

definition NewDispatcher_service ::
    "(int \<Rightarrow> ('w, device) action) option \<Rightarrow> (audit_event \<Rightarrow> ('w, unit) action) option \<Rightarrow> 'w clock \<Rightarrow> 'w command_dispatcher" where
  "NewDispatcher_service devices store clock =
     \<lparr>cd_GetDevice = devices, cd_AddAudit = store, cd_Now = clock, cd_MaxBatch = 50\<rparr>"

definition validate_dispatch :: "'w command_dispatcher \<Rightarrow> batch_command list \<Rightarrow> ('w, unit) action" where
  "validate_dispatch d commands =
     (case cd_GetDevice d of
        None \<Rightarrow> fail (ErrorString ''device service is not configured'')
      | Some get \<Rightarrow> for_each (\<lambda>c. and_then (get (bc_DeviceID c)) (\<lambda>dev.
          case ValidateDeviceCommand dev (bc_Action c) of Inl e \<Rightarrow> fail e | Inr _ \<Rightarrow> ret ())) commands)"

text \<open>The audit event of a record has no payload.\<close>

definition record_event :: "int \<Rightarrow> int option \<Rightarrow> string \<Rightarrow> int \<Rightarrow> string \<Rightarrow> audit_event" where
  "record_event household member requestID device state =
     \<lparr>aud_ID = 0, aud_HouseholdID = household, aud_ActorMemberID = member, aud_RequestID = requestID,
      aud_ObjectType = ''device'', aud_ObjectID = show_int device, aud_Action = state, aud_Payload = [],
      aud_CreatedAt = 0\<rparr>"

text \<open>The loop over the commands: the records of those handled, and the error that ended it.\<close>

fun dispatch_loop ::
    "'w command_dispatcher \<Rightarrow> int \<Rightarrow> int option \<Rightarrow> string \<Rightarrow> (batch_command \<Rightarrow> ('w, unit) action)
       \<Rightarrow> ('w \<Rightarrow> err option) \<Rightarrow> batch_command list \<Rightarrow> 'w \<Rightarrow> (dispatch_record list \<times> err option) \<times> 'w" where
  "dispatch_loop d h m rid send ctx_err [] w = (([], None), w)"
| "dispatch_loop d h m rid send ctx_err (c # cs) w =
     (case cd_Now d w of (now, w1) \<Rightarrow>
      let r = \<lparr>dp_RequestID = rid, dp_DeviceID = bc_DeviceID c, dp_Action = bc_Action c, dp_State = [],
               dp_Error = [], dp_At = now\<rparr> in
      case ctx_err w1 of
        Some e \<Rightarrow> (([r\<lparr>dp_State := ''cancelled'', dp_Error := err_text e\<rparr>], Some e), w1)
      | None \<Rightarrow>
          (case send c w1 of (x, w2) \<Rightarrow>
           let r' = (case x of Inl e \<Rightarrow> r\<lparr>dp_State := ''failed'', dp_Error := err_text e\<rparr>
                     | Inr _ \<Rightarrow> r\<lparr>dp_State := ''accepted''\<rparr>) in
           case (case cd_AddAudit d of None \<Rightarrow> (Inr (), w2)
                 | Some add \<Rightarrow> add (record_event h m rid (bc_DeviceID c) (dp_State r')) w2) of
             (Inl e, w3) \<Rightarrow> (([r'], Some (wrap_op ''audit dispatch'' e)), w3)
           | (Inr _, w3) \<Rightarrow>
               (case dispatch_loop d h m rid send ctx_err cs w3 of ((rs, e), w4) \<Rightarrow> ((r' # rs, e), w4))))"

definition Dispatch_commands ::
    "'w command_dispatcher \<Rightarrow> int \<Rightarrow> int option \<Rightarrow> string \<Rightarrow> batch_command list \<Rightarrow> (batch_command \<Rightarrow> ('w, unit) action)
       \<Rightarrow> ('w \<Rightarrow> err option) \<Rightarrow> 'w \<Rightarrow> (dispatch_record list \<times> err option) \<times> 'w" where
  "Dispatch_commands d h m rid commands send ctx_err w =
     (if h \<le> 0 \<or> trim_space rid = [] \<or> commands = [] \<or> int (length commands) > cd_MaxBatch d
      then (([], Some ErrInvalid), w)
      else case validate_dispatch d commands w of
        (Inl e, w1) \<Rightarrow> (([], Some e), w1)
      | (Inr _, w1) \<Rightarrow>
          (case dispatch_loop d h m rid send ctx_err commands w1 of
             ((rs, e), w2) \<Rightarrow> ((rs @ replicate (length commands - length rs) zero_record, e), w2)))"

definition Summarize_records :: "dispatch_record list \<Rightarrow> nat \<times> nat" where
  "Summarize_records rs =
     (length (filter (\<lambda>r. dp_State r = ''accepted'') rs),
      length (filter (\<lambda>r. dp_State r = ''failed'' \<or> dp_State r = ''cancelled'') rs))"

fun validate_records :: "int set \<Rightarrow> dispatch_record list \<Rightarrow> err + unit" where
  "validate_records seen [] = Inr ()"
| "validate_records seen (r # rs) =
     (if dp_DeviceID r \<le> 0 \<or> dp_RequestID r = [] \<or> dp_At r = 0
      then Inl (ErrorString ''dispatch record is incomplete'')
      else if dp_DeviceID r \<in> seen then Inl (ErrorString ''duplicate dispatch record'')
      else if dp_State r \<noteq> ''accepted'' \<and> dp_State r \<noteq> ''failed'' \<and> dp_State r \<noteq> ''cancelled''
      then Inl (ErrorString ''unknown dispatch state'')
      else validate_records (insert (dp_DeviceID r) seen) rs)"

definition ValidateDispatchRecords :: "dispatch_record list \<Rightarrow> err + unit" where
  "ValidateDispatchRecords rs = validate_records {} rs"

section \<open>Single commands\<close>

record command_log =
  cl_Commands :: "command list"
  cl_Err :: "err option"

definition DeviceCommandExecutor_Execute :: "command \<Rightarrow> (command_log, command_result) action" where
  "DeviceCommandExecutor_Execute c s =
     (case cl_Err s of
        Some e \<Rightarrow> (Inl e, s)
      | None \<Rightarrow> (Inr \<lparr>cr_Accepted = True, cr_Retryable = False, cr_ErrorCode = [], cr_Message = ''accepted''\<rparr>,
          s\<lparr>cl_Commands := cl_Commands s @ [c]\<rparr>))"

definition CommandService_Dispatch ::
    "err option \<Rightarrow> (command \<Rightarrow> ('w, command_result) action) option \<Rightarrow> command \<Rightarrow> ('w, command_result) action" where
  "CommandService_Dispatch ctx_err executor c = Dispatch_command ctx_err executor c"

section \<open>Pages and indexes\<close>

record page_request =
  pq_Limit :: int
  pq_Offset :: int
  pq_Query :: string

definition PageRequest_Normalize :: "page_request \<Rightarrow> err + page_request" where
  "PageRequest_Normalize p =
     (if pq_Limit p < 0 \<or> pq_Offset p < 0 \<or> pq_Limit p > 200 then Inl ErrInvalid
      else Inr (p\<lparr>pq_Limit := (if pq_Limit p = 0 then 50 else pq_Limit p), pq_Query := trim_space (pq_Query p)\<rparr>))"

definition Paginate :: "'a list \<Rightarrow> page_request \<Rightarrow> err + 'a page_result" where
  "Paginate values request =
     (case PageRequest_Normalize request of
        Inl e \<Rightarrow> Inl e
      | Inr r \<Rightarrow>
          (let n = int (length values);
               start = (if pq_Offset r > n then n else pq_Offset r);
               stop = (if start + pq_Limit r > n then n else start + pq_Limit r)
           in Inr \<lparr>pr_Items = take (nat (stop - start)) (drop (nat start) values), pr_Total = n,
                pr_Limit = pq_Limit r, pr_Offset = pq_Offset r\<rparr>))"

record device_index =
  ix_ByID :: "int \<rightharpoonup> device"
  ix_ByExternal :: "string \<rightharpoonup> int"

text \<open>\<open>u\<close> lowers strings that are not ASCII, \<open>quoted\<close> is \<^verbatim>\<open>%q\<close>.\<close>

fun index_loop ::
    "(string \<Rightarrow> string) \<Rightarrow> (string \<Rightarrow> string) \<Rightarrow> device_index \<Rightarrow> device list \<Rightarrow> err + device_index" where
  "index_loop u quoted index [] = Inr index"
| "index_loop u quoted index (d # ds) =
     (if dev_ID d \<le> 0 \<or> trim_space (dev_ExternalID d) = [] then Inl (ErrorString ''device identity is required'')
      else let key = to_lower u (trim_space (dev_ExternalID d)) in
        if ix_ByExternal index key \<noteq> None
        then Inl (ErrorString (''duplicate external id '' @ quoted key))
        else index_loop u quoted (index\<lparr>ix_ByID := (ix_ByID index)(dev_ID d \<mapsto> Device_Clone d),
               ix_ByExternal := (ix_ByExternal index)(key \<mapsto> dev_ID d)\<rparr>) ds)"

definition BuildDeviceIndex :: "(string \<Rightarrow> string) \<Rightarrow> (string \<Rightarrow> string) \<Rightarrow> device list \<Rightarrow> err + device_index" where
  "BuildDeviceIndex u quoted devices =
     index_loop u quoted \<lparr>ix_ByID = Map.empty, ix_ByExternal = Map.empty\<rparr> devices"

definition contains :: "string \<Rightarrow> string \<Rightarrow> bool" where
  "contains s sub \<longleftrightarrow> list_ex (\<lambda>k. take (length sub) (drop k s) = sub) [0..<Suc (length s)]"

definition FilterDevices ::
    "(string \<Rightarrow> string) \<Rightarrow> err option \<Rightarrow> device list \<Rightarrow> string \<Rightarrow> err + device list" where
  "FilterDevices u ctx_err devices query0 =
     (case ctx_err of
        Some e \<Rightarrow> Inl e
      | None \<Rightarrow>
          (let q = to_lower u (trim_space query0) in
           Inr (slice_stable (\<lambda>a b. dev_ID a < dev_ID b)
             (map Device_Clone (filter (\<lambda>d. q = [] \<or> contains (to_lower u (dev_ExternalID d)) q \<or>
                contains (to_lower u (device_kind_string (dev_Kind d))) q) devices)))))"

definition DeviceIndex_Get :: "device_index \<Rightarrow> int \<Rightarrow> device option" where
  "DeviceIndex_Get index i = map_option Device_Clone (ix_ByID index i)"

section \<open>Properties\<close>

lemma take_drop_page:
  "0 \<le> k \<Longrightarrow> 0 < l \<Longrightarrow>
     take (nat ((if (if k > n then n else k) + l > n then n else (if k > n then n else k) + l) - (if k > n then n else k)))
       (drop (nat (if k > n then n else k)) xs) = take (nat l) (drop (nat k) xs)" if "n = int (length xs)"
  using that by (auto simp: min_def nat_diff_distrib nat_add_distrib order.strict_implies_order)

lemma Paginate_Inr:
  "Paginate xs \<lparr>pq_Limit = l, pq_Offset = k, pq_Query = q\<rparr> = Inr p \<longleftrightarrow>
     0 \<le> l \<and> l \<le> 200 \<and> 0 \<le> k \<and>
     p = \<lparr>pr_Items = take (nat (if l = 0 then 50 else l)) (drop (nat k) xs), pr_Total = int (length xs),
          pr_Limit = (if l = 0 then 50 else l), pr_Offset = k\<rparr>"
  unfolding Paginate_def PageRequest_Normalize_def Let_def
  by (auto simp: take_drop_page split: if_splits)

lemma take_pages: "n * m \<ge> length xs \<Longrightarrow> concat (map (\<lambda>k. take m (drop (k * m) xs)) [0..<n]) = xs"
proof (induction n arbitrary: xs)
  case 0
  then show ?case by simp
next
  case (Suc n)
  have "concat (map (\<lambda>k. take m (drop (k * m) (drop m xs))) [0..<n]) = drop m xs"
    using Suc.prems by (intro Suc.IH) auto
  then show ?case by (simp add: map_upt_Suc comp_def add.commute del: upt_Suc)
qed

text \<open>Pages cover a list: for every limit, asking for the pages at multiples of it yields all values
  in their order, each once, and every page reports the total.\<close>

lemma pages_cover:
  assumes "1 \<le> l" "l \<le> 200" "length xs \<le> n * nat l"
  shows "\<exists>ps. map (\<lambda>k. Paginate xs \<lparr>pq_Limit = l, pq_Offset = int k * l, pq_Query = q\<rparr>) [0..<n] = map Inr ps \<and>
    concat (map pr_Items ps) = xs \<and> (\<forall>p\<in>set ps. pr_Total p = int (length xs) \<and> length (pr_Items p) \<le> nat l)"
proof -
  let ?page = "\<lambda>k. \<lparr>pr_Items = take (nat l) (drop (k * nat l) xs), pr_Total = int (length xs), pr_Limit = l, pr_Offset = int k * l\<rparr>"
  have page: "Paginate xs \<lparr>pq_Limit = l, pq_Offset = int k * l, pq_Query = q\<rparr> = Inr (?page k)" for k
    using assms(1,2) by (simp add: Paginate_Inr nat_mult_distrib)
  have "concat (map (\<lambda>k. take (nat l) (drop (k * nat l) xs)) [0..<n]) = xs"
    by (rule take_pages) (rule assms(3))
  then show ?thesis
    by (intro exI [of _ "map ?page [0..<n]"]) (auto simp: page comp_def)
qed

text \<open>Validated commands are for distinct enabled devices that accept them.\<close>

definition command_ready :: "world \<Rightarrow> batch_command \<Rightarrow> bool" where
  "command_ready w c \<longleftrightarrow> (\<exists>d. device_view w (bc_DeviceID c) = Some d \<and> dev_State d = DeviceEnabled \<and>
     CompatibleAction (dev_Kind d) (bc_Action c))"

lemma ValidateDeviceCommand_Inr:
  "ValidateDeviceCommand d act = Inr () \<longleftrightarrow> dev_State d = DeviceEnabled \<and> CompatibleAction (dev_Kind d) act"
  by (cases "dev_Kind d") (auto simp: ValidateDeviceCommand_def)

lemma check_Inr:
  "(case x of Inl e \<Rightarrow> fail (h e) | Inr _ \<Rightarrow> ret ()) w = (Inr u, w') \<longleftrightarrow> x = Inr () \<and> w' = w" for x :: "err + unit"
  by (cases x) auto

lemma commands_ready:
  "for_each (\<lambda>c. and_then (map_err (f c) (GetDevice (bc_DeviceID c))) (\<lambda>d.
      case ValidateDeviceCommand d (bc_Action c) of Inl e \<Rightarrow> fail (g c e) | Inr _ \<Rightarrow> ret ())) cs w = (Inr u, w') \<Longrightarrow>
     wdb w' = wdb w \<and> (\<forall>c\<in>set cs. command_ready w c)"
proof (induction cs arbitrary: w)
  case Nil
  then show ?case by simp
next
  case (Cons c cs)
  then obtain d w1 where get: "GetDevice (bc_DeviceID c) w = (Inr d, w1)"
      and ok: "ValidateDeviceCommand d (bc_Action c) = Inr ()"
      and rest: "for_each (\<lambda>c. and_then (map_err (f c) (GetDevice (bc_DeviceID c))) (\<lambda>d.
        case ValidateDeviceCommand d (bc_Action c) of Inl e \<Rightarrow> fail (g c e) | Inr _ \<Rightarrow> ret ())) cs w1 = (Inr u, w')"
    by (auto simp: and_then_eq_Inr check_Inr)
  have w1: "wdb w1 = wdb w" using wdb_GetDevice [of "bc_DeviceID c" w] get by simp
  then have "device_view w1 = device_view w" by (intro device_view_cong) simp
  then have "command_ready w1 = command_ready w" by (simp add: command_ready_def fun_eq_iff)
  moreover have "command_ready w c"
    using GetDevice_Inr [OF get] ok by (auto simp: command_ready_def ValidateDeviceCommand_Inr)
  ultimately show ?case using Cons.IH [OF rest] w1 by simp
qed

lemma ValidateCommands_Inr:
  assumes "ValidateCommands (Some repo_devices) commands w = (Inr u, w')"
  shows "wdb w' = wdb w \<and> distinct (map bc_DeviceID commands) \<and> ValidateBatch (batch_items commands) = Inr () \<and>
    (\<forall>c\<in>set commands. command_ready w c)"
proof -
  from assms have v: "ValidateBatch (batch_items commands) = Inr ()"
    by (auto simp: ValidateCommands_def split: sum.splits)
  moreover from this have "distinct (map bc_DeviceID commands)"
    by (simp add: ValidateBatch_Inr batch_items_def comp_def)
  ultimately show ?thesis
    using assms commands_ready [of "\<lambda>c. wrap_op (''load device '' @ show_int (bc_DeviceID c))"
        "\<lambda>c. wrap_op (''device '' @ show_int (bc_DeviceID c))" commands w u w']
    by (simp add: ValidateCommands_def repo_devices_def)
qed

lemma dispatch_item_distinct:
  "distinct (map bc_DeviceID cs) \<Longrightarrow> c \<in> set cs \<Longrightarrow> bi_DeviceID item = bc_DeviceID c \<Longrightarrow> dispatch_item f cs item = f c"
  by (induction cs) (auto simp: image_iff)

text \<open>C34. A batch is dispatched only if all its devices are distinct, enabled and accept their actions.
  Then the results come in the order of the commands and each tells the outcome of its own command,
  whatever order the goroutines finish in; the batch fails with the context's error or the error of
  some command.\<close>

theorem Execute_batch_outcome:
  assumes "Execute_batch (Some repo_devices) commands (Some f) seen order ctx w = ((results, e), w')"
    and "results \<noteq> []" "set order = {..<length commands}"
  shows "(\<forall>c\<in>set commands. command_ready w c) \<and> distinct (map bc_DeviceID commands) \<and>
    map br_DeviceID results = map bc_DeviceID commands \<and>
    map br_Error results = map2 (\<lambda>c i. case fst (snd (seen i)) of Some x \<Rightarrow> Some x | None \<Rightarrow> f c) commands (batch_items commands) \<and>
    (ctx \<noteq> None \<longrightarrow> e = ctx) \<and>
    (ctx = None \<longrightarrow> (e = None \<longleftrightarrow> (\<forall>r\<in>set results. counted_error r = None)))"
proof -
  let ?items = "batch_items commands"
  let ?runs = "map (\<lambda>i. case seen i of (t0, e, t1) \<Rightarrow> \<lparr>ir_Started = t0, ir_Cancelled = e,
      ir_Outcome = dispatch_item f commands i, ir_Finished = t1\<rparr>) ?items"
  from assms(1,2) obtain u where v: "ValidateCommands (Some repo_devices) commands w = (Inr u, w')"
      and x: "ExecuteBatch ?items True ?runs order ctx = (results, e)"
    by (auto simp: Execute_batch_def Let_def split: prod.split_asm sum.split_asm)
  note ok = ValidateCommands_Inr [OF v]
  have len: "length ?runs = length ?items" "length ?items = length commands" by (simp_all add: batch_items_def)
  from ExecuteBatch_outcome [OF _ len(1) _ x] ok assms(3) len(2)
  have out: "results = map2 run_item ?items ?runs" "map br_DeviceID results = map bi_DeviceID ?items"
      "ctx \<noteq> None \<longrightarrow> e = ctx" "ctx = None \<longrightarrow> (e = None \<longleftrightarrow> (\<forall>r\<in>set results. counted_error r = None))"
    by auto
  have own: "dispatch_item f commands (?items ! k) = f (commands ! k)" if "k < length commands" for k
    by (rule dispatch_item_distinct) (use ok that in \<open>simp_all add: batch_items_def\<close>)
  have "map br_Error results = map2 (\<lambda>c i. case fst (snd (seen i)) of Some x \<Rightarrow> Some x | None \<Rightarrow> f c) commands ?items"
    unfolding out(1) using len(2) own
    by (intro nth_equalityI) (auto simp: run_item_def Let_def split: prod.split option.split)
  with ok out show ?thesis by (simp add: batch_items_def comp_def)
qed

text \<open>
  The audit event of the sequential dispatcher has no payload, which the column of the payload does
  not accept: with the repository as its store, dispatching stops with an error after the first
  command has been sent, whatever else was to be sent.
\<close>

lemma dispatch_stops_at_audit:
  assumes "0 < h" "trim_space rid \<noteq> []" "1 + int (length cs) \<le> cd_MaxBatch d"
    and "validate_dispatch d (c # cs) w = (Inr (), w1)" "cd_Now d w1 = (now, w2)" "ctx_err w2 = None"
    and "send c w2 = (Inr (), w3)" "cd_AddAudit d = Some (AddAudit p)" "wfaults w3 = []" "jsonb_in p [] = Inl e"
  shows "fst (Dispatch_commands d h m rid (c # cs) send ctx_err w) =
    (\<lparr>dp_RequestID = rid, dp_DeviceID = bc_DeviceID c, dp_Action = bc_Action c, dp_State = ''accepted'',
       dp_Error = [], dp_At = now\<rparr> # replicate (length cs) zero_record,
     Some (wrap_op ''audit dispatch'' (classify_write_error e)))"
proof -
  have "AddAudit p (record_event h m rid (bc_DeviceID c) ''accepted'') w3 = (Inl (classify_write_error e), w3)"
    using assms(9,10) by (simp add: AddAudit_def map_err_def stmt_run insert_audit_def record_event_def)
  with assms show ?thesis by (simp add: Dispatch_commands_def Let_def)
qed

section \<open>Witnesses\<close>

definition sample_commands :: "batch_command list" where
  "sample_commands = [\<lparr>bc_DeviceID = 1, bc_Action = ''off'', bc_RequestID = ''r'', bc_Payload = []\<rparr>]"

lemma sample_batch:
  "fst (Execute_batch (Some repo_devices) sample_commands (Some (\<lambda>_. Some ErrBusy)) (\<lambda>_. (1, None, 2)) [0] None sample) =
     ([\<lparr>br_DeviceID = 1, br_Accepted = False, br_Error = Some ErrBusy, br_Started = 1, br_Finished = 2\<rparr>], Some ErrBusy)"
  by (simp add: Execute_batch_def ValidateCommands_def sample_commands_def batch_items_def ValidateBatch_def
      repo_devices_def GetDevice_def query_def stmt_run sample_db_def empty_db_def one_row_def and_then_def map_err_def
      ValidateDeviceCommand_def ExecuteBatch_def run_item_def Let_def counted_error_def)

theorem Execute_batch_outcome_witness:
  "map br_Error (fst (fst (Execute_batch (Some repo_devices) sample_commands (Some (\<lambda>_. Some ErrBusy))
     (\<lambda>_. (1, None, 2)) [0] None sample))) = [Some ErrBusy] \<and> command_ready sample (hd sample_commands)"
proof -
  let ?x = "Execute_batch (Some repo_devices) sample_commands (Some (\<lambda>_. Some ErrBusy)) (\<lambda>_. (1, None, 2)) [0] None sample"
  have "?x = ((fst (fst ?x), snd (fst ?x)), snd ?x)" by simp
  moreover have "fst (fst ?x) \<noteq> []" by (simp only: sample_batch) simp
  moreover have "set [0] = {..<length sample_commands}" by (auto simp: sample_commands_def)
  ultimately have "\<forall>c\<in>set sample_commands. command_ready sample c" by (rule Execute_batch_outcome [THEN conjunct1])
  then show ?thesis by (simp only: sample_batch) (simp add: sample_commands_def)
qed

end
