(* ===== verification/Float_Laws.thy ===== *)
theory Float_Laws
  imports Go_Float
begin

text \<open>
  What rounding does: the exponent of the leading bit is the binary logarithm, rounded down, so that
  the rounding of concrete values can be calculated, and rounding does not pass an integer.
\<close>

lemma pow2_power_int: "pow2 k = power_int 2 k"
  by (cases "0 \<le> k") (simp_all add: pow2_def power_int_def inverse_eq_divide power_one_over)

lemma pow2_add: "pow2 (a + b) = pow2 a * pow2 b"
  by (simp add: pow2_power_int power_int_add)

lemma pow2_mono: "a \<le> b \<Longrightarrow> pow2 a \<le> pow2 b"
  by (simp add: pow2_power_int power_int_increasing)

lemma pow2_strict: "pow2 a < pow2 b \<Longrightarrow> a < b"
  using pow2_mono [of b a] by (meson not_le)

lemma pow2_int: "pow2 (int n) = 2 ^ n"
  by (simp add: pow2_def)

lemma bit_width_bounds:
  "0 < n \<Longrightarrow> 2 ^ (bit_width n - 1) \<le> n \<and> n < 2 ^ bit_width n"
proof (induction n rule: bit_width.induct)
  case (1 n)
  show ?case
  proof (cases "n = 1")
    case True
    then show ?thesis by (simp add: bit_width.simps [of "Suc 0"] bit_width.simps [of 0])
  next
    case False
    with 1 have "2 ^ (bit_width (n div 2) - 1) \<le> n div 2" "n div 2 < 2 ^ bit_width (n div 2)" by auto
    moreover have "bit_width n = Suc (bit_width (n div 2))" using 1 by (simp add: bit_width.simps [of n])
    moreover have "bit_width (n div 2) \<noteq> 0" using False 1 by (simp add: bit_width.simps [of "n div 2"])
    ultimately show ?thesis by (cases "bit_width (n div 2)") auto
  qed
qed

text \<open>The exponent of the leading bit is the binary logarithm, rounded down.\<close>

lemma leading_exponent_bounds:
  assumes "0 < q"
  shows "pow2 (leading_exponent q) \<le> q \<and> q < pow2 (leading_exponent q + 1)"
proof -
  obtain a b where ab: "quotient_of q = (a, b)" by fastforce
  have b: "0 < b" using ab by (rule quotient_of_denom_pos)
  have q: "q = of_int a / of_int b" using quotient_of_div [OF ab] .
  have a: "0 < a" using assms b unfolding q by (simp add: zero_less_divide_iff)
  let ?m = "bit_width (nat a)" and ?n = "bit_width (nat b)"
  have width: "(2 :: rat) ^ (bit_width (nat c) - 1) \<le> of_int c \<and> of_int c < (2 :: rat) ^ bit_width (nat c)" if "0 < c" for c
  proof -
    have "(2 :: nat) ^ (bit_width (nat c) - 1) \<le> nat c" "nat c < (2 :: nat) ^ bit_width (nat c)"
      using bit_width_bounds [of "nat c"] that by simp_all
    then have "of_nat (2 ^ (bit_width (nat c) - 1)) \<le> (of_nat (nat c) :: rat)"
        "(of_nat (nat c) :: rat) < of_nat (2 ^ bit_width (nat c))"
      by (simp_all only: of_nat_le_iff of_nat_less_iff)
    then show ?thesis using that by simp
  qed
  have pos: "0 < ?m" "0 < ?n" using a b by (simp_all add: bit_width.simps [of "nat _"])
  have up: "q < pow2 (int ?m - int ?n + 1)"
  proof -
    have "q < 2 ^ ?m / 2 ^ (?n - 1)"
      unfolding q using width [OF a] width [OF b] a b by (intro frac_less) auto
    also have "\<dots> = pow2 (int ?m - int ?n + 1)"
      using pos pow2_add [of "int ?m - int ?n + 1" "int (?n - 1)"] pow2_pos [of "int (?n - 1)"]
      by (simp add: pow2_int [symmetric] of_nat_diff field_simps less_imp_neq [symmetric])
    finally show ?thesis .
  qed
  have down: "pow2 (int ?m - int ?n - 1) \<le> q"
  proof -
    have "pow2 (int ?m - int ?n - 1) = 2 ^ (?m - 1) / 2 ^ ?n"
      using pos pow2_add [of "int ?m - int ?n - 1" "int ?n"] pow2_pos [of "int ?n"]
      by (simp add: pow2_int [symmetric] of_nat_diff field_simps less_imp_neq [symmetric])
    also have "\<dots> \<le> q" unfolding q using width [OF a] width [OF b] a b by (intro frac_le) auto
    finally show ?thesis .
  qed
  have "leading_exponent q = (if q < pow2 (int ?m - int ?n) then int ?m - int ?n - 1 else int ?m - int ?n)"
    by (simp add: leading_exponent_def ab Let_def)
  with up down show ?thesis by auto
qed

lemma leading_exponent_unique:
  assumes "pow2 e \<le> q" "q < pow2 (e + 1)"
  shows "leading_exponent q = e"
proof -
  have "0 < q" using assms(1) pow2_pos [of e] by linarith
  then have "pow2 e < pow2 (leading_exponent q + 1)" "pow2 (leading_exponent q) < pow2 (e + 1)"
    using leading_exponent_bounds [of q] assms by auto
  then have "e < leading_exponent q + 1" "leading_exponent q < e + 1" by (auto dest: pow2_strict)
  then show ?thesis by simp
qed

lemma round_half_even_nearest:
  assumes "of_int m - 1 / 2 < x" "x < of_int m + 1 / 2"
  shows "round_half_even x = m"
proof (cases "of_int m \<le> x")
  case True
  then have "\<lfloor>x\<rfloor> = m" using assms by (intro floor_unique) simp_all
  with assms(2) show ?thesis by (simp add: round_half_even_def Let_def)
next
  case False
  then have "\<lfloor>x\<rfloor> = m - 1" using assms by (intro floor_unique) simp_all
  with assms(1) False show ?thesis by (simp add: round_half_even_def Let_def)
qed

text \<open>Calculating the rounding of a concrete value: \<open>e\<close> is its exponent and \<open>m\<close> its mantissa.\<close>

lemma round64_eqI:
  assumes "pow2 e \<le> q" "q < pow2 (e + 1)" "- 1022 \<le> e" "e \<le> 900"
    and "of_int m - 1 / 2 < q / pow2 (e - 52)" "q / pow2 (e - 52) < of_int m + 1 / 2" "m \<le> 2 ^ 53"
  shows "round64 q = Fin (of_int m * pow2 (e - 52))"
proof -
  have q: "0 < q" using assms(1) pow2_pos [of e] by linarith
  have u: "max (leading_exponent q - 52) (-1074) = e - 52"
    using leading_exponent_unique [OF assms(1,2)] assms(3) by simp
  have "of_int m \<le> (2 :: rat) ^ 53" using assms(7) by (metis of_int_le_iff of_int_numeral of_int_power)
  then have "of_int m * pow2 (e - 52) \<le> 2 ^ 53 * pow2 (e - 52)" by (intro mult_right_mono) (simp_all add: less_imp_le)
  also have "\<dots> = pow2 (e + 1)" using pow2_add [of 53 "e - 52"] by (simp add: pow2_int [of 53, simplified] add.commute)
  also have "\<dots> < pow2 1024"
    using pow2_mono [of "e + 1" 1023] pow2_add [of 1 1023] pow2_pos [of 1023] pow2_int [of 1] assms(4)
    by (simp del: pow2_pos)
  finally show ?thesis
    using q round_half_even_nearest [OF assms(5,6)] by (simp add: round64_def round_magnitude_def Let_def u)
qed

text \<open>Rounding does not pass an integer.\<close>

lemma round_half_even_le:
  assumes "x \<le> of_int n"
  shows "round_half_even x \<le> n"
proof (cases "\<lfloor>x\<rfloor> = n")
  case True
  with assms have "x = of_int n" using of_int_floor_le [of x] by simp
  then show ?thesis by simp
next
  case False
  have "\<lfloor>x\<rfloor> \<le> n" using floor_mono [OF assms] by simp
  with False show ?thesis by (auto simp: round_half_even_def Let_def)
qed

lemma round64_le_nat:
  assumes "0 \<le> q" "q \<le> of_nat n" "n < 2 ^ 53"
  shows "\<exists>r. round64 q = Fin r \<and> 0 \<le> r \<and> r \<le> of_nat n"
proof (cases "q = 0")
  case False
  then have q: "0 < q" using assms(1) by simp
  have "(of_nat n :: rat) < of_nat (2 ^ 53)" using assms(3) by (simp only: of_nat_less_iff)
  then have n: "(of_nat n :: rat) < pow2 53" by (simp add: pow2_int [of 53, simplified])
  define k where "k = max (leading_exponent q - 52) (-1074)"
  have "pow2 (leading_exponent q) < pow2 53" using leading_exponent_bounds [OF q] assms(2) n by linarith
  then have "k \<le> 0" using pow2_strict unfolding k_def by fastforce
  then have u: "pow2 k = 1 / 2 ^ nat (- k)" by (rule pow2_neg)
  let ?N = "int n * 2 ^ nat (- k)" and ?r = "of_int (round_half_even (q / pow2 k)) * pow2 k"
  have "q / pow2 k \<le> of_int ?N" using assms(2) by (simp add: u mult_right_mono)
  then have "of_int (round_half_even (q / pow2 k)) \<le> (of_int ?N :: rat)"
    using round_half_even_le by (simp only: of_int_le_iff)
  then have "?r \<le> of_int ?N * pow2 k" by (intro mult_right_mono) (simp_all add: less_imp_le)
  also have "\<dots> = of_nat n" by (simp add: u)
  finally have r: "?r \<le> of_nat n" .
  moreover have "0 \<le> ?r"
    using round_half_even_nonneg [of "q / pow2 k"] q by (simp add: less_imp_le)
  moreover have "pow2 53 \<le> pow2 1024" by (rule pow2_mono) simp
  ultimately show ?thesis using q n by (simp add: round64_def round_magnitude_def Let_def flip: k_def)
qed simp

end
