(* ===== verification/Analytics.thy ===== *)
theory Analytics
  imports Command_Service Float_Laws
begin

text \<open>
  \<^verbatim>\<open>internal/analytics/analytics.go\<close> and the services over telemetry: \<^verbatim>\<open>analytics.go\<close>,
  \<^verbatim>\<open>report.go\<close> and \<^verbatim>\<open>telemetry.go\<close> of \<^verbatim>\<open>internal/service\<close>. The unstable \<^verbatim>\<open>sort.Slice\<close> and the order in
  which a map is iterated are arguments.
\<close>

section \<open>More of float64\<close>

fun f64_mul :: "f64 \<Rightarrow> f64 \<Rightarrow> f64" where
  "f64_mul (Fin a) (Fin b) = round64 (a * b)"
| "f64_mul NaN y = NaN"
| "f64_mul x NaN = NaN"
| "f64_mul (Fin a) y = (if a = 0 then NaN else if (0 < a) = (y = PosInf) then PosInf else NegInf)"
| "f64_mul x (Fin b) = (if b = 0 then NaN else if (0 < b) = (x = PosInf) then PosInf else NegInf)"
| "f64_mul x y = (if x = y then PosInf else NegInf)"

text \<open>Division by a positive finite value: no divisor of the program is anything else.\<close>

fun f64_div :: "f64 \<Rightarrow> f64 \<Rightarrow> f64" where
  "f64_div (Fin a) (Fin b) = round64 (a / b)"
| "f64_div x y = x"

definition f64_of_int :: "int \<Rightarrow> f64" where
  "f64_of_int n = round64 (of_int n)"

text \<open>\<^verbatim>\<open>int(math.Ceil(x))\<close> and \<^verbatim>\<open>int(math.Round(x))\<close> of a finite value; of another one the
  conversion is not specified.\<close>

fun f64_ceil :: "f64 \<Rightarrow> int option" where
  "f64_ceil (Fin q) = Some \<lceil>q\<rceil>"
| "f64_ceil x = None"

fun f64_round :: "f64 \<Rightarrow> int option" where
  "f64_round (Fin q) = Some (if 0 \<le> q then \<lfloor>q + 1 / 2\<rfloor> else - \<lfloor>- q + 1 / 2\<rfloor>)"
| "f64_round x = None"

text \<open>\<^verbatim>\<open>Seconds\<close> and \<^verbatim>\<open>Hours\<close> of package \<^verbatim>\<open>time\<close>.\<close>

definition units :: "int \<Rightarrow> duration \<Rightarrow> f64" where
  "units u d = f64_of_int (quot d u) + f64_div (f64_of_int (d - quot d u * u)) (Fin (of_int u))"

definition Seconds :: "duration \<Rightarrow> f64" where
  "Seconds d = units second d"

definition Hours :: "duration \<Rightarrow> f64" where
  "Hours d = units hour d"

section \<open>analytics.go\<close>

record sample_row =
  sa_DeviceID :: int
  sa_At :: time
  sa_Watts :: f64
  sa_Temperature :: "f64 option"

record bucket =
  bk_Start :: time
  bk_End :: time
  bk_Samples :: nat
  bk_WattHours :: f64
  bk_AverageWatts :: f64
  bk_MinWatts :: f64
  bk_MaxWatts :: f64

record summary =
  su_DeviceCount :: nat
  su_Samples :: nat
  su_WattHours :: f64
  su_PeakWatts :: f64
  su_AverageWatts :: f64
  su_First :: time
  su_Last :: time

definition earlier :: "sample_row \<Rightarrow> sample_row \<Rightarrow> bool" where
  "earlier a b \<longleftrightarrow> sa_At a < sa_At b"

fun energy_loop :: "f64 \<Rightarrow> sample_row list \<Rightarrow> f64" where
  "energy_loop acc (a # b # xs) =
     (let d = Hours (time_sub (sa_At b) (sa_At a)) in
      energy_loop (if d \<le> 0 \<or> Fin 24 < d then acc
        else acc + f64_mul (f64_div (sa_Watts a + sa_Watts b) (Fin 2)) d) (b # xs))"
| "energy_loop acc xs = acc"

text \<open>\<open>devices\<close> is the order in which the map of devices is iterated.\<close>

definition EnergyWh :: "(sample_row list \<Rightarrow> sample_row list) \<Rightarrow> int list \<Rightarrow> sample_row list \<Rightarrow> f64" where
  "EnergyWh srt devices samples =
     (if length samples < 2 then 0
      else foldl (\<lambda>acc i. energy_loop acc (srt (filter (\<lambda>s. sa_DeviceID s = i) samples))) 0 devices)"

definition Summarize :: "(sample_row list \<Rightarrow> sample_row list) \<Rightarrow> int list \<Rightarrow> sample_row list \<Rightarrow> summary" where
  "Summarize srt devices samples =
     (if samples = [] then \<lparr>su_DeviceCount = 0, su_Samples = 0, su_WattHours = 0, su_PeakWatts = 0,
        su_AverageWatts = 0, su_First = 0, su_Last = 0\<rparr>
      else let ordered = srt samples in
        \<lparr>su_DeviceCount = length (remdups (map sa_DeviceID ordered)), su_Samples = length ordered,
         su_WattHours = EnergyWh srt devices ordered,
         su_PeakWatts = foldl (\<lambda>peak s. if peak < sa_Watts s then sa_Watts s else peak) 0 ordered,
         su_AverageWatts = f64_div_count (foldl (\<lambda>acc s. acc + sa_Watts s) 0 ordered) (length ordered),
         su_First = sa_At (hd ordered), su_Last = sa_At (last ordered)\<rparr>)"

definition new_bucket :: "time \<Rightarrow> time \<Rightarrow> duration \<Rightarrow> nat \<Rightarrow> bucket" where
  "new_bucket start stop step i =
     (let s = start + wrap64 (int i * step) in
      \<lparr>bk_Start = s, bk_End = (if s + step > stop then stop else s + step), bk_Samples = 0, bk_WattHours = 0,
       bk_AverageWatts = 0, bk_MinWatts = 0, bk_MaxWatts = 0\<rparr>)"

definition add_to_bucket :: "sample_row \<Rightarrow> bucket \<Rightarrow> bucket" where
  "add_to_bucket s b =
     (let n = bk_Samples b + 1 in
      b\<lparr>bk_Samples := n, bk_AverageWatts := bk_AverageWatts b + sa_Watts s,
        bk_MinWatts := (if n = 1 \<or> sa_Watts s < bk_MinWatts b then sa_Watts s else bk_MinWatts b),
        bk_MaxWatts := (if bk_MaxWatts b < sa_Watts s then sa_Watts s else bk_MaxWatts b)\<rparr>)"

definition put_sample :: "time \<Rightarrow> time \<Rightarrow> duration \<Rightarrow> bucket list \<Rightarrow> sample_row \<Rightarrow> bucket list" where
  "put_sample start stop step out s =
     (if sa_At s < start \<or> \<not> sa_At s < stop then out
      else let idx = quot (time_sub (sa_At s) start) step in
        if idx < 0 \<or> int (length out) \<le> idx then out
        else out[nat idx := add_to_bucket s (out ! nat idx)])"

definition finish_bucket :: "bucket \<Rightarrow> bucket" where
  "finish_bucket b =
     (if bk_Samples b > 0
      then let avg = f64_div_count (bk_AverageWatts b) (bk_Samples b) in
        b\<lparr>bk_AverageWatts := avg, bk_WattHours := f64_mul avg (Hours (time_sub (bk_End b) (bk_Start b)))\<rparr>
      else b)"

definition Bucketize :: "sample_row list \<Rightarrow> time \<Rightarrow> time \<Rightarrow> duration \<Rightarrow> bucket list option" where
  "Bucketize samples start stop step =
     (if step \<le> 0 \<or> \<not> start < stop then Some []
      else case f64_ceil (f64_div (Seconds (time_sub stop start)) (Seconds step)) of
        None \<Rightarrow> None
      | Some n \<Rightarrow> Some (map finish_bucket
          (foldl (put_sample start stop step) (map (new_bucket start stop step) [0..<nat n]) samples)))"

text \<open>\<^verbatim>\<open>sort.Float64s\<close> puts NaN first. \<open>None\<close> is a panic, which only a NaN can cause.\<close>

definition float_less :: "f64 \<Rightarrow> f64 \<Rightarrow> bool" where
  "float_less x y \<longleftrightarrow> x < y \<or> (is_nan x \<and> \<not> is_nan y)"

definition Percentile :: "f64 list \<Rightarrow> f64 \<Rightarrow> f64 option" where
  "Percentile values p0 =
     (if values = [] then Some 0
      else let p1 = (if p0 < 0 then 0 else p0);
               p = (if Fin 1 < p1 then Fin 1 else p1);
               ordered = slice_stable float_less values in
        case f64_round (f64_mul p (f64_of_int (int (length ordered) - 1))) of
          None \<Rightarrow> None
        | Some i \<Rightarrow> if 0 \<le> i \<and> i < int (length ordered) then Some (ordered ! nat i) else None)"

section \<open>The services\<close>

type_synonym 'w telemetry_window = "int \<Rightarrow> time \<Rightarrow> time \<Rightarrow> ('w, telemetry list) action"

definition DeviceSummary ::
    "(sample_row list \<Rightarrow> sample_row list) \<Rightarrow> int list \<Rightarrow> 'w telemetry_window option \<Rightarrow> int \<Rightarrow> time \<Rightarrow> time \<Rightarrow> ('w, summary) action" where
  "DeviceSummary srt devices window i start stop =
     (case window of
        None \<Rightarrow> fail (ErrorString ''analytics service is not configured'')
      | Some read \<Rightarrow> and_then (read i start stop) (\<lambda>rows.
          ret (Summarize srt devices (map (\<lambda>r. \<lparr>sa_DeviceID = tel_DeviceID r, sa_At = tel_MeasuredAt r,
            sa_Watts = tel_PowerWatts r, sa_Temperature = tel_TemperatureC r\<rparr>) rows))))"

definition Buckets ::
    "'w telemetry_window option \<Rightarrow> int \<Rightarrow> time \<Rightarrow> time \<Rightarrow> duration \<Rightarrow> ('w, bucket list option) action" where
  "Buckets window i start stop step =
     (case window of
        None \<Rightarrow> fail (ErrorString ''analytics service is not configured'')
      | Some read \<Rightarrow> and_then (read i start stop) (\<lambda>rows.
          ret (Bucketize (map (\<lambda>r. \<lparr>sa_DeviceID = tel_DeviceID r, sa_At = tel_MeasuredAt r,
            sa_Watts = tel_PowerWatts r, sa_Temperature = None\<rparr>) rows) start stop step)))"

definition Record_telemetry :: "(telemetry \<Rightarrow> ('w, unit) action) \<Rightarrow> 'w clock \<Rightarrow> telemetry \<Rightarrow> ('w, unit) action" where
  "Record_telemetry insert_one clock t =
     (if tel_DeviceID t \<le> 0 \<or> tel_Sequence t \<le> 0 \<or> tel_MeasuredAt t = 0 then fail ErrInvalid
      else if tel_PowerWatts t < 0 then fail (Wrapf [] ErrInvalid '': power must be non-negative'')
      else with_now clock (\<lambda>now.
        if tel_MeasuredAt t > now + 5 * minute then fail (Wrapf [] ErrInvalid '': measurement is in the future'')
        else insert_one t))"

definition Window :: "'w telemetry_window \<Rightarrow> 'w telemetry_window" where
  "Window read i start stop =
     (if i \<le> 0 \<or> start = 0 \<or> stop = 0 \<or> \<not> start < stop then fail ErrInvalid
      else if time_sub stop start > 7 * 24 * hour then fail (Wrapf [] ErrInvalid '': window exceeds seven days'')
      else read i start stop)"

definition AveragePower :: "telemetry list \<Rightarrow> f64" where
  "AveragePower rows =
     (if rows = [] then 0 else f64_div_count (foldl (\<lambda>acc r. acc + tel_PowerWatts r) 0 rows) (length rows))"

record device_report =
  dv_DeviceID :: int
  dv_SampleCount :: nat
  dv_AveragePower :: f64
  dv_LastMeasuredAt :: time

definition BuildDeviceReport :: "telemetry list \<Rightarrow> device_report" where
  "BuildDeviceReport rows =
     (if rows = [] then \<lparr>dv_DeviceID = 0, dv_SampleCount = 0, dv_AveragePower = 0, dv_LastMeasuredAt = 0\<rparr>
      else \<lparr>dv_DeviceID = tel_DeviceID (hd rows), dv_SampleCount = length rows, dv_AveragePower = AveragePower rows,
        dv_LastMeasuredAt = foldl (\<lambda>l r. if tel_MeasuredAt r > l then tel_MeasuredAt r else l) 0 rows\<rparr>)"

definition SortTelemetry :: "telemetry list \<Rightarrow> telemetry list" where
  "SortTelemetry rows = slice_stable (\<lambda>a b. tel_MeasuredAt a < tel_MeasuredAt b) rows"

definition Report_Telemetry :: "'w telemetry_window option \<Rightarrow> int \<Rightarrow> time \<Rightarrow> time \<Rightarrow> ('w, device_report) action" where
  "Report_Telemetry window i start stop =
     (case window of
        None \<Rightarrow> fail (ErrorString ''report service is not configured'')
      | Some read \<Rightarrow> and_then (read i start stop) (\<lambda>rows. ret (BuildDeviceReport (SortTelemetry rows))))"

section \<open>Buckets\<close>

definition hits :: "time \<Rightarrow> time \<Rightarrow> duration \<Rightarrow> nat \<Rightarrow> sample_row \<Rightarrow> bool" where
  "hits start stop step k s \<longleftrightarrow> start \<le> sa_At s \<and> sa_At s < stop \<and> quot (time_sub (sa_At s) start) step = int k"

abbreviation add_all :: "bucket \<Rightarrow> sample_row list \<Rightarrow> bucket" where
  "add_all \<equiv> foldl (\<lambda>b s. add_to_bucket s b)"

lemma put_samples:
  "k < length out \<Longrightarrow> length (foldl (put_sample start stop step) out xs) = length out \<and>
     foldl (put_sample start stop step) out xs ! k = add_all (out ! k) (filter (hits start stop step k) xs)"
proof (induction xs arbitrary: out)
  case Nil
  then show ?case by simp
next
  case (Cons s xs)
  have "length (put_sample start stop step out s) = length out"
    by (simp add: put_sample_def Let_def)
  moreover have "put_sample start stop step out s ! k =
      (if hits start stop step k s then add_to_bucket s (out ! k) else out ! k)"
    using Cons.prems by (auto simp: put_sample_def hits_def Let_def nth_list_update)
  ultimately show ?case using Cons.IH [of "put_sample start stop step out s"] Cons.prems by simp
qed

lemma add_all_fields:
  "bk_Start (add_all b xs) = bk_Start b \<and> bk_End (add_all b xs) = bk_End b \<and>
   bk_Samples (add_all b xs) = bk_Samples b + length xs \<and>
   bk_AverageWatts (add_all b xs) = foldl (\<lambda>acc s. acc + sa_Watts s) (bk_AverageWatts b) xs"
  by (induction xs arbitrary: b) (simp_all add: add_to_bucket_def Let_def)

text \<open>The extremes of a bucket that has taken in the samples \<open>xs\<close>: the greatest of zero and the readings,
  and the least reading. NaN loses every comparison: it is passed over, except as the first reading,
  which no other replaces.\<close>

definition greatest :: "f64 \<Rightarrow> f64 set \<Rightarrow> bool" where
  "greatest m X \<longleftrightarrow> m \<in> X \<and> m \<noteq> NaN \<and> (\<forall>x\<in>X. x \<noteq> NaN \<longrightarrow> x \<le> m)"

definition least :: "f64 \<Rightarrow> f64 set \<Rightarrow> bool" where
  "least m X \<longleftrightarrow> m \<in> X \<and> m \<noteq> NaN \<and> (\<forall>x\<in>X. x \<noteq> NaN \<longrightarrow> m \<le> x)"

lemma f64_less_le: "x < y \<Longrightarrow> x \<le> (y :: f64) \<and> x \<noteq> NaN \<and> y \<noteq> NaN"
  by (cases x; cases y) auto

lemma f64_self: "x \<noteq> NaN \<Longrightarrow> x \<le> (x :: f64)"
  by (cases x) auto

lemma greatest_step:
  assumes "greatest m X"
  shows "greatest (if m < x then x else m) (insert x X)"
proof (cases "m < x")
  case True
  then have x: "m \<le> x" "x \<noteq> NaN" using f64_less_le [OF True] by auto
  then have "y \<le> x" if "y \<in> X" "y \<noteq> NaN" for y
    using assms that f64_le_trans [of y m x] by (auto simp: greatest_def)
  then show ?thesis using True x f64_self by (auto simp: greatest_def)
next
  case False
  with assms f64_not_less [of m x] show ?thesis by (auto simp: greatest_def)
qed

lemma least_step:
  assumes "least m X"
  shows "least (if x < m then x else m) (insert x X)"
proof (cases "x < m")
  case True
  then have x: "x \<le> m" "x \<noteq> NaN" using f64_less_le [OF True] by auto
  then have "x \<le> y" if "y \<in> X" "y \<noteq> NaN" for y
    using assms that f64_le_trans [of x m y] by (auto simp: least_def)
  then show ?thesis using True x f64_self by (auto simp: least_def)
next
  case False
  with assms f64_not_less [of x m] show ?thesis by (auto simp: least_def)
qed

definition extremes :: "bucket \<Rightarrow> sample_row list \<Rightarrow> bool" where
  "extremes b xs \<longleftrightarrow> bk_Samples b = length xs \<and> greatest (bk_MaxWatts b) (insert 0 (sa_Watts ` set xs)) \<and>
     (if xs = [] then bk_MinWatts b = 0
      else if sa_Watts (hd xs) = NaN then bk_MinWatts b = NaN
      else least (bk_MinWatts b) (sa_Watts ` set xs))"

lemma extremes_add:
  assumes "extremes b xs"
  shows "extremes (add_to_bucket s b) (xs @ [s])"
proof -
  let ?b = "add_to_bucket s b"
  have up: "greatest (bk_MaxWatts ?b) (insert (sa_Watts s) (insert 0 (sa_Watts ` set xs)))"
    using assms greatest_step [of "bk_MaxWatts b" _ "sa_Watts s"] by (simp add: extremes_def add_to_bucket_def Let_def)
  have n: "bk_Samples ?b = length (xs @ [s])" using assms by (simp add: extremes_def add_to_bucket_def Let_def)
  show ?thesis
  proof (cases "xs = []")
    case True
    with assms up n show ?thesis
      by (auto simp: extremes_def add_to_bucket_def Let_def least_def insert_commute f64_self)
  next
    case False
    then have "bk_MinWatts ?b = (if sa_Watts s < bk_MinWatts b then sa_Watts s else bk_MinWatts b)"
      using assms by (simp add: extremes_def add_to_bucket_def Let_def)
    with False assms up n least_step [of "bk_MinWatts b" "sa_Watts ` set xs" "sa_Watts s"] show ?thesis
      by (auto simp: extremes_def insert_commute)
  qed
qed

lemma extremes_add_all: "extremes b ys \<Longrightarrow> extremes (add_all b xs) (ys @ xs)"
proof (induction xs arbitrary: b ys)
  case Nil
  then show ?case by simp
next
  case (Cons s xs)
  then show ?case using Cons.IH [of "add_to_bucket s b" "ys @ [s]"] extremes_add [of b ys s] by simp
qed

lemma div_eq_iff_bounds: "a div b = k \<longleftrightarrow> k * b \<le> a \<and> a < k * b + b" if "0 < b" for a b k :: int
proof
  assume k: "a div b = k"
  have "k * b + a mod b = a" using div_mult_mod_eq [of a b] by (simp add: k)
  with pos_mod_sign [OF that, of a] pos_mod_bound [OF that, of a]
  show "k * b \<le> a \<and> a < k * b + b" by linarith
next
  assume "k * b \<le> a \<and> a < k * b + b"
  with that show "a div b = k" by (intro int_div_pos_eq [where r = "a - k * b"]) (auto simp: algebra_simps)
qed

lemma hits_interval:
  assumes "0 < step" "stop - start \<le> max_i64"
  shows "hits start stop step k s \<longleftrightarrow>
    start + int k * step \<le> sa_At s \<and> sa_At s < start + int k * step + step \<and> sa_At s < stop"
proof (cases "start \<le> sa_At s \<and> sa_At s < stop")
  case True
  let ?d = "sa_At s - start"
  have "time_sub (sa_At s) start = ?d" using True assms(2) by (simp add: time_sub_def min_i64_def)
  moreover have "quot ?d step = ?d div step" using True assms(1) by (auto simp: quot_def sgn_if)
  moreover have "?d div step = int k \<longleftrightarrow> int k * step \<le> ?d \<and> ?d < int k * step + step"
    using assms(1) by (auto simp: div_eq_iff_bounds)
  ultimately show ?thesis using True by (auto simp: hits_def)
next
  case False
  have "0 \<le> int k * step" using assms(1) by simp
  then have "\<not> (start + int k * step \<le> sa_At s \<and> sa_At s < stop)" using False by linarith
  with False show ?thesis by (auto simp: hits_def)
qed

text \<open>C35. Every bucket holds exactly the samples of its interval, each interval starting where the last
  one ends. It counts them, averages them in their order and multiplies the average with its length; its
  minimum is the least reading (NaN when the first one is), and its maximum the greatest of the readings
  and zero, so that a bucket of negative readings reports the maximum zero.\<close>

theorem buckets_partition:
  assumes "Bucketize samples start stop step = Some out" "stop - start \<le> max_i64" "k < length out"
    and "int k * step \<le> max_i64"
  shows "let b = out ! k; xs = filter (\<lambda>s. bk_Start b \<le> sa_At s \<and> sa_At s < bk_End b) samples in
    bk_Start b = start + int k * step \<and> bk_End b = min stop (start + (int k + 1) * step) \<and>
    bk_Samples b = length xs \<and>
    (xs \<noteq> [] \<longrightarrow> bk_AverageWatts b = f64_div_count (foldl (\<lambda>acc s. acc + sa_Watts s) 0 xs) (length xs)) \<and>
    (xs \<noteq> [] \<longrightarrow> bk_WattHours b = f64_mul (bk_AverageWatts b) (Hours (time_sub (bk_End b) (bk_Start b)))) \<and>
    (xs = [] \<longrightarrow> bk_AverageWatts b = 0 \<and> bk_WattHours b = 0) \<and>
    greatest (bk_MaxWatts b) (insert 0 (sa_Watts ` set xs)) \<and>
    (if xs = [] then bk_MinWatts b = 0
     else if sa_Watts (hd xs) = NaN then bk_MinWatts b = NaN
     else least (bk_MinWatts b) (sa_Watts ` set xs))"
proof -
  from assms(1,3) obtain n where step: "0 < step" "start < stop"
      and out: "out = map finish_bucket (foldl (put_sample start stop step) (map (new_bucket start stop step) [0..<nat n]) samples)"
    by (auto simp: Bucketize_def split: if_splits option.splits)
  let ?new = "map (new_bucket start stop step) [0..<nat n]"
  have "length (foldl (put_sample start stop step) out' xs) = length out'" for out' xs
    by (induction xs arbitrary: out') (simp_all add: put_sample_def Let_def)
  then have k: "k < length ?new" using assms(3) by (simp add: out)
  let ?xs = "filter (hits start stop step k) samples"
  let ?init = "new_bucket start stop step k"
  let ?b = "add_all ?init ?xs"
  have b: "out ! k = finish_bucket ?b" using put_samples [OF k, of start stop step samples] k by (simp add: out)
  have "wrap64 (int k * step) = int k * step"
    using assms(4) step(1) by (intro wrap64_id) (auto simp: min_i64_def intro: order_trans [of _ 0])
  then have b0: "bk_Start ?init = start + int k * step" "bk_End ?init = min stop (start + (int k + 1) * step)"
      "bk_Samples ?init = 0" "bk_AverageWatts ?init = 0" "bk_MaxWatts ?init = 0" "bk_MinWatts ?init = 0"
      "bk_WattHours ?init = 0"
    by (auto simp: new_bucket_def Let_def algebra_simps)
  have finish: "bk_Start (finish_bucket c) = bk_Start c" "bk_End (finish_bucket c) = bk_End c"
      "bk_Samples (finish_bucket c) = bk_Samples c" "bk_MinWatts (finish_bucket c) = bk_MinWatts c"
      "bk_MaxWatts (finish_bucket c) = bk_MaxWatts c"
      "0 < bk_Samples c \<Longrightarrow> bk_AverageWatts (finish_bucket c) = f64_div_count (bk_AverageWatts c) (bk_Samples c)"
      "0 < bk_Samples c \<Longrightarrow> bk_WattHours (finish_bucket c) =
         f64_mul (bk_AverageWatts (finish_bucket c)) (Hours (time_sub (bk_End c) (bk_Start c)))"
      "bk_Samples c = 0 \<Longrightarrow> finish_bucket c = c" for c
    by (simp_all add: finish_bucket_def Let_def)
  have xs: "filter (\<lambda>s. bk_Start (out ! k) \<le> sa_At s \<and> sa_At s < bk_End (out ! k)) samples = ?xs"
    by (rule filter_cong [OF HOL.refl])
      (auto simp: hits_interval [OF step(1) assms(2)] b finish add_all_fields b0 algebra_simps)
  have "extremes ?init []" by (simp add: extremes_def b0 greatest_def zero_f64_def)
  then have e: "extremes ?b ?xs" using extremes_add_all [of ?init "[]" ?xs] by simp
  have empty: "bk_AverageWatts (out ! k) = 0 \<and> bk_WattHours (out ! k) = 0" if "?xs = []"
    unfolding b that by (simp add: finish b0)
  have n: "bk_Samples ?b = length ?xs" by (simp add: add_all_fields b0)
  have hours: "bk_WattHours (out ! k) =
      f64_mul (bk_AverageWatts (out ! k)) (Hours (time_sub (bk_End (out ! k)) (bk_Start (out ! k))))"
    if "?xs \<noteq> []" using that n by (simp add: b finish)
  have average: "bk_AverageWatts (out ! k) = f64_div_count (foldl (\<lambda>acc s. acc + sa_Watts s) 0 ?xs) (length ?xs)"
    if "?xs \<noteq> []" using that n by (simp add: b finish) (simp add: add_all_fields b0)
  have "bk_Start (out ! k) = start + int k * step \<and> bk_End (out ! k) = min stop (start + (int k + 1) * step) \<and>
      bk_Samples (out ! k) = length ?xs"
    by (simp add: b finish add_all_fields b0)
  moreover have "greatest (bk_MaxWatts (out ! k)) (insert 0 (sa_Watts ` set ?xs)) \<and>
      (if ?xs = [] then bk_MinWatts (out ! k) = 0
       else if sa_Watts (hd ?xs) = NaN then bk_MinWatts (out ! k) = NaN
       else least (bk_MinWatts (out ! k)) (sa_Watts ` set ?xs))"
    using e unfolding extremes_def b finish by blast
  ultimately show ?thesis
    unfolding Let_def xs using empty hours average by blast
qed

definition readings :: "sample_row list" where
  "readings =
     [\<lparr>sa_DeviceID = 1, sa_At = second, sa_Watts = Fin 40, sa_Temperature = None\<rparr>,
      \<lparr>sa_DeviceID = 1, sa_At = 6 * second, sa_Watts = Fin 60, sa_Temperature = None\<rparr>,
      \<lparr>sa_DeviceID = 2, sa_At = 7 * second, sa_Watts = Fin 20, sa_Temperature = Some (Fin 21)\<rparr>]"

lemma seconds_exact: "n < 2 ^ 53 \<Longrightarrow> Seconds (int n * second) = Fin (of_nat n)"
  using round64_of_nat [of n] round64_of_nat [of 0]
  by (simp add: Seconds_def units_def f64_of_int_def quot_def plus_f64_def sgn_if)

lemma readings_buckets: "\<exists>out. Bucketize readings 0 (10 * second) (5 * second) = Some out \<and> length out = 2"
proof -
  have s: "Seconds (10 * second) = Fin 10" "Seconds (5 * second) = Fin 5"
    using seconds_exact [of 10] seconds_exact [of 5] by simp_all
  have "f64_ceil (f64_div (Seconds (time_sub (10 * second) 0)) (Seconds (5 * second))) = Some 2"
    using round64_of_nat [of 2] s by (simp add: time_sub_def max_i64_def min_i64_def)
  moreover have "length (foldl (put_sample a b c) out xs) = length out" for a b c out xs
    by (induction xs arbitrary: out) (simp_all add: put_sample_def Let_def)
  ultimately show ?thesis by (simp add: Bucketize_def)
qed

theorem buckets_partition_witness:
  "\<exists>out. Bucketize readings 0 (10 * second) (5 * second) = Some out \<and> bk_Samples (out ! 1) = 2 \<and>
     bk_MinWatts (out ! 1) = Fin 20 \<and> bk_MaxWatts (out ! 1) = Fin 60"
proof -
  obtain out where out: "Bucketize readings 0 (10 * second) (5 * second) = Some out" "length out = 2"
    using readings_buckets by blast
  have "10 * second - 0 \<le> max_i64" "1 < length out" "int 1 * (5 * second) \<le> max_i64"
    using out(2) by (simp_all add: max_i64_def)
  note p = buckets_partition [OF out(1) this, unfolded Let_def]
  then have b: "bk_Start (out ! 1) = 5 * second" "bk_End (out ! 1) = 10 * second" by simp_all
  have "bk_Samples (out ! 1) = 2 \<and> bk_MinWatts (out ! 1) = Fin 20 \<and> bk_MaxWatts (out ! 1) = Fin 60"
    using p unfolding b by (auto simp: readings_def greatest_def least_def zero_f64_def)
  with out(1) show ?thesis by blast
qed

text \<open>The number of buckets is calculated in floating point, which may yield one too many: a window of
  35 milliseconds has seven steps of five milliseconds, and an eighth bucket that is empty.\<close>

lemma pow2_minus: "pow2 (- numeral k) = 1 / 2 ^ numeral k"
  by (simp add: pow2_def)

lemma round_35ms: "round64 (7 / 200) = Fin (1261007895663739 / 36028797018963968)"
  using round64_eqI [of "-5" "7 / 200" 5044031582654956]
  by (simp add: pow2_minus)

lemma round_35ms_again: "round64 (1261007895663739 / 36028797018963968) = Fin (1261007895663739 / 36028797018963968)"
  using round64_eqI [of "-5" "1261007895663739 / 36028797018963968" 5044031582654956]
  by (simp add: pow2_minus)

lemma round_5ms: "round64 (1 / 200) = Fin (5764607523034235 / 1152921504606846976)"
  using round64_eqI [of "-8" "1 / 200" 5764607523034235]
  by (simp add: pow2_minus)

lemma round_5ms_again: "round64 (5764607523034235 / 1152921504606846976) = Fin (5764607523034235 / 1152921504606846976)"
  using round64_eqI [of "-8" "5764607523034235 / 1152921504606846976" 5764607523034235]
  by (simp add: pow2_minus)

lemma round_steps: "round64 (40352252661239648 / 5764607523034235) = Fin (7881299347898369 / 1125899906842624)"
  using round64_eqI [of 2 "40352252661239648 / 5764607523034235" 7881299347898369]
  by (simp add: pow2_minus pow2_def)

lemma extra_bucket:
  "\<exists>out. Bucketize [] 0 35000000 5000000 = Some out \<and> length out = 8 \<and> bk_Start (out ! 7) = 35000000 \<and> bk_End (out ! 7) = 35000000"
proof -
  have s: "Seconds 35000000 = Fin (1261007895663739 / 36028797018963968)"
    using round_35ms round_35ms_again by (simp add: Seconds_def units_def f64_of_int_def quot_def plus_f64_def)
  have t: "Seconds 5000000 = Fin (5764607523034235 / 1152921504606846976)"
    using round_5ms round_5ms_again by (simp add: Seconds_def units_def f64_of_int_def quot_def plus_f64_def)
  have "\<lceil>7881299347898369 / 1125899906842624 :: rat\<rceil> = 8" by (rule ceiling_unique) simp_all
  then have "f64_ceil (f64_div (Seconds (time_sub 35000000 0)) (Seconds 5000000)) = Some 8"
    using round_steps by (simp add: s t time_sub_def max_i64_def min_i64_def)
  then show ?thesis
    by (simp add: Bucketize_def new_bucket_def finish_bucket_def Let_def wrap64_id max_i64_def min_i64_def)
qed

section \<open>Percentiles\<close>

lemma clamped:
  assumes "p \<noteq> NaN"
  obtains r where "(if Fin 1 < (if p < 0 then 0 else p) then Fin 1 else if p < 0 then 0 else p) = Fin r" "0 \<le> r" "r \<le> 1"
proof (cases p)
  case (Fin q)
  then show thesis
    using that [of "if q < 0 then 0 else if 1 < q then 1 else q"] by (auto simp: zero_f64_def split: if_splits)
next
  case PosInf
  then show thesis using that [of 1] by simp
next
  case NegInf
  then show thesis using that [of 0] by (simp add: zero_f64_def)
qed (use assms in \<open>simp\<close>)

text \<open>\<open>sort.Float64s\<close> has an order to sort by.\<close>

interpretation float_order: weak_order float_less
proof
  fix x y z
  show "\<not> float_less x x" by (cases x) (simp_all add: float_less_def)
  show "float_less x y \<Longrightarrow> float_less y z \<Longrightarrow> float_less x z"
    by (cases x; cases y; cases z) (auto simp: float_less_def is_nan_def)
  show "float_less x z \<Longrightarrow> float_less x y \<or> float_less y z"
    by (cases x; cases y; cases z) (auto simp: float_less_def is_nan_def)
qed

text \<open>C36. A percentile of some values is one of them, whatever rank that is a number is asked for: the
  index it calculates in floating point stays in range, and rank zero yields the least value.\<close>

theorem Percentile_in_range:
  assumes "values \<noteq> []" "length values < 2 ^ 53" "p \<noteq> NaN"
  shows "\<exists>v\<in>set values. Percentile values p = Some v \<and>
    (p \<le> 0 \<longrightarrow> NaN \<notin> set values \<longrightarrow> (\<forall>x\<in>set values. v \<le> x))"
proof -
  let ?o = "slice_stable float_less values" and ?n = "length values - 1"
  let ?p = "if Fin 1 < (if p < 0 then 0 else p) then Fin 1 else if p < 0 then 0 else p"
  obtain r where r: "?p = Fin r" "0 \<le> r" "r \<le> 1" using clamped [OF assms(3)] .
  have "round64 (of_nat ?n) = Fin (of_nat ?n)" by (rule round64_of_nat) (use assms(2) in \<open>simp\<close>)
  moreover have "int (length ?o) - 1 = int ?n" using assms(1) by (simp add: of_nat_diff Suc_leI)
  ultimately have n: "f64_of_int (int (length ?o) - 1) = Fin (of_nat ?n)"
    by (simp only: f64_of_int_def of_int_of_nat_eq)
  have "r * of_nat ?n \<le> of_nat ?n" "0 \<le> r * of_nat ?n"
    using r(2,3) mult_right_mono [of r 1 "of_nat ?n"] by simp_all
  moreover have "?n < 2 ^ 53" using assms(2) by (rule le_less_trans [rotated]) simp
  ultimately obtain x where x: "round64 (r * of_nat ?n) = Fin x" "0 \<le> x" "x \<le> of_nat ?n"
    using round64_le_nat by blast
  let ?i = "\<lfloor>x + 1 / 2\<rfloor>"
  have i: "0 \<le> ?i" "?i < int (length ?o)"
  proof -
    show "0 \<le> ?i" using x(2) by simp
    have "x + 1 / 2 < of_int (int ?n + 1)" using x(3) by simp
    then have "?i < int ?n + 1" by (simp only: floor_less_iff)
    moreover have "int ?n + 1 = int (length values)" using assms(1) by (cases "values") simp_all
    ultimately show "?i < int (length ?o)" by simp
  qed
  have out: "Percentile values p = Some (?o ! nat ?i)"
    using assms(1) i by (simp only: Percentile_def Let_def r(1) n f64_mul.simps x(1) f64_round.simps) (simp add: x(2))
  have mem: "?o ! nat ?i \<in> set values"
  proof -
    have "nat ?i < length ?o" using i by linarith
    then have "?o ! nat ?i \<in> set ?o" by (rule nth_mem)
    then show ?thesis by simp
  qed
  moreover have "?o ! nat ?i \<le> y" if "p \<le> 0" "NaN \<notin> set values" "y \<in> set values" for y
  proof -
    have "r = 0" using that(1) r by (cases p) (auto simp: zero_f64_def split: if_splits)
    then have "x = 0" using x(1) by simp
    obtain v vs where o: "?o = v # vs" using assms(1) by (cases ?o) (metis length_0_conv length_slice_stable)+
    with \<open>x = 0\<close> have "?o ! nat ?i = v" by simp
    moreover have "y \<in> set (v # vs)" using that(3) o by (metis set_slice_stable)
    then have "\<not> float_less y v"
      using float_order.sorted_slice_stable [of "values"] o float_order.lt_irrefl by auto
    moreover have "?o ! nat ?i \<noteq> NaN" "y \<noteq> NaN" using mem that(2,3) by metis+
    ultimately show ?thesis
      using f64_not_less [of y "?o ! nat ?i"] by (simp add: float_less_def is_nan_def)
  qed
  ultimately show ?thesis using out by blast
qed

theorem Percentile_in_range_witness:
  "\<exists>v. Percentile [Fin 3, Fin 1, Fin 2] 0 = Some v \<and> v \<le> Fin 1 \<and> v \<in> {Fin 3, Fin 1, Fin 2}"
  using Percentile_in_range [of "[Fin 3, Fin 1, Fin 2]" 0] by (auto simp: zero_f64_def)

end
