(* ===== verification/Http_Writer.thy ===== *)
theory Http_Writer
  imports Http_Core Analytics Auth_Service
begin

text \<open>
  \<^verbatim>\<open>internal/httpapi/middleware.go\<close> and the middleware and writers of \<^verbatim>\<open>server.go\<close>: the status
  writers stacked on a response, request ids, the recovery from panics, the access log, the limit on
  bodies and their strict decoding. A handler maps a request and a state (the world, the response and
  the log) to whether it panics and the state after it.
\<close>

section \<open>Responses\<close>

text \<open>A \<^verbatim>\<open>statusWriter\<close> on top of another writer.\<close>

record status_layer =
  sl_status :: nat
  sl_committed :: bool

text \<open>
  A response: the layers on it, the outermost first, the headers, the status once it is sent, the
  headers as they were then, and the body.
\<close>

record writer =
  wr_Layers :: "status_layer list"
  wr_Header :: header
  wr_Status :: "nat option"
  wr_Sent :: header
  wr_Body :: string

fun layers_header :: "nat \<Rightarrow> status_layer list \<Rightarrow> status_layer list \<times> bool" where
  "layers_header s [] = ([], True)"
| "layers_header s (l # ls) =
     (if sl_committed l then (l # ls, False)
      else case layers_header s ls of (ls', reached) \<Rightarrow> (\<lparr>sl_status = s, sl_committed = True\<rparr> # ls', reached))"

definition send_header :: "nat \<Rightarrow> writer \<Rightarrow> writer" where
  "send_header s w = (if wr_Status w = None then w\<lparr>wr_Status := Some s, wr_Sent := wr_Header w\<rparr> else w)"

definition WriteHeader :: "nat \<Rightarrow> writer \<Rightarrow> writer" where
  "WriteHeader s w = (case layers_header s (wr_Layers w) of (ls, reached) \<Rightarrow>
     let w' = w\<lparr>wr_Layers := ls\<rparr> in if reached then send_header s w' else w')"

definition commit_layer :: "status_layer \<Rightarrow> status_layer" where
  "commit_layer l = (if sl_committed l then l else \<lparr>sl_status = 200, sl_committed = True\<rparr>)"

definition Write_body :: "string \<Rightarrow> writer \<Rightarrow> writer" where
  "Write_body data w =
     (let w' = send_header 200 (w\<lparr>wr_Layers := map commit_layer (wr_Layers w)\<rparr>) in w'\<lparr>wr_Body := wr_Body w' @ data\<rparr>)"

definition set_header :: "string \<Rightarrow> string \<Rightarrow> writer \<Rightarrow> writer" where
  "set_header k v w = w\<lparr>wr_Header := header_set k v (wr_Header w)\<rparr>"

text \<open>\<^verbatim>\<open>http.Error\<close>.\<close>

definition http_error :: "nat \<Rightarrow> string \<Rightarrow> writer \<Rightarrow> writer" where
  "http_error status message w =
     Write_body (message @ [CHR 0x0A]) (WriteHeader status
       (set_header ''X-Content-Type-Options'' ''nosniff'' (set_header ''Content-Type'' ''text/plain; charset=utf-8'' w)))"

section \<open>Requests and handlers\<close>

text \<open>\<open>in_Limit\<close> is the limit of a \<^verbatim>\<open>MaxBytesReader\<close>, \<open>in_RequestID\<close> the value in the context.\<close>

record http_in =
  in_Method :: string
  in_Path :: "string list"
  in_PathID :: string
  in_Header :: header
  in_Query :: header
  in_Body :: string
  in_Limit :: "nat option"
  in_RequestID :: string

datatype log_entry = Access string "string list" nat string | Recovered

record 'w http_state =
  hs_World :: 'w
  hs_Writer :: writer
  hs_Log :: "log_entry list"

type_synonym 'w body = "'w http_state \<Rightarrow> bool \<times> 'w http_state"
type_synonym 'w handler = "http_in \<Rightarrow> 'w body"

text \<open>A call of a service may also panic, which is \<open>None\<close>.\<close>

type_synonym ('w, 'a) call = "'w \<Rightarrow> (err + 'a) option \<times> 'w"

definition calls :: "('w, 'a) action \<Rightarrow> ('w, 'a) call" where
  "calls m w = (case m w of (r, w') \<Rightarrow> (Some r, w'))"

definition answers :: "err + 'a \<Rightarrow> ('w, 'a) call" where
  "answers r w = (Some r, w)"

definition and_call :: "('w, 'a) call \<Rightarrow> ('a \<Rightarrow> ('w, 'b) call) \<Rightarrow> ('w, 'b) call" where
  "and_call m k w = (case m w of
     (None, w') \<Rightarrow> (None, w') | (Some (Inl e), w') \<Rightarrow> (Some (Inl e), w') | (Some (Inr x), w') \<Rightarrow> k x w')"

definition invoke :: "('w, 'a) call \<Rightarrow> (err + 'a \<Rightarrow> 'w body) \<Rightarrow> 'w body" where
  "invoke m k s = (case m (hs_World s) of
     (None, w') \<Rightarrow> (True, s\<lparr>hs_World := w'\<rparr>) | (Some r, w') \<Rightarrow> k r (s\<lparr>hs_World := w'\<rparr>))"

definition writes :: "(writer \<Rightarrow> writer) \<Rightarrow> 'w body" where
  "writes f s = (False, s\<lparr>hs_Writer := f (hs_Writer s)\<rparr>)"

section \<open>Answers\<close>

text \<open>What the handlers encode; \<open>encode\<close> is the JSON text of it, if it has one.\<close>

datatype payload =
    PStatus "(string \<times> string) list" | PError error_body | POnboarded household member | PMember member
  | PSession session member | PDevice device | PRows "telemetry list" | PPlan energy_plan
  | PAutomation automation | PRun automation_run

type_synonym encoder = "payload \<Rightarrow> string option"

definition writeJSON :: "encoder \<Rightarrow> nat \<Rightarrow> payload \<Rightarrow> writer \<Rightarrow> writer" where
  "writeJSON encode status p w =
     (let w = WriteHeader status (set_header ''Content-Type'' ''application/json'' w) in
      case encode p of None \<Rightarrow> w | Some t \<Rightarrow> Write_body (t @ [CHR 0x0A]) w)"

definition writeError :: "encoder \<Rightarrow> err \<Rightarrow> writer \<Rightarrow> writer" where
  "writeError encode e w =
     (let status = ErrorStatus (Some e);
          message = (if status < 500 then err_text e else ''internal server error'')
      in writeJSON encode status
        (PError \<lparr>eb_Code = ErrorCode (Some e), eb_Message = message, eb_RequestID = header_get ''X-Request-ID'' (wr_Header w)\<rparr>) w)"

section \<open>Middleware\<close>

text \<open>\<^verbatim>\<open>range\<close> over a string yields the runes; one below a space or equal to 0x7F is a byte of its own.\<close>

definition validateRequestID :: "string \<Rightarrow> err + unit" where
  "validateRequestID v =
     (if v = [] \<or> length v > 128 then Inl ErrInvalid
      else if list_ex (\<lambda>c. (of_char c :: nat) < 32 \<or> (of_char c :: nat) = 127) v then Inl ErrInvalid
      else Inr ())"

definition fresh_id :: "('w \<Rightarrow> string \<times> 'w) \<Rightarrow> (string \<Rightarrow> 'w body) \<Rightarrow> 'w body" where
  "fresh_id uuid k s = (case uuid (hs_World s) of (u, w') \<Rightarrow> k (''req-'' @ u) (s\<lparr>hs_World := w'\<rparr>))"

definition requestID :: "encoder \<Rightarrow> ('w \<Rightarrow> string \<times> 'w) \<Rightarrow> 'w handler \<Rightarrow> 'w handler" where
  "requestID encode uuid nxt r =
     (let given = trim_space (header_get ''X-Request-ID'' (in_Header r));
          with_id = (\<lambda>i. case validateRequestID i of
            Inl _ \<Rightarrow> fresh_id uuid (\<lambda>i. writes (\<lambda>w. writeError encode ErrInvalid (set_header ''X-Request-ID'' i w)))
          | Inr _ \<Rightarrow> (\<lambda>s. nxt (r\<lparr>in_RequestID := i\<rparr>) (s\<lparr>hs_Writer := set_header ''X-Request-ID'' i (hs_Writer s)\<rparr>)))
      in if given = [] then fresh_id uuid with_id else with_id given)"

text \<open>The handler writes to a new status writer, which is gone when it returns.\<close>

definition push_layer :: "writer \<Rightarrow> writer" where
  "push_layer w = w\<lparr>wr_Layers := \<lparr>sl_status = 200, sl_committed = False\<rparr> # wr_Layers w\<rparr>"

definition pop_layer :: "writer \<Rightarrow> writer" where
  "pop_layer w = w\<lparr>wr_Layers := tl (wr_Layers w)\<rparr>"

definition recoverer :: "encoder \<Rightarrow> bool \<Rightarrow> 'w handler \<Rightarrow> 'w handler" where
  "recoverer encode has_logger nxt r s =
     (case nxt r (s\<lparr>hs_Writer := push_layer (hs_Writer s)\<rparr>) of
        (False, s') \<Rightarrow> (False, s'\<lparr>hs_Writer := pop_layer (hs_Writer s')\<rparr>)
      | (True, s') \<Rightarrow>
          (let s2 = (if has_logger then s'\<lparr>hs_Log := hs_Log s' @ [Recovered]\<rparr> else s');
               w = (if sl_committed (hd (wr_Layers (hs_Writer s2))) then hs_Writer s2
                    else writeError encode (ErrorString ''internal server error'') (hs_Writer s2))
           in (False, s2\<lparr>hs_Writer := pop_layer w\<rparr>)))"

text \<open>The path and the request id are those of the request the middleware got.\<close>

definition accessLog :: "bool \<Rightarrow> 'w handler \<Rightarrow> 'w handler" where
  "accessLog has_logger nxt r s =
     (case nxt r (s\<lparr>hs_Writer := push_layer (hs_Writer s)\<rparr>) of
        (True, s') \<Rightarrow> (True, s'\<lparr>hs_Writer := pop_layer (hs_Writer s')\<rparr>)
      | (False, s') \<Rightarrow>
          (let status = sl_status (hd (wr_Layers (hs_Writer s')));
               log = (if has_logger then [Access (in_Method r) (in_Path r) status (in_RequestID r)] else [])
           in (False, s'\<lparr>hs_Writer := pop_layer (hs_Writer s'), hs_Log := hs_Log s' @ log\<rparr>)))"

definition contentTypeJSON :: "'w handler \<Rightarrow> 'w handler" where
  "contentTypeJSON nxt r s =
     nxt r (s\<lparr>hs_Writer := set_header ''Content-Type'' ''application/json'' (hs_Writer s)\<rparr>)"

definition limitBody :: "'w handler \<Rightarrow> nat \<Rightarrow> 'w handler" where
  "limitBody nxt bytes r = nxt (r\<lparr>in_Limit := Some bytes\<rparr>)"

section \<open>Bodies\<close>

text \<open>
  \<open>first_value\<close> decodes the first JSON value of a text into the target, rejecting unknown fields, and
  yields the rest of the text. The body ends with an error where the limit cuts it off.
\<close>

definition json_space :: "char \<Rightarrow> bool" where
  "json_space c \<longleftrightarrow> c \<in> {CHR '' '', CHR 0x09, CHR 0x0A, CHR 0x0D}"

definition decodeStrict :: "(string \<Rightarrow> ('a \<times> string) option) \<Rightarrow> http_in \<Rightarrow> err + 'a" where
  "decodeStrict first_value r =
     (let cut = (case in_Limit r of None \<Rightarrow> False | Some n \<Rightarrow> n < length (in_Body r));
          data = (case in_Limit r of None \<Rightarrow> in_Body r | Some n \<Rightarrow> take n (in_Body r))
      in case first_value data of
        None \<Rightarrow> Inl ErrInvalid
      | Some (x, rest) \<Rightarrow> if list_all json_space rest \<and> \<not> cut then Inr x else Inl ErrInvalid)"

section \<open>Laws of the response\<close>

text \<open>A response whose committed layers agree with what was sent.\<close>

definition writer_ok :: "writer \<Rightarrow> bool" where
  "writer_ok w \<longleftrightarrow> (\<forall>l\<in>set (wr_Layers w). sl_committed l = (wr_Status w \<noteq> None) \<and>
     (sl_committed l \<longrightarrow> wr_Status w = Some (sl_status l)))"

lemma layers_header_uncommitted:
  "\<forall>l\<in>set ls. \<not> sl_committed l \<Longrightarrow> layers_header s ls = (map (\<lambda>_. \<lparr>sl_status = s, sl_committed = True\<rparr>) ls, True)"
  by (induction ls) auto

lemma layers_header_committed:
  "\<forall>l\<in>set ls. sl_committed l \<Longrightarrow> ls \<noteq> [] \<Longrightarrow> layers_header s ls = (ls, False)"
  by (cases ls) auto

text \<open>The first status is the one that is sent, and later ones change nothing.\<close>

lemma WriteHeader_first:
  assumes "writer_ok w" "wr_Status w = None"
  shows "WriteHeader s w = w\<lparr>wr_Layers := map (\<lambda>_. \<lparr>sl_status = s, sl_committed = True\<rparr>) (wr_Layers w),
    wr_Status := Some s, wr_Sent := wr_Header w\<rparr>"
proof -
  have "\<forall>l\<in>set (wr_Layers w). \<not> sl_committed l" using assms by (simp add: writer_ok_def)
  from layers_header_uncommitted [OF this, of s] assms(2) show ?thesis
    by (simp add: WriteHeader_def send_header_def Let_def)
qed

lemma WriteHeader_again:
  assumes "writer_ok w" "wr_Status w \<noteq> None"
  shows "WriteHeader s w = w"
proof (cases "wr_Layers w")
  case Nil
  with assms(2) show ?thesis by (auto simp: WriteHeader_def send_header_def Let_def)
next
  case (Cons l ls)
  have "\<forall>l\<in>set (wr_Layers w). sl_committed l" using assms by (simp add: writer_ok_def)
  with Cons layers_header_committed [of "wr_Layers w" s] show ?thesis by (simp add: WriteHeader_def Let_def)
qed

lemma Write_body_sent:
  assumes "writer_ok w" "wr_Status w \<noteq> None"
  shows "Write_body data w = w\<lparr>wr_Body := wr_Body w @ data\<rparr>"
proof -
  have "map commit_layer (wr_Layers w) = wr_Layers w"
    using assms by (intro map_idI) (simp add: writer_ok_def commit_layer_def)
  with assms(2) show ?thesis by (auto simp: Write_body_def send_header_def Let_def)
qed

end
