(* ===== verification/Http_Server.thy ===== *)
theory Http_Server
  imports Http_Writer
begin

text \<open>
  \<^verbatim>\<open>internal/httpapi/server.go\<close>: the server and its services, authorization by bearer token, a handler
  for every endpoint, the routes and the handler of the whole server. The services are calls on the
  world; \<open>Http_Access\<close> gives the server on the repository.
\<close>

section \<open>The server\<close>

record 'w server =
  sv_HasHouseholds :: bool
  sv_HasAuth :: bool
  sv_HasScope :: bool
  sv_HasLogger :: bool
  sv_Onboard :: "string \<Rightarrow> string \<Rightarrow> int \<Rightarrow> string \<Rightarrow> string \<Rightarrow> ('w, household \<times> member) call"
  sv_AddMember :: "int \<Rightarrow> string \<Rightarrow> string \<Rightarrow> role \<Rightarrow> ('w, member) call"
  sv_Login :: "int \<Rightarrow> string \<Rightarrow> string \<Rightarrow> ('w, session \<times> member) call"
  sv_Authorize :: "string \<Rightarrow> role \<Rightarrow> ('w, member) call"
  sv_Logout :: "string \<Rightarrow> ('w, unit) call"
  sv_Enroll :: "int \<Rightarrow> string \<Rightarrow> device_kind \<Rightarrow> string \<Rightarrow> string list \<Rightarrow> ('w, device) call"
  sv_Pair :: "int \<Rightarrow> ('w, unit) call"
  sv_Enable :: "int \<Rightarrow> ('w, unit) call"
  sv_Disable :: "int \<Rightarrow> ('w, unit) call"
  sv_Record :: "telemetry \<Rightarrow> ('w, unit) call"
  sv_Window :: "int \<Rightarrow> time \<Rightarrow> time \<Rightarrow> ('w, telemetry list) call"
  sv_Draft :: "energy_plan \<Rightarrow> plan_device list \<Rightarrow> ('w, energy_plan) call"
  sv_Schedule :: "int \<Rightarrow> ('w, unit) call"
  sv_Start :: "int \<Rightarrow> ('w, unit) call"
  sv_Complete :: "int \<Rightarrow> ('w, unit) call"
  sv_Create :: "automation \<Rightarrow> automation_action list \<Rightarrow> ('w, automation) call"
  sv_Queue :: "int \<Rightarrow> string \<Rightarrow> ('w, automation_run) call"
  sv_Activate :: "int \<Rightarrow> ('w, unit) call"
  sv_Pause :: "int \<Rightarrow> ('w, unit) call"
  sv_DeviceHousehold :: "int \<Rightarrow> ('w, int) call"
  sv_PlanHousehold :: "int \<Rightarrow> ('w, int) call"
  sv_AutomationHousehold :: "int \<Rightarrow> ('w, int) call"
  sv_Readiness :: "('w, unit) call option"

section \<open>The bodies of requests\<close>

record household_in =
  hi_Name :: string
  hi_Timezone :: string
  hi_BudgetCents :: int
  hi_OwnerEmail :: string
  hi_OwnerPassword :: string

record member_in =
  mi_Email :: string
  mi_Password :: string
  mi_Role :: role

record login_in =
  li_Email :: string
  li_Password :: string

record enroll_in =
  ei_ExternalID :: string
  ei_Kind :: device_kind
  ei_Firmware :: string
  ei_Capabilities :: "string list"

record telemetry_in =
  ti_Sequence :: int
  ti_PowerWatts :: f64
  ti_TemperatureC :: "f64 option"
  ti_MeasuredAt :: time

record plan_in =
  pi_Name :: string
  pi_BudgetCents :: int
  pi_StartsAt :: time
  pi_EndsAt :: time
  pi_Devices :: "plan_device list"

record automation_in =
  ui_Name :: string
  ui_TriggerKind :: string
  ui_Actions :: "automation_action list"

text \<open>
  \<^verbatim>\<open>encoding/json\<close> for these types, as \<open>decodeStrict\<close> uses it, and for the answers; \<^verbatim>\<open>time.Parse\<close>;
  \<^verbatim>\<open>uuid.NewString\<close>. The body of a queued run is its \<^verbatim>\<open>IdempotencyKey\<close>.
\<close>

record 'w codecs =
  co_Household :: "string \<Rightarrow> (household_in \<times> string) option"
  co_Member :: "string \<Rightarrow> (member_in \<times> string) option"
  co_Login :: "string \<Rightarrow> (login_in \<times> string) option"
  co_Enroll :: "string \<Rightarrow> (enroll_in \<times> string) option"
  co_Telemetry :: "string \<Rightarrow> (telemetry_in \<times> string) option"
  co_Plan :: "string \<Rightarrow> (plan_in \<times> string) option"
  co_Automation :: "string \<Rightarrow> (automation_in \<times> string) option"
  co_Run :: "string \<Rightarrow> (string \<times> string) option"
  co_Encode :: encoder
  co_ParseTime :: "string \<Rightarrow> time option"
  co_UUID :: "'w \<Rightarrow> string \<times> 'w"

section \<open>Authorization\<close>

definition idParam :: "http_in \<Rightarrow> int option" where
  "idParam r = atoi (in_PathID r)"

definition bearerSession :: "http_in \<Rightarrow> err + string" where
  "bearerSession r =
     (case split_fields (header_get ''Authorization'' (in_Header r)) of
        [scheme, token] \<Rightarrow> if \<not> equal_fold scheme ''Bearer'' \<or> trim_space token = [] then Inl ErrForbidden else Inr token
      | _ \<Rightarrow> Inl ErrForbidden)"

definition authorize :: "'w server \<Rightarrow> http_in \<Rightarrow> role \<Rightarrow> ('w, member) call" where
  "authorize s r required =
     (if \<not> sv_HasAuth s then answers (Inl (ErrorString ''authentication service is not configured''))
      else case bearerSession r of Inl e \<Rightarrow> answers (Inl e) | Inr sessionID \<Rightarrow> sv_Authorize s sessionID required)"

definition authorizeHousehold :: "'w server \<Rightarrow> http_in \<Rightarrow> int \<Rightarrow> role \<Rightarrow> ('w, member) call" where
  "authorizeHousehold s r householdID required =
     and_call (authorize s r required) (\<lambda>m.
       if householdID \<le> 0 \<or> mem_HouseholdID m \<noteq> householdID then answers (Inl ErrForbidden) else answers (Inr m))"

definition authorizeResource :: "'w server \<Rightarrow> http_in \<Rightarrow> int \<Rightarrow> role \<Rightarrow> (int \<Rightarrow> ('w, int) call) \<Rightarrow> ('w, member) call" where
  "authorizeResource s r i required lookup =
     (if \<not> sv_HasScope s then answers (Inl (ErrorString ''resource authorization is not configured''))
      else and_call (authorize s r required) (\<lambda>m.
        and_call (lookup i) (\<lambda>householdID.
        if mem_HouseholdID m \<noteq> householdID then answers (Inl ErrForbidden) else answers (Inr m))))"

definition requireResource ::
    "'w server \<Rightarrow> 'w codecs \<Rightarrow> http_in \<Rightarrow> int \<Rightarrow> role \<Rightarrow> (int \<Rightarrow> ('w, int) call) \<Rightarrow> 'w body \<Rightarrow> 'w body" where
  "requireResource s c r i required lookup k =
     invoke (authorizeResource s r i required lookup) (\<lambda>x. case x of
       Inl e \<Rightarrow> writes (writeError (co_Encode c) (Wrapf ''authorize resource: '' e [])) | Inr _ \<Rightarrow> k)"

definition scoped :: "'w server \<Rightarrow> (int \<Rightarrow> ('w, int) call) \<Rightarrow> int \<Rightarrow> ('w, int) call" where
  "scoped s lookup i =
     (if \<not> sv_HasScope s then answers (Inl (ErrorString ''resource authorization is not configured'')) else lookup i)"

definition deviceHousehold :: "'w server \<Rightarrow> int \<Rightarrow> ('w, int) call" where
  "deviceHousehold s = scoped s (sv_DeviceHousehold s)"

definition planHousehold :: "'w server \<Rightarrow> int \<Rightarrow> ('w, int) call" where
  "planHousehold s = scoped s (sv_PlanHousehold s)"

definition automationHousehold :: "'w server \<Rightarrow> int \<Rightarrow> ('w, int) call" where
  "automationHousehold s = scoped s (sv_AutomationHousehold s)"

section \<open>Handlers\<close>

text \<open>The steps the handlers share: the id of the path, a guard, the body, and the answer to a call.\<close>

definition with_id :: "'w codecs \<Rightarrow> http_in \<Rightarrow> (int \<Rightarrow> 'w body) \<Rightarrow> 'w body" where
  "with_id c r k = (case idParam r of None \<Rightarrow> writes (writeError (co_Encode c) ErrInvalid) | Some i \<Rightarrow> k i)"

definition in_household :: "'w server \<Rightarrow> 'w codecs \<Rightarrow> http_in \<Rightarrow> int \<Rightarrow> role \<Rightarrow> 'w body \<Rightarrow> 'w body" where
  "in_household s c r i required k =
     invoke (authorizeHousehold s r i required) (\<lambda>x. case x of
       Inl e \<Rightarrow> writes (writeError (co_Encode c) e) | Inr _ \<Rightarrow> k)"

definition with_body :: "'w codecs \<Rightarrow> (string \<Rightarrow> ('a \<times> string) option) \<Rightarrow> http_in \<Rightarrow> ('a \<Rightarrow> 'w body) \<Rightarrow> 'w body" where
  "with_body c first_value r k =
     (case decodeStrict first_value r of Inl e \<Rightarrow> writes (writeError (co_Encode c) ErrInvalid) | Inr x \<Rightarrow> k x)"

definition answer_with :: "'w codecs \<Rightarrow> ('w, 'a) call \<Rightarrow> nat \<Rightarrow> ('a \<Rightarrow> payload) \<Rightarrow> 'w body" where
  "answer_with c m status f =
     invoke m (\<lambda>x. case x of
       Inl e \<Rightarrow> writes (writeError (co_Encode c) e) | Inr y \<Rightarrow> writes (writeJSON (co_Encode c) status (f y)))"

definition no_content :: "'w codecs \<Rightarrow> ('w, unit) call \<Rightarrow> 'w body" where
  "no_content c m =
     invoke m (\<lambda>x. case x of Inl e \<Rightarrow> writes (writeError (co_Encode c) e) | Inr _ \<Rightarrow> writes (WriteHeader 204))"

definition health_ep :: "'w codecs \<Rightarrow> 'w handler" where
  "health_ep c r = writes (writeJSON (co_Encode c) 200 (PStatus [(''status'', ''ok'')]))"

definition ready_ep :: "'w server \<Rightarrow> 'w codecs \<Rightarrow> 'w handler" where
  "ready_ep s c r =
     (case sv_Readiness s of
        None \<Rightarrow> writes (writeError (co_Encode c) (ErrorString ''readiness dependency is not configured''))
      | Some check \<Rightarrow> invoke check (\<lambda>x. case x of
          Inl e \<Rightarrow> writes (writeJSON (co_Encode c) 503
            (PStatus [(''status'', ''unavailable''), (''request_id'', in_RequestID r)]))
        | Inr _ \<Rightarrow> writes (writeJSON (co_Encode c) 200
            (PStatus [(''status'', ''ready''), (''request_id'', in_RequestID r)]))))"

definition createHousehold_ep :: "'w server \<Rightarrow> 'w codecs \<Rightarrow> 'w handler" where
  "createHousehold_ep s c r =
     with_body c (co_Household c) r (\<lambda>x.
     if \<not> sv_HasHouseholds s
     then writes (writeError (co_Encode c) (ErrorString ''household service is not configured''))
     else answer_with c (sv_Onboard s (hi_Name x) (hi_Timezone x) (hi_BudgetCents x) (hi_OwnerEmail x) (hi_OwnerPassword x))
       201 (\<lambda>(h, owner). POnboarded h owner))"

definition addMember_ep :: "'w server \<Rightarrow> 'w codecs \<Rightarrow> 'w handler" where
  "addMember_ep s c r =
     with_id c r (\<lambda>i. in_household s c r i RoleOwner
     (with_body c (co_Member c) r (\<lambda>x.
     answer_with c (sv_AddMember s i (mi_Email x) (mi_Password x) (mi_Role x)) 201 PMember)))"

definition login_ep :: "'w server \<Rightarrow> 'w codecs \<Rightarrow> 'w handler" where
  "login_ep s c r =
     with_id c r (\<lambda>i.
     with_body c (co_Login c) r (\<lambda>x.
     answer_with c (sv_Login s i (li_Email x) (li_Password x)) 200 (\<lambda>(se, m). PSession se m)))"

definition logout_ep :: "'w server \<Rightarrow> 'w codecs \<Rightarrow> 'w handler" where
  "logout_ep s c r =
     (case bearerSession r of
        Inl e \<Rightarrow> writes (writeError (co_Encode c) ErrForbidden)
      | Inr sessionID \<Rightarrow>
          if sessionID \<noteq> in_PathID r then writes (writeError (co_Encode c) ErrForbidden)
          else no_content c (sv_Logout s sessionID))"

definition enroll_ep :: "'w server \<Rightarrow> 'w codecs \<Rightarrow> 'w handler" where
  "enroll_ep s c r =
     with_id c r (\<lambda>i. in_household s c r i RoleOperator
     (with_body c (co_Enroll c) r (\<lambda>x.
     answer_with c (sv_Enroll s i (ei_ExternalID x) (ei_Kind x) (ei_Firmware x) (ei_Capabilities x)) 201 PDevice)))"

definition deviceTransition :: "'w server \<Rightarrow> 'w codecs \<Rightarrow> (int \<Rightarrow> ('w, unit) call) \<Rightarrow> 'w handler" where
  "deviceTransition s c f r =
     with_id c r (\<lambda>i. requireResource s c r i RoleOperator (deviceHousehold s) (no_content c (f i)))"

definition telemetry_ep :: "'w server \<Rightarrow> 'w codecs \<Rightarrow> 'w handler" where
  "telemetry_ep s c r =
     with_id c r (\<lambda>i. requireResource s c r i RoleOperator (deviceHousehold s)
     (with_body c (co_Telemetry c) r (\<lambda>x.
     no_content c (sv_Record s \<lparr>tel_ID = 0, tel_DeviceID = i, tel_Sequence = ti_Sequence x, tel_PowerWatts = ti_PowerWatts x,
       tel_TemperatureC = ti_TemperatureC x, tel_MeasuredAt = ti_MeasuredAt x, tel_ReceivedAt = 0\<rparr>))))"

definition query_get :: "string \<Rightarrow> http_in \<Rightarrow> string" where
  "query_get k r = (case in_Query r k of None \<Rightarrow> [] | Some v \<Rightarrow> v)"

definition window_ep :: "'w server \<Rightarrow> 'w codecs \<Rightarrow> 'w handler" where
  "window_ep s c r =
     with_id c r (\<lambda>i. requireResource s c r i RoleViewer (deviceHousehold s)
     (case (co_ParseTime c (query_get ''start'' r), co_ParseTime c (query_get ''end'' r)) of
        (Some start, Some stop) \<Rightarrow> answer_with c (sv_Window s i start stop) 200 PRows
      | _ \<Rightarrow> writes (writeError (co_Encode c) ErrInvalid)))"

text \<open>The state of a new plan or automation is empty in Go; the repository stores a draft whatever it is.\<close>

definition plan_ep :: "'w server \<Rightarrow> 'w codecs \<Rightarrow> 'w handler" where
  "plan_ep s c r =
     with_id c r (\<lambda>i. in_household s c r i RoleOperator
     (with_body c (co_Plan c) r (\<lambda>x.
     answer_with c (sv_Draft s \<lparr>plan_ID = 0, plan_HouseholdID = i, plan_Name = pi_Name x, plan_State = PlanDraft,
       plan_BudgetCents = pi_BudgetCents x, plan_StartsAt = pi_StartsAt x, plan_EndsAt = pi_EndsAt x,
       plan_CreatedAt = 0\<rparr> (pi_Devices x)) 201 PPlan)))"

definition planState :: "'w server \<Rightarrow> 'w codecs \<Rightarrow> (int \<Rightarrow> ('w, unit) call) \<Rightarrow> 'w handler" where
  "planState s c f r =
     with_id c r (\<lambda>i. requireResource s c r i RoleOperator (planHousehold s) (no_content c (f i)))"

definition automation_ep :: "'w server \<Rightarrow> 'w codecs \<Rightarrow> 'w handler" where
  "automation_ep s c r =
     with_id c r (\<lambda>i. in_household s c r i RoleOperator
     (with_body c (co_Automation c) r (\<lambda>x.
     answer_with c (sv_Create s \<lparr>aut_ID = 0, aut_HouseholdID = i, aut_Name = ui_Name x, aut_State = AutomationDraft,
       aut_TriggerKind = ui_TriggerKind x, aut_CreatedAt = 0\<rparr> (ui_Actions x)) 201 PAutomation)))"

definition run_ep :: "'w server \<Rightarrow> 'w codecs \<Rightarrow> 'w handler" where
  "run_ep s c r =
     with_id c r (\<lambda>i. requireResource s c r i RoleOperator (automationHousehold s)
     (with_body c (co_Run c) r (\<lambda>key.
     answer_with c (sv_Queue s i key) 202 PRun)))"

definition automationState :: "'w server \<Rightarrow> 'w codecs \<Rightarrow> (int \<Rightarrow> ('w, unit) call) \<Rightarrow> 'w handler" where
  "automationState s c transition r =
     with_id c r (\<lambda>i. requireResource s c r i RoleOperator (automationHousehold s) (no_content c (transition i)))"

section \<open>Routes\<close>

text \<open>
  The patterns of \<^verbatim>\<open>http.ServeMux\<close>: literal segments, and \<^verbatim>\<open>{id}\<close>, which matches one segment that
  is not empty. The path is the list of its unescaped segments; paths that are not in clean form, which
  the multiplexer redirects, are left out.
\<close>

datatype endpoint =
    Healthz | Readyz | CreateHouseholdEp | AddMemberEp | LoginEp | LogoutEp | EnrollEp | PairEp | EnableEp
  | DisableEp | TelemetryEp | WindowEp | PlanEp | ScheduleEp | StartEp | CompleteEp | AutomationEp
  | ActivateEp | PauseEp | RunEp

datatype segment = Lit string | Id

type_synonym route = "string \<times> segment list \<times> endpoint"

definition routes :: "route list" where
  "routes =
     [(''GET'', [Lit ''healthz''], Healthz),
      (''GET'', [Lit ''readyz''], Readyz),
      (''POST'', [Lit ''v1'', Lit ''households''], CreateHouseholdEp),
      (''POST'', [Lit ''v1'', Lit ''households'', Id, Lit ''members''], AddMemberEp),
      (''POST'', [Lit ''v1'', Lit ''households'', Id, Lit ''sessions''], LoginEp),
      (''DELETE'', [Lit ''v1'', Lit ''sessions'', Id], LogoutEp),
      (''POST'', [Lit ''v1'', Lit ''households'', Id, Lit ''devices''], EnrollEp),
      (''POST'', [Lit ''v1'', Lit ''devices'', Id, Lit ''pair''], PairEp),
      (''POST'', [Lit ''v1'', Lit ''devices'', Id, Lit ''enable''], EnableEp),
      (''POST'', [Lit ''v1'', Lit ''devices'', Id, Lit ''disable''], DisableEp),
      (''POST'', [Lit ''v1'', Lit ''devices'', Id, Lit ''telemetry''], TelemetryEp),
      (''GET'', [Lit ''v1'', Lit ''devices'', Id, Lit ''telemetry''], WindowEp),
      (''POST'', [Lit ''v1'', Lit ''households'', Id, Lit ''plans''], PlanEp),
      (''POST'', [Lit ''v1'', Lit ''plans'', Id, Lit ''schedule''], ScheduleEp),
      (''POST'', [Lit ''v1'', Lit ''plans'', Id, Lit ''start''], StartEp),
      (''POST'', [Lit ''v1'', Lit ''plans'', Id, Lit ''complete''], CompleteEp),
      (''POST'', [Lit ''v1'', Lit ''households'', Id, Lit ''automations''], AutomationEp),
      (''POST'', [Lit ''v1'', Lit ''automations'', Id, Lit ''activate''], ActivateEp),
      (''POST'', [Lit ''v1'', Lit ''automations'', Id, Lit ''pause''], PauseEp),
      (''POST'', [Lit ''v1'', Lit ''automations'', Id, Lit ''runs''], RunEp)]"

fun segment_matches :: "segment \<Rightarrow> string \<Rightarrow> bool" where
  "segment_matches (Lit l) s = (l = s)"
| "segment_matches Id s = (s \<noteq> [])"

definition path_matches :: "segment list \<Rightarrow> string list \<Rightarrow> bool" where
  "path_matches ps path = list_all2 segment_matches ps path"

text \<open>A pattern for GET also serves HEAD.\<close>

definition method_matches :: "string \<Rightarrow> string \<Rightarrow> bool" where
  "method_matches m meth \<longleftrightarrow> m = meth \<or> (m = ''GET'' \<and> meth = ''HEAD'')"

definition route_matches :: "string \<Rightarrow> string list \<Rightarrow> route \<Rightarrow> bool" where
  "route_matches meth path t = (case t of (m, ps, e) \<Rightarrow> method_matches m meth \<and> path_matches ps path)"

fun path_id :: "segment list \<Rightarrow> string list \<Rightarrow> string" where
  "path_id (Id # ps) (s # path) = s"
| "path_id (p # ps) (s # path) = path_id ps path"
| "path_id ps path = []"

text \<open>The methods allowed for a path, sorted, HEAD beside GET.\<close>

definition allowed_methods :: "string list \<Rightarrow> string list" where
  "allowed_methods path =
     filter (\<lambda>m. \<exists>t\<in>set routes. fst t = (if m = ''HEAD'' then ''GET'' else m) \<and> path_matches (fst (snd t)) path)
       [''DELETE'', ''GET'', ''HEAD'', ''POST'']"

fun comma_join :: "string list \<Rightarrow> string" where
  "comma_join [] = []"
| "comma_join [m] = m"
| "comma_join (m # ms) = m @ '', '' @ comma_join ms"

definition serve :: "'w server \<Rightarrow> 'w codecs \<Rightarrow> endpoint \<Rightarrow> 'w handler" where
  "serve s c e =
     (case e of
        Healthz \<Rightarrow> health_ep c
      | Readyz \<Rightarrow> ready_ep s c
      | CreateHouseholdEp \<Rightarrow> createHousehold_ep s c
      | AddMemberEp \<Rightarrow> addMember_ep s c
      | LoginEp \<Rightarrow> login_ep s c
      | LogoutEp \<Rightarrow> logout_ep s c
      | EnrollEp \<Rightarrow> enroll_ep s c
      | PairEp \<Rightarrow> deviceTransition s c (sv_Pair s)
      | EnableEp \<Rightarrow> deviceTransition s c (sv_Enable s)
      | DisableEp \<Rightarrow> deviceTransition s c (sv_Disable s)
      | TelemetryEp \<Rightarrow> telemetry_ep s c
      | WindowEp \<Rightarrow> window_ep s c
      | PlanEp \<Rightarrow> plan_ep s c
      | ScheduleEp \<Rightarrow> planState s c (sv_Schedule s)
      | StartEp \<Rightarrow> planState s c (sv_Start s)
      | CompleteEp \<Rightarrow> planState s c (sv_Complete s)
      | AutomationEp \<Rightarrow> automation_ep s c
      | ActivateEp \<Rightarrow> automationState s c (sv_Activate s)
      | PauseEp \<Rightarrow> automationState s c (sv_Pause s)
      | RunEp \<Rightarrow> run_ep s c)"

definition mux :: "'w server \<Rightarrow> 'w codecs \<Rightarrow> 'w handler" where
  "mux s c r =
     (case filter (route_matches (in_Method r) (in_Path r)) routes of
        (m, ps, e) # _ \<Rightarrow> serve s c e (r\<lparr>in_PathID := path_id ps (in_Path r)\<rparr>)
      | [] \<Rightarrow>
          (case allowed_methods (in_Path r) of
             [] \<Rightarrow> writes (http_error 404 ''404 page not found'')
           | ms \<Rightarrow> writes (\<lambda>w. http_error 405 ''Method Not Allowed'' (set_header ''Allow'' (comma_join ms) w))))"

definition Handler :: "'w server \<Rightarrow> 'w codecs \<Rightarrow> 'w handler" where
  "Handler s c =
     requestID (co_Encode c) (co_UUID c)
       (accessLog (sv_HasLogger s)
         (recoverer (co_Encode c) (sv_HasLogger s) (contentTypeJSON (limitBody (mux s c) (2 ^ 20)))))"

text \<open>No request matches two routes, so that their order does not matter.\<close>

lemma list_all2_literals:
  assumes "list_all2 segment_matches ps path" "list_all2 segment_matches qs path"
  shows "list_all2 (\<lambda>p q. case (p, q) of (Lit a, Lit b) \<Rightarrow> a = b | _ \<Rightarrow> True) ps qs"
  using assms
proof (induction ps path arbitrary: qs rule: list_all2_induct)
  case Nil
  then show ?case by simp
next
  case (Cons p ps s path)
  then show ?case by (cases qs) (auto split: segment.splits)
qed

lemma routes_unambiguous:
  assumes "t \<in> set routes" "u \<in> set routes" "route_matches meth path t" "route_matches meth path u"
  shows "t = u"
proof -
  let ?agree = "\<lambda>p q. case (p, q) of (Lit a, Lit b) \<Rightarrow> a = b | _ \<Rightarrow> True"
  have "list_all2 ?agree (fst (snd t)) (fst (snd u))"
    using assms(3,4) list_all2_literals by (auto simp: route_matches_def path_matches_def split: prod.splits)
  moreover have "fst t = fst u"
    using assms by (auto simp: route_matches_def method_matches_def routes_def split: prod.splits)
  moreover have "list_all (\<lambda>t. list_all (\<lambda>u. fst t = fst u \<longrightarrow> list_all2 ?agree (fst (snd t)) (fst (snd u)) \<longrightarrow> t = u) routes) routes"
    by code_simp
  ultimately show ?thesis using assms(1,2) by (simp add: list_all_iff)
qed

end
