(* ===== verification/Http_Laws.thy ===== *)
theory Http_Laws
  imports Http_Server
begin

text \<open>
  What holds of every response, whatever the services do, panics included: one status is sent, it is
  the one in the access log, and an internal error tells the client nothing but the request id.
\<close>

section \<open>Bodies that answer once\<close>

definition fresh :: "writer \<Rightarrow> bool" where
  "fresh w \<longleftrightarrow> writer_ok w \<and> wr_Status w = None \<and> wr_Body w = []"

text \<open>The only body an internal error has.\<close>

definition internal_text :: "encoder \<Rightarrow> string \<Rightarrow> string" where
  "internal_text encode rid =
     (case encode (PError \<lparr>eb_Code = ''internal_error'', eb_Message = ''internal server error'', eb_RequestID = rid\<rparr>) of
        None \<Rightarrow> [] | Some t \<Rightarrow> t @ [CHR 0x0A])"

definition settled :: "encoder \<Rightarrow> writer \<Rightarrow> bool" where
  "settled encode w \<longleftrightarrow> writer_ok w \<and> wr_Status w \<noteq> None \<and>
     (wr_Status w = Some 500 \<longrightarrow> wr_Body w = internal_text encode (header_get ''X-Request-ID'' (wr_Sent w)))"

definition same_frame :: "writer \<Rightarrow> writer \<Rightarrow> bool" where
  "same_frame w w' \<longleftrightarrow> length (wr_Layers w') = length (wr_Layers w) \<and>
     header_get ''X-Request-ID'' (wr_Header w') = header_get ''X-Request-ID'' (wr_Header w) \<and>
     (wr_Status w' \<noteq> None \<longrightarrow> header_get ''X-Request-ID'' (wr_Sent w') = header_get ''X-Request-ID'' (wr_Header w))"

text \<open>From a fresh response, a well-behaved body either panics and leaves it fresh, or settles it.\<close>

definition well_behaved :: "encoder \<Rightarrow> 'w body \<Rightarrow> bool" where
  "well_behaved encode b \<longleftrightarrow> (\<forall>s. fresh (hs_Writer s) \<longrightarrow> (case b s of (p, s') \<Rightarrow>
     hs_Log s' = hs_Log s \<and> same_frame (hs_Writer s) (hs_Writer s') \<and>
     (if p then fresh (hs_Writer s') else settled encode (hs_Writer s'))))"

lemma properI:
  assumes "\<And>s p s'. fresh (hs_Writer s) \<Longrightarrow> b s = (p, s') \<Longrightarrow> hs_Log s' = hs_Log s \<and> same_frame (hs_Writer s) (hs_Writer s') \<and>
    (if p then fresh (hs_Writer s') else settled encode (hs_Writer s'))"
  shows "well_behaved encode b"
  unfolding well_behaved_def
proof (intro allI impI)
  fix s :: "'a http_state"
  assume "fresh (hs_Writer s)"
  then show "case b s of (p, s') \<Rightarrow> hs_Log s' = hs_Log s \<and> same_frame (hs_Writer s) (hs_Writer s') \<and>
      (if p then fresh (hs_Writer s') else settled encode (hs_Writer s'))"
    using assms by (cases "b s") blast
qed

lemma properD:
  assumes "well_behaved encode b" "fresh (hs_Writer s)" "b s = (p, s')"
  shows "hs_Log s' = hs_Log s" "same_frame (hs_Writer s) (hs_Writer s')"
    "p \<Longrightarrow> fresh (hs_Writer s')" "\<not> p \<Longrightarrow> settled encode (hs_Writer s')"
  using assms by (auto simp: well_behaved_def)

section \<open>Writing\<close>

abbreviation committed :: "nat \<Rightarrow> writer \<Rightarrow> writer" where
  "committed status w \<equiv> w\<lparr>wr_Layers := map (\<lambda>_. \<lparr>sl_status = status, sl_committed = True\<rparr>) (wr_Layers w),
     wr_Status := Some status, wr_Sent := wr_Header w\<rparr>"

lemma fresh_set_header: "fresh (set_header k v w) = fresh w"
  by (simp add: fresh_def set_header_def writer_ok_def)

lemma committed_ok: "writer_ok (committed status w)"
  by (simp add: writer_ok_def)

lemma WriteHeader_fresh: "fresh w \<Longrightarrow> WriteHeader status w = committed status w"
  by (simp add: fresh_def WriteHeader_first)

lemma Write_after_header: "fresh w \<Longrightarrow> Write_body data (WriteHeader status w) = (committed status w)\<lparr>wr_Body := data\<rparr>"
  using Write_body_sent [OF committed_ok [where status = status and w = w], of data] by (simp add: WriteHeader_fresh fresh_def)

lemma request_id_header:
  assumes "canonical_key k \<noteq> ''X-Request-Id''"
  shows "header_get ''X-Request-ID'' (wr_Header (set_header k v w)) = header_get ''X-Request-ID'' (wr_Header w)"
  using assms by (simp add: set_header_def header_get_set)

lemma writeJSON_fresh:
  assumes "fresh w"
  shows "writeJSON encode status p w = (committed status (set_header ''Content-Type'' ''application/json'' w))
    \<lparr>wr_Body := (case encode p of None \<Rightarrow> [] | Some t \<Rightarrow> t @ [CHR 0x0A])\<rparr>"
proof (cases "encode p")
  case None
  moreover have "wr_Body w = []" using assms by (simp add: fresh_def)
  ultimately show ?thesis
    using assms by (simp add: writeJSON_def WriteHeader_fresh fresh_set_header Let_def) (simp add: set_header_def)
next
  case (Some t)
  then show ?thesis
    using Write_after_header [of "set_header ''Content-Type'' ''application/json'' w"] assms
    by (simp add: writeJSON_def fresh_set_header Let_def)
qed

lemma settled_committed:
  assumes "status = 500 \<Longrightarrow> data = internal_text encode (header_get ''X-Request-ID'' (wr_Header w))"
  shows "settled encode ((committed status w)\<lparr>wr_Body := data\<rparr>)"
  using assms by (simp add: settled_def writer_ok_def)

lemma writeJSON_settles:
  assumes "fresh w" "status = 500 \<Longrightarrow> p = PError \<lparr>eb_Code = ''internal_error'', eb_Message = ''internal server error'',
      eb_RequestID = header_get ''X-Request-ID'' (wr_Header w)\<rparr>"
  shows "settled encode (writeJSON encode status p w)" "same_frame w (writeJSON encode status p w)"
proof -
  let ?w = "set_header ''Content-Type'' ''application/json'' w"
  have id: "header_get ''X-Request-ID'' (wr_Header ?w) = header_get ''X-Request-ID'' (wr_Header w)"
    by (simp add: request_id_header)
  show "settled encode (writeJSON encode status p w)"
    unfolding writeJSON_fresh [OF assms(1)]
    by (rule settled_committed) (simp only: assms(2) id internal_text_def)
  show "same_frame w (writeJSON encode status p w)"
    unfolding writeJSON_fresh [OF assms(1)] using id by (simp add: same_frame_def) (simp add: set_header_def)
qed

lemma ErrorStatus_internal: "500 \<le> ErrorStatus (Some e) \<Longrightarrow> ErrorStatus (Some e) = 500 \<and> ErrorCode (Some e) = ''internal_error''"
  by (auto simp: ErrorStatus_def ErrorCode_def Let_def split: if_splits)

lemma writeError_settles:
  assumes "fresh w"
  shows "settled encode (writeError encode e w)" "same_frame w (writeError encode e w)"
  unfolding writeError_def Let_def
  by (rule writeJSON_settles [OF assms]; use ErrorStatus_internal [of e] in simp)+

lemma WriteHeader_settles:
  assumes "fresh w" "status \<noteq> 500"
  shows "settled encode (WriteHeader status w)" "same_frame w (WriteHeader status w)"
  using assms by (simp_all add: WriteHeader_fresh settled_def same_frame_def writer_ok_def)

lemma http_error_settles:
  assumes "fresh w" "status \<noteq> 500"
  shows "settled encode (http_error status message w)" "same_frame w (http_error status message w)"
proof -
  let ?w = "set_header ''X-Content-Type-Options'' ''nosniff'' (set_header ''Content-Type'' ''text/plain; charset=utf-8'' w)"
  have k: "canonical_key ''X-Content-Type-Options'' = ''X-Content-Type-Options''" by code_simp
  have e: "http_error status message w = (committed status ?w)\<lparr>wr_Body := message @ [CHR 0x0A]\<rparr>"
    unfolding http_error_def by (rule Write_after_header) (simp add: fresh_set_header assms(1))
  show "settled encode (http_error status message w)"
    unfolding e by (rule settled_committed) (use assms(2) in simp)
  have "header_get ''X-Request-ID'' (wr_Header ?w) = header_get ''X-Request-ID'' (wr_Header w)"
    by (simp add: request_id_header k)
  then show "same_frame w (http_error status message w)"
    unfolding e by (simp add: same_frame_def) (simp add: set_header_def)
qed

section \<open>The handlers are well-behaved\<close>

lemma well_behaved_writes:
  assumes "\<And>w. fresh w \<Longrightarrow> settled encode (f w) \<and> same_frame w (f w)"
  shows "well_behaved encode (writes f)"
  by (rule properI) (use assms in \<open>auto simp: writes_def\<close>)

lemma well_behaved_writeError: "well_behaved encode (writes (writeError encode e))"
  by (rule well_behaved_writes) (simp add: writeError_settles)

lemma well_behaved_writeJSON: "status \<noteq> 500 \<Longrightarrow> well_behaved encode (writes (writeJSON encode status p))"
  by (rule well_behaved_writes) (simp add: writeJSON_settles)

lemma well_behaved_WriteHeader: "status \<noteq> 500 \<Longrightarrow> well_behaved encode (writes (WriteHeader status))"
  by (rule well_behaved_writes) (simp add: WriteHeader_settles)

lemma well_behaved_http_error: "status \<noteq> 500 \<Longrightarrow> well_behaved encode (writes (http_error status message))"
  by (rule well_behaved_writes) (simp add: http_error_settles)

lemma same_frame_refl: "wr_Status w = None \<Longrightarrow> same_frame w w"
  by (simp add: same_frame_def)

lemma well_behaved_world: "well_behaved encode b \<Longrightarrow> fresh (hs_Writer s) \<Longrightarrow> b (s\<lparr>hs_World := v\<rparr>) = (p, s') \<Longrightarrow>
   hs_Log s' = hs_Log s \<and> same_frame (hs_Writer s) (hs_Writer s') \<and>
     (if p then fresh (hs_Writer s') else settled encode (hs_Writer s'))"
  using properD [of encode b "s\<lparr>hs_World := v\<rparr>" p s'] by simp

lemma well_behaved_invoke:
  assumes "\<And>x. well_behaved encode (k x)"
  shows "well_behaved encode (invoke m k)"
proof (rule properI)
  fix s p s'
  assume s: "fresh (hs_Writer s)" and run: "invoke m k s = (p, s')"
  obtain r v where m: "m (hs_World s) = (r, v)" by (cases "m (hs_World s)")
  show "hs_Log s' = hs_Log s \<and> same_frame (hs_Writer s) (hs_Writer s') \<and>
      (if p then fresh (hs_Writer s') else settled encode (hs_Writer s'))"
  proof (cases r)
    case None
    with run m s show ?thesis by (auto simp: invoke_def same_frame_refl fresh_def)
  next
    case (Some x)
    with run m have "k x (s\<lparr>hs_World := v\<rparr>) = (p, s')" by (simp add: invoke_def)
    then show ?thesis using well_behaved_world [OF assms s] by blast
  qed
qed

lemma well_behaved_if: "(c \<Longrightarrow> well_behaved encode b) \<Longrightarrow> (\<not> c \<Longrightarrow> well_behaved encode b') \<Longrightarrow> well_behaved encode (if c then b else b')"
  by simp

lemma well_behaved_case_sum:
  "(\<And>e. x = Inl e \<Longrightarrow> well_behaved encode (f e)) \<Longrightarrow> (\<And>y. x = Inr y \<Longrightarrow> well_behaved encode (g y)) \<Longrightarrow>
     well_behaved encode (case x of Inl e \<Rightarrow> f e | Inr y \<Rightarrow> g y)"
  by (cases x) simp_all

lemma well_behaved_case_option:
  "(x = None \<Longrightarrow> well_behaved encode b) \<Longrightarrow> (\<And>y. x = Some y \<Longrightarrow> well_behaved encode (f y)) \<Longrightarrow>
     well_behaved encode (case x of None \<Rightarrow> b | Some y \<Rightarrow> f y)"
  by (cases x) simp_all

lemmas well_behaved_steps = well_behaved_writeError well_behaved_writeJSON well_behaved_WriteHeader well_behaved_http_error well_behaved_invoke well_behaved_if
  well_behaved_case_sum well_behaved_case_option

lemma well_behaved_answer_with: "status \<noteq> 500 \<Longrightarrow> well_behaved (co_Encode c) (answer_with c m status f)"
  unfolding answer_with_def by (intro well_behaved_steps)

lemma well_behaved_no_content: "well_behaved (co_Encode c) (no_content c m)"
  unfolding no_content_def by (intro well_behaved_steps) simp

lemma well_behaved_with_id: "(\<And>i. well_behaved (co_Encode c) (k i)) \<Longrightarrow> well_behaved (co_Encode c) (with_id c r k)"
  unfolding with_id_def by (intro well_behaved_steps)

lemma well_behaved_with_body: "(\<And>x. well_behaved (co_Encode c) (k x)) \<Longrightarrow> well_behaved (co_Encode c) (with_body c d r k)"
  unfolding with_body_def by (intro well_behaved_steps)

lemma well_behaved_in_household: "well_behaved (co_Encode c) k \<Longrightarrow> well_behaved (co_Encode c) (in_household s c r i required k)"
  unfolding in_household_def by (intro well_behaved_steps)

lemma well_behaved_requireResource: "well_behaved (co_Encode c) k \<Longrightarrow> well_behaved (co_Encode c) (requireResource s c r i required lookup k)"
  unfolding requireResource_def by (intro well_behaved_steps)

lemmas well_behaved_handlers = well_behaved_answer_with well_behaved_no_content well_behaved_with_id well_behaved_with_body well_behaved_in_household
  well_behaved_requireResource

lemmas handler_defs = health_ep_def ready_ep_def createHousehold_ep_def addMember_ep_def login_ep_def logout_ep_def
  enroll_ep_def deviceTransition_def telemetry_ep_def plan_ep_def planState_def automation_ep_def run_ep_def automationState_def

lemma well_behaved_window: "well_behaved (co_Encode c) (window_ep s c r)"
  unfolding window_ep_def
  by (intro well_behaved_handlers) (auto split: option.split intro!: well_behaved_writeError well_behaved_answer_with)

lemma well_behaved_serve: "well_behaved (co_Encode c) (serve s c e r)"
  by (cases e) (simp_all add: serve_def handler_defs well_behaved_window, (intro well_behaved_handlers well_behaved_steps; simp)+)

lemma same_frame_trans:
  "same_frame w w' \<Longrightarrow> same_frame w' w'' \<Longrightarrow> same_frame w w''"
  by (auto simp: same_frame_def)

lemma well_behaved_mux: "well_behaved (co_Encode c) (mux s c r)"
proof -
  have allow: "well_behaved (co_Encode c) (writes (\<lambda>w. http_error 405 message (set_header ''Allow'' v w)))" for message v
  proof (rule well_behaved_writes)
    fix w
    assume "fresh w"
    then have f: "fresh (set_header ''Allow'' v w)" by (simp add: fresh_set_header)
    have "same_frame w (set_header ''Allow'' v w)"
    proof -
      have "canonical_key ''Allow'' = ''Allow''" by code_simp
      then have "header_get ''X-Request-ID'' (wr_Header (set_header ''Allow'' v w)) = header_get ''X-Request-ID'' (wr_Header w)"
        by (simp add: request_id_header)
      then show ?thesis using \<open>fresh w\<close> by (simp add: same_frame_def fresh_def) (simp add: set_header_def)
    qed
    from this http_error_settles(2) [OF f] have "same_frame w (http_error 405 message (set_header ''Allow'' v w))"
      by (rule same_frame_trans) simp
    then show "settled (co_Encode c) (http_error 405 message (set_header ''Allow'' v w)) \<and>
        same_frame w (http_error 405 message (set_header ''Allow'' v w))"
      using http_error_settles(1) [OF f] by simp
  qed
  show ?thesis
    unfolding mux_def by (auto split: list.split intro!: well_behaved_serve well_behaved_http_error allow)
qed

section \<open>The middleware\<close>

lemma fresh_push: "fresh w \<Longrightarrow> fresh (push_layer w)"
  by (simp add: fresh_def push_layer_def writer_ok_def)

lemma pop_settled: "settled encode w \<Longrightarrow> settled encode (pop_layer w)"
  by (cases "wr_Layers w") (auto simp: settled_def pop_layer_def writer_ok_def)

lemma pop_frame: "same_frame (push_layer w) w' \<Longrightarrow> same_frame w (pop_layer w')"
  by (simp add: same_frame_def push_layer_def pop_layer_def)

lemma header_body:
  assumes "well_behaved encode b" "canonical_key k \<noteq> ''X-Request-Id''"
  shows "well_behaved encode (\<lambda>s. b (s\<lparr>hs_Writer := set_header k v (hs_Writer s)\<rparr>))"
proof (rule properI)
  fix s p s'
  assume s: "fresh (hs_Writer s)" and run: "b (s\<lparr>hs_Writer := set_header k v (hs_Writer s)\<rparr>) = (p, s')"
  have f: "fresh (hs_Writer (s\<lparr>hs_Writer := set_header k v (hs_Writer s)\<rparr>))" using s by (simp add: fresh_set_header)
  have "same_frame (hs_Writer s) (set_header k v (hs_Writer s))"
    using s request_id_header [OF assms(2), of v "hs_Writer s"] by (simp add: same_frame_def fresh_def) (simp add: set_header_def)
  then show "hs_Log s' = hs_Log s \<and> same_frame (hs_Writer s) (hs_Writer s') \<and>
      (if p then fresh (hs_Writer s') else settled encode (hs_Writer s'))"
    using properD [OF assms(1) f run] same_frame_trans by auto
qed

lemma well_behaved_inner: "well_behaved (co_Encode c) (contentTypeJSON (limitBody (mux s c) n) r)"
proof -
  have "(contentTypeJSON (limitBody (mux s c) n) r) = (\<lambda>st. mux s c (r\<lparr>in_Limit := Some n\<rparr>)
      (st\<lparr>hs_Writer := set_header ''Content-Type'' ''application/json'' (hs_Writer st)\<rparr>))"
    by (simp add: fun_eq_iff contentTypeJSON_def limitBody_def)
  then show ?thesis by (simp add: header_body well_behaved_mux)
qed

text \<open>A panic ends at the recoverer, which answers for the handler.\<close>

lemma recoverer_settles:
  assumes "well_behaved encode (nxt r)" "fresh (hs_Writer s)" "recoverer encode lg nxt r s = (p, s')"
  shows "\<not> p \<and> settled encode (hs_Writer s') \<and> same_frame (hs_Writer s) (hs_Writer s') \<and>
    (\<exists>rec. set rec \<subseteq> {Recovered} \<and> hs_Log s' = hs_Log s @ rec)"
proof -
  let ?s = "s\<lparr>hs_Writer := push_layer (hs_Writer s)\<rparr>"
  obtain q s1 where run: "nxt r ?s = (q, s1)" by (cases "nxt r ?s")
  have f: "fresh (hs_Writer ?s)" using assms(2) by (simp add: fresh_push)
  note d = properD [OF assms(1) f run]
  show ?thesis
  proof (cases q)
    case False
    with assms(3) run have "\<not> p" "s' = s1\<lparr>hs_Writer := pop_layer (hs_Writer s1)\<rparr>" by (simp_all add: recoverer_def)
    with d False show ?thesis by (auto intro: pop_settled pop_frame exI [of _ "[]"])
  next
    case True
    with d have fresh1: "fresh (hs_Writer s1)" and frame: "same_frame (push_layer (hs_Writer s)) (hs_Writer s1)" by simp_all
    then have "wr_Layers (hs_Writer s1) \<noteq> []" by (auto simp: same_frame_def push_layer_def)
    then have "\<not> sl_committed (hd (wr_Layers (hs_Writer s1)))"
      using fresh1 by (cases "wr_Layers (hs_Writer s1)") (auto simp: fresh_def writer_ok_def)
    with assms(3) run True have p: "\<not> p"
        "hs_Writer s' = pop_layer (writeError encode (ErrorString ''internal server error'') (hs_Writer s1))"
        "\<exists>rec. set rec \<subseteq> {Recovered} \<and> hs_Log s' = hs_Log s1 @ rec"
      by (auto simp: recoverer_def Let_def intro: exI [of _ "[]"] exI [of _ "[Recovered]"])
    moreover have "same_frame (push_layer (hs_Writer s)) (writeError encode (ErrorString ''internal server error'') (hs_Writer s1))"
      using frame writeError_settles(2) [OF fresh1] by (rule same_frame_trans)
    ultimately show ?thesis using d(1) by (auto intro: pop_settled pop_frame writeError_settles(1) [OF fresh1])
  qed
qed

text \<open>The access log has the status that was sent.\<close>

lemma accessLog_settles:
  assumes next_ok: "\<And>s p s'. fresh (hs_Writer s) \<Longrightarrow> nxt r s = (p, s') \<Longrightarrow> \<not> p \<and> settled encode (hs_Writer s') \<and>
      same_frame (hs_Writer s) (hs_Writer s') \<and> (\<exists>rec. set rec \<subseteq> {Recovered} \<and> hs_Log s' = hs_Log s @ rec)"
    and "fresh (hs_Writer s)" "accessLog lg nxt r s = (p, s')"
  shows "\<not> p \<and> settled encode (hs_Writer s') \<and> same_frame (hs_Writer s) (hs_Writer s') \<and>
    (\<exists>rec. set rec \<subseteq> {Recovered} \<and> hs_Log s' = hs_Log s @ rec @
       (if lg then [Access (in_Method r) (in_Path r) (the (wr_Status (hs_Writer s'))) (in_RequestID r)] else []))"
proof -
  let ?s = "s\<lparr>hs_Writer := push_layer (hs_Writer s)\<rparr>"
  obtain q s1 where run: "nxt r ?s = (q, s1)" by (cases "nxt r ?s")
  have "fresh (hs_Writer ?s)" using assms(2) by (simp add: fresh_push)
  from next_ok [OF this run] obtain rec where q: "\<not> q" and sent: "settled encode (hs_Writer s1)"
      and frame: "same_frame (push_layer (hs_Writer s)) (hs_Writer s1)"
      and log: "set rec \<subseteq> {Recovered}" "hs_Log s1 = hs_Log s @ rec" by auto
  let ?l = "hd (wr_Layers (hs_Writer s1))"
  have "wr_Layers (hs_Writer s1) \<noteq> []" using frame by (auto simp: same_frame_def push_layer_def)
  then have "?l \<in> set (wr_Layers (hs_Writer s1))" by simp
  then have "wr_Status (hs_Writer s1) = Some (sl_status ?l)" using sent by (auto simp: settled_def writer_ok_def)
  with q run log assms(3) have "\<not> p" "hs_Writer s' = pop_layer (hs_Writer s1)"
      "hs_Log s' = hs_Log s @ rec @
         (if lg then [Access (in_Method r) (in_Path r) (the (wr_Status (hs_Writer s'))) (in_RequestID r)] else [])"
    by (auto simp: accessLog_def Let_def pop_layer_def)
  with log(1) sent frame show ?thesis by (auto intro: pop_settled pop_frame)
qed

section \<open>Every request is answered once\<close>

abbreviation blank :: "writer \<Rightarrow> bool" where
  "blank w \<equiv> wr_Layers w = [] \<and> wr_Status w = None \<and> wr_Body w = []"

text \<open>The request id of a response: the client's if it gave a valid one.\<close>

definition given_id :: "http_in \<Rightarrow> string" where
  "given_id r = trim_space (header_get ''X-Request-ID'' (in_Header r))"

lemma header_get_own: "header_get k (wr_Header (set_header k v w)) = v"
  by (simp add: set_header_def header_get_set)

lemma requestID_cases:
  assumes "requestID encode uuid nxt r s = (p, s')"
  obtains (pass) i v where "validateRequestID i = Inr ()" "i = given_id r \<or> given_id r = [] \<and> (\<exists>w. i = ''req-'' @ fst (uuid w))"
      "nxt (r\<lparr>in_RequestID := i\<rparr>) (s\<lparr>hs_World := v, hs_Writer := set_header ''X-Request-ID'' i (hs_Writer s)\<rparr>) = (p, s')"
      "v \<in> {hs_World s, snd (uuid (hs_World s)), snd (uuid (snd (uuid (hs_World s))))}"
  | (refuse) u v where "given_id r = [] \<or> validateRequestID (given_id r) \<noteq> Inr ()" "\<not> p"
      "s' = s\<lparr>hs_World := v, hs_Writer := writeError encode ErrInvalid (set_header ''X-Request-ID'' (''req-'' @ fst (uuid u)) (hs_Writer s))\<rparr>"
      "given_id r = [] \<Longrightarrow> \<exists>w. validateRequestID (''req-'' @ fst (uuid w)) \<noteq> Inr ()"
      "v \<in> {hs_World s, snd (uuid (hs_World s)), snd (uuid (snd (uuid (hs_World s))))}"
proof -
  let ?with = "\<lambda>i. case validateRequestID i of
      Inl _ \<Rightarrow> fresh_id uuid (\<lambda>i. writes (\<lambda>w. writeError encode ErrInvalid (set_header ''X-Request-ID'' i w)))
    | Inr _ \<Rightarrow> (\<lambda>s. nxt (r\<lparr>in_RequestID := i\<rparr>) (s\<lparr>hs_Writer := set_header ''X-Request-ID'' i (hs_Writer s)\<rparr>))"
  have run: "(if given_id r = [] then fresh_id uuid ?with else ?with (given_id r)) s = (p, s')"
    using assms unfolding requestID_def given_id_def Let_def .
  show thesis
  proof (cases "given_id r = []")
    case True
    obtain u v where u: "uuid (hs_World s) = (u, v)" by (cases "uuid (hs_World s)")
    show thesis
    proof (cases "validateRequestID (''req-'' @ u)")
      case (Inl e)
      obtain u2 v2 where u2: "uuid v = (u2, v2)" by (cases "uuid v")
      have "\<exists>w. validateRequestID (''req-'' @ fst (uuid w)) \<noteq> Inr ()" using u Inl by (intro exI [of _ "hs_World s"]) simp
      then show thesis
        using run True u Inl u2 by (intro refuse [of v v2]) (auto simp: fresh_id_def writes_def)
    next
      case (Inr x)
      have "\<exists>w. ''req-'' @ u = ''req-'' @ fst (uuid w)" using u by (intro exI [of _ "hs_World s"]) simp
      with run True u Inr show thesis by (intro pass [of "''req-'' @ u" v]) (auto simp: fresh_id_def)
    qed
  next
    case False
    show thesis
    proof (cases "validateRequestID (given_id r)")
      case (Inl e)
      obtain u v where "uuid (hs_World s) = (u, v)" by (cases "uuid (hs_World s)")
      with run False Inl show thesis by (intro refuse [of "hs_World s" v]) (auto simp: fresh_id_def writes_def)
    next
      case (Inr x)
      with run False show thesis by (intro pass [of "given_id r" "hs_World s"]) auto
    qed
  qed
qed

text \<open>C8. Whatever the services do, panics included, the server answers a request with exactly one status, which
  is the status in the access log, and with a valid request id, the client's own if it gave a valid one;
  an internal error shows the client nothing but that id.\<close>

theorem every_request_answered:
  assumes "Handler srv c r s = (p, s')" "blank (hs_Writer s)"
    and "\<And>w. validateRequestID (''req-'' @ fst (co_UUID c w)) = Inr ()"
  shows "\<not> p \<and> (\<exists>code rid. wr_Status (hs_Writer s') = Some code \<and>
    header_get ''X-Request-ID'' (wr_Sent (hs_Writer s')) = rid \<and> validateRequestID rid = Inr () \<and>
    (code = 500 \<longrightarrow> wr_Body (hs_Writer s') = internal_text (co_Encode c) rid) \<and>
    (if given_id r \<noteq> [] \<and> validateRequestID (given_id r) \<noteq> Inr () then code = 400 \<and> hs_Log s' = hs_Log s
     else (given_id r \<noteq> [] \<longrightarrow> rid = given_id r) \<and> (\<exists>rec. set rec \<subseteq> {Recovered} \<and> hs_Log s' = hs_Log s @ rec @
       (if sv_HasLogger srv then [Access (in_Method r) (in_Path r) code rid] else []))))"
proof -
  have f: "fresh (hs_Writer s)" using assms(2) by (simp add: fresh_def writer_ok_def)
  from assms(1)[unfolded Handler_def] show ?thesis
  proof (cases rule: requestID_cases)
    case (pass i v)
    let ?s = "s\<lparr>hs_World := v, hs_Writer := set_header ''X-Request-ID'' i (hs_Writer s)\<rparr>"
    have fi: "fresh (hs_Writer ?s)" using f by (simp add: fresh_set_header)
    let ?inner = "recoverer (co_Encode c) (sv_HasLogger srv) (contentTypeJSON (limitBody (mux srv c) (2 ^ 20)))"
    have inner: "\<not> q \<and> settled (co_Encode c) (hs_Writer t') \<and> same_frame (hs_Writer t) (hs_Writer t') \<and>
        (\<exists>rec. set rec \<subseteq> {Recovered} \<and> hs_Log t' = hs_Log t @ rec)"
      if "fresh (hs_Writer t)" "?inner (r\<lparr>in_RequestID := i\<rparr>) t = (q, t')" for t q t'
      using recoverer_settles [OF well_behaved_inner that] .
    note d = accessLog_settles [of ?inner "r\<lparr>in_RequestID := i\<rparr>", OF inner fi pass(3)]
    from d have sent: "settled (co_Encode c) (hs_Writer s')" and frame: "same_frame (hs_Writer ?s) (hs_Writer s')" by blast+
    then obtain code where code: "wr_Status (hs_Writer s') = Some code" by (auto simp: settled_def)
    with frame have rid: "header_get ''X-Request-ID'' (wr_Sent (hs_Writer s')) = i"
      by (simp add: same_frame_def header_get_own)
    have "code = 500 \<longrightarrow> wr_Body (hs_Writer s') = internal_text (co_Encode c) i"
      using sent code rid by (auto simp: settled_def)
    with d pass(1,2) code rid show ?thesis by (auto simp: validateRequestID_def)
  next
    case (refuse u v)
    let ?w = "set_header ''X-Request-ID'' (''req-'' @ fst (co_UUID c u)) (hs_Writer s)"
    have fw: "fresh ?w" using f by (simp add: fresh_set_header)
    have code: "wr_Status (writeError (co_Encode c) ErrInvalid ?w) = Some 400"
      unfolding writeError_def Let_def writeJSON_fresh [OF fw] by simp
    have rid: "header_get ''X-Request-ID'' (wr_Sent (writeError (co_Encode c) ErrInvalid ?w)) = ''req-'' @ fst (co_UUID c u)"
      using writeError_settles(2) [OF fw, of "co_Encode c" ErrInvalid] code by (simp add: same_frame_def header_get_own)
    from refuse(1,4) assms(3) have "given_id r \<noteq> [] \<and> validateRequestID (given_id r) \<noteq> Inr ()" by auto
    with refuse(2,3) code rid assms(3) show ?thesis by auto
  qed
qed

text \<open>A server all of whose services panic.\<close>

definition panics :: "(unit, 'a) call" where
  "panics w = (None, w)"

definition broken_server :: "unit server" where
  "broken_server =
     \<lparr>sv_HasHouseholds = True, sv_HasAuth = True, sv_HasScope = True, sv_HasLogger = True,
      sv_Onboard = (\<lambda>_ _ _ _ _. panics), sv_AddMember = (\<lambda>_ _ _ _. panics),
      sv_Login = (\<lambda>_ _ _. panics), sv_Authorize = (\<lambda>_ _. panics), sv_Logout = (\<lambda>_. panics),
      sv_Enroll = (\<lambda>_ _ _ _ _. panics), sv_Pair = (\<lambda>_. panics), sv_Enable = (\<lambda>_. panics),
      sv_Disable = (\<lambda>_. panics), sv_Record = (\<lambda>_. panics), sv_Window = (\<lambda>_ _ _. panics),
      sv_Draft = (\<lambda>_ _. panics), sv_Schedule = (\<lambda>_. panics), sv_Start = (\<lambda>_. panics),
      sv_Complete = (\<lambda>_. panics), sv_Create = (\<lambda>_ _. panics), sv_Queue = (\<lambda>_ _. panics),
      sv_Activate = (\<lambda>_. panics), sv_Pause = (\<lambda>_. panics), sv_DeviceHousehold = (\<lambda>_. panics),
      sv_PlanHousehold = (\<lambda>_. panics), sv_AutomationHousehold = (\<lambda>_. panics),
      sv_Readiness = None\<rparr>"

definition plain_codecs :: "'w codecs" where
  "plain_codecs = \<lparr>co_Household = (\<lambda>_. None), co_Member = (\<lambda>_. None), co_Login = (\<lambda>_. None), co_Enroll = (\<lambda>_. None),
     co_Telemetry = (\<lambda>_. None), co_Plan = (\<lambda>_. None), co_Automation = (\<lambda>_. None), co_Run = (\<lambda>s. Some (s, [])),
     co_Encode = (\<lambda>p. case p of PError b \<Rightarrow> Some (eb_Message b) | _ \<Rightarrow> Some ''{}''), co_ParseTime = (\<lambda>_. None),
     co_UUID = (\<lambda>w. (''uuid'', w))\<rparr>"

definition sample_request :: "string \<Rightarrow> string list \<Rightarrow> header \<Rightarrow> http_in" where
  "sample_request meth path h = \<lparr>in_Method = meth, in_Path = path, in_PathID = [], in_Header = h, in_Query = Map.empty,
     in_Body = [], in_Limit = None, in_RequestID = []\<rparr>"

definition start_state :: "'w \<Rightarrow> 'w http_state" where
  "start_state w = \<lparr>hs_World = w, hs_Writer = \<lparr>wr_Layers = [], wr_Header = Map.empty, wr_Status = None, wr_Sent = Map.empty,
     wr_Body = []\<rparr>, hs_Log = []\<rparr>"

theorem every_request_answered_witness:
  "case Handler broken_server plain_codecs (sample_request ''POST'' [''v1'', ''devices'', ''1'', ''pair''] [''X-Request-Id'' \<mapsto> ''abc''])
      (start_state ()) of
     (p, s') \<Rightarrow> \<not> p \<and> wr_Status (hs_Writer s') \<noteq> None \<and> header_get ''X-Request-ID'' (wr_Sent (hs_Writer s')) = ''abc'' \<and>
       length (hs_Log s') > 0"
proof -
  let ?r = "sample_request ''POST'' [''v1'', ''devices'', ''1'', ''pair''] [''X-Request-Id'' \<mapsto> ''abc'']"
  obtain p s' where run: "Handler broken_server plain_codecs ?r (start_state ()) = (p, s')"
    by (cases "Handler broken_server plain_codecs ?r (start_state ())")
  have "trim_space ''abc'' = ''abc''" by code_simp
  then have given: "given_id ?r = ''abc''" by (simp add: given_id_def sample_request_def header_get_def)
  have valid: "validateRequestID ''abc'' = Inr ()" "validateRequestID ''req-uuid'' = Inr ()" by code_simp+
  have "blank (hs_Writer (start_state ()))" by (simp add: start_state_def)
  moreover have "validateRequestID (''req-'' @ fst (co_UUID plain_codecs (w :: unit))) = Inr ()" for w
    using valid(2) by (simp add: plain_codecs_def)
  moreover have "sv_HasLogger broken_server" by (simp add: broken_server_def)
  ultimately have "\<not> p \<and> wr_Status (hs_Writer s') \<noteq> None \<and> header_get ''X-Request-ID'' (wr_Sent (hs_Writer s')) = ''abc'' \<and>
      length (hs_Log s') > 0"
    using every_request_answered [OF run] given valid(1) by auto
  with run show ?thesis by simp
qed

end
