(* ===== verification/Http_Access.thy ===== *)
theory Http_Access
  imports Http_Laws
begin

text \<open>
  The server on the repository, as \<^verbatim>\<open>cmd/server/main.go\<close> wires it, and access control from the
  request to the tables: what a request needs before it changes the database or is answered with a
  success.
\<close>

section \<open>The server on the repository\<close>

definition session_ttl :: duration where
  "session_ttl = 12 * hour"

text \<open>The arguments are those of the services: lower-casing, the zone database, cryptography and the clock.\<close>

definition repo_server ::
    "env \<Rightarrow> (string \<Rightarrow> string) \<Rightarrow> (string \<Rightarrow> bool) \<Rightarrow> world crypto \<Rightarrow> (world \<Rightarrow> time) \<Rightarrow> (world, unit) action \<Rightarrow> world server" where
  "repo_server env u zone cr t readiness =
     (let auth = repo_auth (env_uuid env); clock = wall_clock t; plans = repo_plans (env_pg env) in
      \<lparr>sv_HasHouseholds = True, sv_HasAuth = True, sv_HasScope = True, sv_HasLogger = True,
       sv_Onboard = (\<lambda>name tz budget email pw. calls (Onboard u zone cr repo_households name tz budget email pw)),
       sv_AddMember = (\<lambda>h email pw rl. calls (Add_member u cr repo_households h email pw rl)),
       sv_Login = (\<lambda>h email pw. calls (Login u cr auth clock session_ttl h email pw)),
       sv_Authorize = (\<lambda>tok required. calls (Authorize auth clock tok required)),
       sv_Logout = (\<lambda>tok. calls (Logout auth clock tok)),
       sv_Enroll = (\<lambda>h external kind firmware caps. calls (Enroll u repo_devices h external kind firmware caps)),
       sv_Pair = (\<lambda>i. calls (Pair_device repo_devices i)),
       sv_Enable = (\<lambda>i. calls (Enable repo_devices i)),
       sv_Disable = (\<lambda>i. calls (Disable repo_devices i)),
       sv_Record = (\<lambda>x. calls (Record_telemetry (InsertTelemetry (env_pg env)) clock x)),
       sv_Window = (\<lambda>i start stop. calls (Window TelemetryWindow i start stop)),
       sv_Draft = (\<lambda>p devices. calls (Draft plans clock p devices)),
       sv_Schedule = (\<lambda>i. calls (Schedule_plan plans clock i)),
       sv_Start = (\<lambda>i. calls (Start_plan plans clock i)),
       sv_Complete = (\<lambda>i. calls (Complete_plan plans i)),
       sv_Create = (\<lambda>a actions. calls (Create_automation repo_automations a actions)),
       sv_Queue = (\<lambda>i key. calls (Queue repo_automations i key)),
       sv_Activate = (\<lambda>i. calls (Activate repo_automations i)),
       sv_Pause = (\<lambda>i. calls (Pause repo_automations i)),
       sv_DeviceHousehold = (\<lambda>i. calls (DeviceHousehold i)),
       sv_PlanHousehold = (\<lambda>i. calls (PlanHousehold i)),
       sv_AutomationHousehold = (\<lambda>i. calls (AutomationHousehold i)),
       sv_Readiness = Some (calls readiness)\<rparr>)"

section \<open>Guards\<close>

text \<open>What an endpoint asks of a request.\<close>

datatype guard = Open | OwnSession | OfHousehold role | OfDevice role | OfPlan role | OfAutomation role

definition guard_of :: "endpoint \<Rightarrow> guard" where
  "guard_of e =
     (case e of
        Healthz \<Rightarrow> Open | Readyz \<Rightarrow> Open | CreateHouseholdEp \<Rightarrow> Open | LoginEp \<Rightarrow> Open
      | LogoutEp \<Rightarrow> OwnSession
      | AddMemberEp \<Rightarrow> OfHousehold RoleOwner
      | EnrollEp \<Rightarrow> OfHousehold RoleOperator | PlanEp \<Rightarrow> OfHousehold RoleOperator
      | AutomationEp \<Rightarrow> OfHousehold RoleOperator
      | PairEp \<Rightarrow> OfDevice RoleOperator | EnableEp \<Rightarrow> OfDevice RoleOperator | DisableEp \<Rightarrow> OfDevice RoleOperator
      | TelemetryEp \<Rightarrow> OfDevice RoleOperator
      | WindowEp \<Rightarrow> OfDevice RoleViewer
      | ScheduleEp \<Rightarrow> OfPlan RoleOperator | StartEp \<Rightarrow> OfPlan RoleOperator | CompleteEp \<Rightarrow> OfPlan RoleOperator
      | ActivateEp \<Rightarrow> OfAutomation RoleOperator | PauseEp \<Rightarrow> OfAutomation RoleOperator | RunEp \<Rightarrow> OfAutomation RoleOperator)"

definition owner_admitted :: "(string \<Rightarrow> role \<Rightarrow> member \<Rightarrow> bool) \<Rightarrow> http_in \<Rightarrow> role \<Rightarrow> (int \<Rightarrow> int \<Rightarrow> bool) \<Rightarrow> bool" where
  "owner_admitted admits r required own \<longleftrightarrow> (\<exists>i tok m. idParam r = Some i \<and> bearerSession r = Inr tok \<and>
     admits tok required m \<and> own i (mem_HouseholdID m))"

definition granted ::
    "(string \<Rightarrow> role \<Rightarrow> member \<Rightarrow> bool) \<Rightarrow> (int \<Rightarrow> int \<Rightarrow> bool) \<Rightarrow> (int \<Rightarrow> int \<Rightarrow> bool) \<Rightarrow> (int \<Rightarrow> int \<Rightarrow> bool)
       \<Rightarrow> endpoint \<Rightarrow> http_in \<Rightarrow> bool" where
  "granted admits device_of plan_of automation_of e r \<longleftrightarrow>
     (case guard_of e of
        Open \<Rightarrow> True
      | OwnSession \<Rightarrow> bearerSession r = Inr (in_PathID r)
      | OfHousehold rl \<Rightarrow> owner_admitted admits r rl (\<lambda>i h. 0 < i \<and> i = h)
      | OfDevice rl \<Rightarrow> owner_admitted admits r rl device_of
      | OfPlan rl \<Rightarrow> owner_admitted admits r rl plan_of
      | OfAutomation rl \<Rightarrow> owner_admitted admits r rl automation_of)"

text \<open>The endpoint a request is routed to, with the id of its path.\<close>

definition endpoint_of :: "http_in \<Rightarrow> (endpoint \<times> string) option" where
  "endpoint_of r =
     (case filter (route_matches (in_Method r) (in_Path r)) routes of
        [] \<Rightarrow> None | (m, ps, e) # _ \<Rightarrow> Some (e, path_id ps (in_Path r)))"

text \<open>
  The interface of access control: authorization and the lookup of a resource's household do not change
  the protected view of the world, and what they return is so in that view.
\<close>

locale access_control =
  fixes s :: "'w server"
    and view :: "'w \<Rightarrow> 'v"
    and admits :: "'v \<Rightarrow> string \<Rightarrow> role \<Rightarrow> member \<Rightarrow> bool"
    and device_of plan_of automation_of :: "'v \<Rightarrow> int \<Rightarrow> int \<Rightarrow> bool"
  assumes authorize_law: "sv_Authorize s tok required w = (x, w') \<Longrightarrow>
      view w' = view w \<and> (\<forall>m. x = Some (Inr m) \<longrightarrow> admits (view w) tok required m)"
    and device_law: "sv_DeviceHousehold s i w = (y, w') \<Longrightarrow> view w' = view w \<and> (\<forall>h. y = Some (Inr h) \<longrightarrow> device_of (view w) i h)"
    and plan_law: "sv_PlanHousehold s i w = (y, w') \<Longrightarrow> view w' = view w \<and> (\<forall>h. y = Some (Inr h) \<longrightarrow> plan_of (view w) i h)"
    and automation_law: "sv_AutomationHousehold s i w = (y, w') \<Longrightarrow>
      view w' = view w \<and> (\<forall>h. y = Some (Inr h) \<longrightarrow> automation_of (view w) i h)"
begin

text \<open>A body that answers with an error and leaves the view as it is.\<close>

definition denies :: "'v \<Rightarrow> 'w body \<Rightarrow> bool" where
  "denies v b \<longleftrightarrow> (\<forall>st p st'. fresh (hs_Writer st) \<longrightarrow> view (hs_World st) = v \<longrightarrow> b st = (p, st') \<longrightarrow>
     view (hs_World st') = v \<and> (\<not> p \<longrightarrow> (\<exists>code. wr_Status (hs_Writer st') = Some code \<and> 400 \<le> code)))"

lemma deniesI:
  assumes "\<And>st p st'. fresh (hs_Writer st) \<Longrightarrow> view (hs_World st) = v \<Longrightarrow> b st = (p, st') \<Longrightarrow>
    view (hs_World st') = v \<and> (\<not> p \<longrightarrow> (\<exists>code. wr_Status (hs_Writer st') = Some code \<and> 400 \<le> code))"
  shows "denies v b"
  using assms by (simp add: denies_def)

lemma deniesD:
  assumes "denies v b" "fresh (hs_Writer st)" "view (hs_World st) = v" "b st = (p, st')"
  shows "view (hs_World st') = v" "\<not> p \<Longrightarrow> \<exists>code. wr_Status (hs_Writer st') = Some code \<and> 400 \<le> code"
  using assms by (simp_all add: denies_def)

lemma denies_writeError: "denies v (writes (writeError encode e))"
proof (rule deniesI)
  fix st p st'
  assume f: "fresh (hs_Writer st)" and "view (hs_World st) = v" and run: "writes (writeError encode e) st = (p, st')"
  have "wr_Status (writeError encode e (hs_Writer st)) = Some (ErrorStatus (Some e))"
    unfolding writeError_def Let_def writeJSON_fresh [OF f] by simp
  moreover have "400 \<le> ErrorStatus (Some e)" using ErrorStatus_cases [of "Some e"] by auto
  ultimately show "view (hs_World st') = v \<and> (\<not> p \<longrightarrow> (\<exists>code. wr_Status (hs_Writer st') = Some code \<and> 400 \<le> code))"
    using run \<open>view (hs_World st) = v\<close> by (auto simp: writes_def)
qed

text \<open>A call of which every answer within the view is followed by a denial.\<close>

lemma denies_invoke:
  assumes "\<And>w x w'. view w = v \<Longrightarrow> m w = (x, w') \<Longrightarrow> view w' = v \<and> (\<forall>y. x = Some y \<longrightarrow> denies v (k y))"
  shows "denies v (invoke m k)"
proof (rule deniesI)
  fix st p st'
  assume f: "fresh (hs_Writer st)" and v: "view (hs_World st) = v" and run: "invoke m k st = (p, st')"
  obtain x w' where m: "m (hs_World st) = (x, w')" by (cases "m (hs_World st)")
  note w' = assms [OF v m]
  show "view (hs_World st') = v \<and> (\<not> p \<longrightarrow> (\<exists>code. wr_Status (hs_Writer st') = Some code \<and> 400 \<le> code))"
  proof (cases x)
    case None
    with run m w' show ?thesis by (auto simp: invoke_def)
  next
    case (Some y)
    with run m have "k y (st\<lparr>hs_World := w'\<rparr>) = (p, st')" by (simp add: invoke_def)
    then show ?thesis
      using deniesD [of v "k y" "st\<lparr>hs_World := w'\<rparr>" p st'] w' Some f by simp
  qed
qed

lemma denies_with_id:
  "(\<And>i. idParam r = Some i \<Longrightarrow> denies v (k i)) \<Longrightarrow> denies v (with_id c r k)"
  by (auto simp: with_id_def denies_writeError split: option.split)

lemma authorize_view:
  assumes "authorize s r required w = (x, w')"
  shows "view w' = view w \<and> (\<forall>m. x = Some (Inr m) \<longrightarrow> (\<exists>tok. bearerSession r = Inr tok \<and> admits (view w) tok required m))"
  using assms authorize_law by (auto simp: authorize_def answers_def split: if_splits sum.splits)

lemma and_call_eq:
  "and_call m k w = (x, w'') \<longleftrightarrow> (\<exists>y w'. m w = (y, w') \<and> (case y of
     None \<Rightarrow> x = None \<and> w'' = w' | Some (Inl e) \<Rightarrow> x = Some (Inl e) \<and> w'' = w' | Some (Inr z) \<Rightarrow> k z w' = (x, w'')))"
  by (cases "m w") (auto simp: and_call_def split: option.splits sum.splits)

lemma denies_in_household:
  assumes "\<And>tok m. bearerSession r = Inr tok \<Longrightarrow> admits v tok required m \<Longrightarrow> 0 < i \<Longrightarrow> mem_HouseholdID m = i \<Longrightarrow> False"
  shows "denies v (in_household s c r i required k)"
  unfolding in_household_def
proof (rule denies_invoke)
  fix w x w'
  assume v: "view w = v" and run: "authorizeHousehold s r i required w = (x, w')"
  from run obtain y w1 where a: "authorize s r required w = (y, w1)"
      and rest: "case y of None \<Rightarrow> x = None \<and> w' = w1 | Some (Inl e) \<Rightarrow> x = Some (Inl e) \<and> w' = w1
        | Some (Inr m) \<Rightarrow> (if i \<le> 0 \<or> mem_HouseholdID m \<noteq> i then answers (Inl ErrForbidden) else answers (Inr m)) w1 = (x, w')"
    by (auto simp: authorizeHousehold_def and_call_eq)
  note au = authorize_view [OF a]
  have "view w' = v" using rest au v by (auto simp: answers_def split: option.splits sum.splits if_splits)
  moreover have "x \<noteq> Some (Inr m)" for m
    using rest au v assms by (auto simp: answers_def split: option.splits sum.splits if_splits)
  ultimately show "view w' = v \<and> (\<forall>y. x = Some y \<longrightarrow>
      denies v (case y of Inl e \<Rightarrow> writes (writeError (co_Encode c) e) | Inr _ \<Rightarrow> k))"
    by (auto simp: denies_writeError split: sum.splits)
qed

lemma denies_requireResource:
  assumes lookup: "\<And>w y w'. lookup i w = (y, w') \<Longrightarrow> view w' = view w \<and> (\<forall>h. y = Some (Inr h) \<longrightarrow> own (view w) i h)"
    and "\<And>tok m. bearerSession r = Inr tok \<Longrightarrow> admits v tok required m \<Longrightarrow> own v i (mem_HouseholdID m) \<Longrightarrow> False"
  shows "denies v (requireResource s c r i required lookup k)"
  unfolding requireResource_def
proof (rule denies_invoke)
  fix w x w'
  assume v: "view w = v" and run: "authorizeResource s r i required lookup w = (x, w')"
  have "view w' = v \<and> (\<forall>m. x \<noteq> Some (Inr m))"
  proof (cases "sv_HasScope s")
    case False
    with run v show ?thesis by (auto simp: authorizeResource_def answers_def)
  next
    case True
    with run obtain y w1 where a: "authorize s r required w = (y, w1)"
        and rest: "case y of None \<Rightarrow> x = None \<and> w' = w1 | Some (Inl e) \<Rightarrow> x = Some (Inl e) \<and> w' = w1
          | Some (Inr m) \<Rightarrow> and_call (lookup i) (\<lambda>h. if mem_HouseholdID m \<noteq> h then answers (Inl ErrForbidden) else answers (Inr m)) w1 = (x, w')"
      by (auto simp: authorizeResource_def and_call_eq)
    note au = authorize_view [OF a]
    consider (none) "y = None" | (err) e where "y = Some (Inl e)" | (ok) m where "y = Some (Inr m)"
      by (cases y) (metis sum.exhaust option.exhaust)+
    then show ?thesis
    proof cases
      case none
      with rest au v show ?thesis by simp
    next
      case err
      with rest au v show ?thesis by simp
    next
      case ok
      with rest obtain z w2 where l: "lookup i w1 = (z, w2)" and z: "case z of None \<Rightarrow> x = None \<and> w' = w2
          | Some (Inl e) \<Rightarrow> x = Some (Inl e) \<and> w' = w2
          | Some (Inr h) \<Rightarrow> (if mem_HouseholdID m \<noteq> h then answers (Inl ErrForbidden) else answers (Inr m)) w2 = (x, w')"
        by (auto simp: and_call_eq)
      have "admits v tok required m \<Longrightarrow> bearerSession r = Inr tok \<Longrightarrow> \<not> own v i (mem_HouseholdID m)" for tok
        using assms(2) by blast
      with lookup [OF l] au ok v z show ?thesis
        by (auto simp: answers_def split: option.splits sum.splits if_splits)
    qed
  qed
  then show "view w' = v \<and> (\<forall>y. x = Some y \<longrightarrow> denies v (case y of
      Inl e \<Rightarrow> writes (writeError (co_Encode c) (Wrapf ''authorize resource: '' e [])) | Inr _ \<Rightarrow> k))"
    by (auto simp: denies_writeError split: sum.splits)
qed

lemma scoped_law:
  assumes "\<And>i w y w'. lookup i w = (y, w') \<Longrightarrow> view w' = view w \<and> (\<forall>h. y = Some (Inr h) \<longrightarrow> own (view w) i h)"
    and "scoped s lookup i w = (y, w')"
  shows "view w' = view w \<and> (\<forall>h. y = Some (Inr h) \<longrightarrow> own (view w) i h)"
  using assms by (auto simp: scoped_def answers_def split: if_splits)

abbreviation grants :: "'v \<Rightarrow> endpoint \<Rightarrow> http_in \<Rightarrow> bool" where
  "grants v \<equiv> granted (admits v) (device_of v) (plan_of v) (automation_of v)"

lemma denies_owned:
  assumes "\<And>i w y w'. lookup i w = (y, w') \<Longrightarrow> view w' = view w \<and> (\<forall>h. y = Some (Inr h) \<longrightarrow> own (view w) i h)"
    and "\<not> owner_admitted (admits v) r required (own v)" "idParam r = Some i"
  shows "denies v (requireResource s c r i required (scoped s lookup) k)"
  by (rule denies_requireResource [where own = own, OF scoped_law [where lookup = lookup and own = own, OF assms(1)]])
    (use assms(2,3) in \<open>auto simp: owner_admitted_def\<close>)

lemma denies_household:
  assumes "\<not> owner_admitted (admits v) r required (\<lambda>i h. 0 < i \<and> i = h)" "idParam r = Some i"
  shows "denies v (in_household s c r i required k)"
  by (rule denies_in_household) (use assms in \<open>auto simp: owner_admitted_def\<close>)

lemma denies_device:
  "\<not> owner_admitted (admits v) r required (device_of v) \<Longrightarrow> idParam r = Some i \<Longrightarrow>
     denies v (requireResource s c r i required (deviceHousehold s) k)"
  unfolding deviceHousehold_def by (rule denies_owned [where own = device_of, OF device_law])

lemma denies_plan:
  "\<not> owner_admitted (admits v) r required (plan_of v) \<Longrightarrow> idParam r = Some i \<Longrightarrow>
     denies v (requireResource s c r i required (planHousehold s) k)"
  unfolding planHousehold_def by (rule denies_owned [where own = plan_of, OF plan_law])

lemma denies_automation:
  "\<not> owner_admitted (admits v) r required (automation_of v) \<Longrightarrow> idParam r = Some i \<Longrightarrow>
     denies v (requireResource s c r i required (automationHousehold s) k)"
  unfolding automationHousehold_def by (rule denies_owned [where own = automation_of, OF automation_law])


lemma serve_denies:
  assumes "\<not> grants v e r"
  shows "denies v (serve s c e r)"
  using assms
  by (cases e) (auto simp: serve_def granted_def guard_of_def addMember_ep_def logout_ep_def enroll_ep_def deviceTransition_def
      telemetry_ep_def window_ep_def plan_ep_def planState_def automation_ep_def run_ep_def automationState_def
      intro!: denies_with_id denies_household denies_device denies_plan denies_automation denies_writeError split: sum.split)

lemma denies_http_error: "400 \<le> status \<Longrightarrow> denies v (writes (\<lambda>w. http_error status message (f w)))"
  if "\<And>w. fresh w \<Longrightarrow> fresh (f w)" for f
proof (rule deniesI)
  fix st p st'
  assume st: "400 \<le> status" "fresh (hs_Writer st)" "view (hs_World st) = v"
    and run: "writes (\<lambda>w. http_error status message (f w)) st = (p, st')"
  have "wr_Status (http_error status message (f (hs_Writer st))) = Some status"
    using Write_after_header [of "set_header ''X-Content-Type-Options'' ''nosniff'' (set_header ''Content-Type'' ''text/plain; charset=utf-8'' (f (hs_Writer st)))"]
      that [OF st(2)] by (simp add: http_error_def fresh_set_header)
  with run st show "view (hs_World st') = v \<and> (\<not> p \<longrightarrow> (\<exists>code. wr_Status (hs_Writer st') = Some code \<and> 400 \<le> code))"
    by (auto simp: writes_def)
qed

lemma mux_denies:
  assumes "\<And>e i. endpoint_of r = Some (e, i) \<Longrightarrow> \<not> grants v e (r\<lparr>in_PathID := i\<rparr>)"
  shows "denies v (mux s c r)"
proof (cases "filter (route_matches (in_Method r) (in_Path r)) routes")
  case Nil
  then show ?thesis
    by (auto simp: mux_def denies_http_error [where f = "\<lambda>w. w"] denies_http_error fresh_set_header split: list.split)
next
  case (Cons t ts)
  then show ?thesis using assms by (cases t) (auto simp: mux_def endpoint_of_def intro!: serve_denies)
qed

lemma denies_inner:
  assumes "denies v (mux s c (r\<lparr>in_Limit := Some n\<rparr>))"
  shows "denies v (contentTypeJSON (limitBody (mux s c) n) r)"
proof (rule deniesI)
  fix st p st'
  assume "fresh (hs_Writer st)" "view (hs_World st) = v" "contentTypeJSON (limitBody (mux s c) n) r st = (p, st')"
  with deniesD [OF assms, of "st\<lparr>hs_Writer := set_header ''Content-Type'' ''application/json'' (hs_Writer st)\<rparr>" p st']
  show "view (hs_World st') = v \<and> (\<not> p \<longrightarrow> (\<exists>code. wr_Status (hs_Writer st') = Some code \<and> 400 \<le> code))"
    by (simp add: contentTypeJSON_def limitBody_def fresh_set_header)
qed

lemma denies_recoverer:
  assumes ok: "well_behaved encode (nxt r)" and no: "denies v (nxt r)"
  shows "denies v (recoverer encode lg nxt r)"
proof (rule deniesI)
  fix st p st'
  assume f: "fresh (hs_Writer st)" and v: "view (hs_World st) = v" and run: "recoverer encode lg nxt r st = (p, st')"
  let ?st = "st\<lparr>hs_Writer := push_layer (hs_Writer st)\<rparr>"
  obtain q st1 where nxt: "nxt r ?st = (q, st1)" by (cases "nxt r ?st")
  have fp: "fresh (hs_Writer ?st)" using f by (simp add: fresh_push)
  note d = deniesD [OF no fp _ nxt] and pr = properD [OF ok fp nxt]
  show "view (hs_World st') = v \<and> (\<not> p \<longrightarrow> (\<exists>code. wr_Status (hs_Writer st') = Some code \<and> 400 \<le> code))"
  proof (cases q)
    case False
    with run nxt d v show ?thesis by (auto simp: recoverer_def pop_layer_def)
  next
    case True
    then have f1: "fresh (hs_Writer st1)" and frame: "same_frame (push_layer (hs_Writer st)) (hs_Writer st1)" using pr by simp_all
    then have "wr_Layers (hs_Writer st1) \<noteq> []" by (auto simp: same_frame_def push_layer_def)
    then have "\<not> sl_committed (hd (wr_Layers (hs_Writer st1)))"
      using f1 by (cases "wr_Layers (hs_Writer st1)") (auto simp: fresh_def writer_ok_def)
    moreover have "wr_Status (writeError encode e (hs_Writer st1)) = Some (ErrorStatus (Some e))" for e
      unfolding writeError_def Let_def writeJSON_fresh [OF f1] by simp
    ultimately show ?thesis using run nxt True d(1) v by (auto simp: recoverer_def Let_def pop_layer_def)
  qed
qed

lemma denies_accessLog:
  assumes "denies v (nxt r)"
  shows "denies v (accessLog lg nxt r)"
proof (rule deniesI)
  fix st p st'
  assume "fresh (hs_Writer st)" "view (hs_World st) = v" "accessLog lg nxt r st = (p, st')"
  moreover obtain q st1 where "nxt r (st\<lparr>hs_Writer := push_layer (hs_Writer st)\<rparr>) = (q, st1)"
    by (cases "nxt r (st\<lparr>hs_Writer := push_layer (hs_Writer st)\<rparr>)")
  ultimately show "view (hs_World st') = v \<and> (\<not> p \<longrightarrow> (\<exists>code. wr_Status (hs_Writer st') = Some code \<and> 400 \<le> code))"
    using deniesD [OF assms, of "st\<lparr>hs_Writer := push_layer (hs_Writer st)\<rparr>" q st1]
    by (cases q) (auto simp: accessLog_def fresh_push pop_layer_def Let_def)
qed

text \<open>A request that is not granted is answered with an error, and the view stays as it was.\<close>

lemma Handler_guards:
  assumes run: "Handler s c r st = (p, st')" and "blank (hs_Writer st)" and uuid: "\<And>w. view (snd (co_UUID c w)) = view w"
  shows "(\<exists>e i. endpoint_of r = Some (e, i) \<and> grants (view (hs_World st)) e (r\<lparr>in_PathID := i\<rparr>)) \<or>
    view (hs_World st') = view (hs_World st) \<and> (\<exists>code. wr_Status (hs_Writer st') = Some code \<and> 400 \<le> code)"
proof (cases "\<exists>e i. endpoint_of r = Some (e, i) \<and> grants (view (hs_World st)) e (r\<lparr>in_PathID := i\<rparr>)")
  case True
  then show ?thesis by simp
next
  case False
  let ?v = "view (hs_World st)"
  have f: "fresh (hs_Writer st)" using assms(2) by (simp add: fresh_def writer_ok_def)
  have "grants ?v e (r\<lparr>in_RequestID := i, in_Limit := n, in_PathID := x\<rparr>) = grants ?v e (r\<lparr>in_PathID := x\<rparr>)" for e x n i
    by (cases "guard_of e"; simp add: granted_def owner_admitted_def idParam_def bearerSession_def)
  moreover have "endpoint_of (r\<lparr>in_RequestID := i, in_Limit := n\<rparr>) = endpoint_of r" for n i
    by (simp add: endpoint_of_def split: list.split)
  ultimately have no: "denies ?v (mux s c (r\<lparr>in_RequestID := i, in_Limit := Some n\<rparr>))" for i n
    using False by (intro mux_denies) metis
  let ?inner = "recoverer (co_Encode c) (sv_HasLogger s) (contentTypeJSON (limitBody (mux s c) (2 ^ 20)))"
  have inner: "denies ?v (accessLog lg ?inner (r\<lparr>in_RequestID := i\<rparr>))" for lg i
    by (intro denies_accessLog denies_recoverer [where nxt = "contentTypeJSON (limitBody (mux s c) (2 ^ 20))"]
        well_behaved_inner denies_inner no)
  from run [unfolded Handler_def] show ?thesis
  proof (cases rule: requestID_cases)
    case (pass i v)
    let ?st = "st\<lparr>hs_World := v, hs_Writer := set_header ''X-Request-ID'' i (hs_Writer st)\<rparr>"
    have ready: "fresh (hs_Writer ?st)" "view (hs_World ?st) = ?v" using f pass(4) uuid by (auto simp: fresh_set_header)
    have inner_ok: "\<not> q \<and> settled (co_Encode c) (hs_Writer t') \<and> same_frame (hs_Writer t) (hs_Writer t') \<and>
        (\<exists>rec. set rec \<subseteq> {Recovered} \<and> hs_Log t' = hs_Log t @ rec)"
      if "fresh (hs_Writer t)" "?inner (r\<lparr>in_RequestID := i\<rparr>) t = (q, t')" for t q t'
      using recoverer_settles [OF well_behaved_inner that] .
    have "\<not> p" using accessLog_settles [of ?inner "r\<lparr>in_RequestID := i\<rparr>", OF inner_ok ready(1) pass(3)] by blast
    with deniesD [OF inner ready pass(3)] show ?thesis by simp
  next
    case (refuse u v)
    have "fresh (set_header ''X-Request-ID'' (''req-'' @ fst (co_UUID c u)) (hs_Writer st))" using f by (simp add: fresh_set_header)
    from writeJSON_fresh [OF this] have "wr_Status (hs_Writer st') = Some 400" unfolding refuse(3) writeError_def Let_def by simp
    moreover have "view (hs_World st') = ?v" using refuse(3,5) uuid by auto
    ultimately show ?thesis by simp
  qed
qed

end

section \<open>Access to the repository\<close>

text \<open>A live session of an active member with a sufficient role, the clock being read with these tables.\<close>

definition session_admits :: "uuid_in \<Rightarrow> (world \<Rightarrow> time) \<Rightarrow> database \<Rightarrow> string \<Rightarrow> role \<Rightarrow> member \<Rightarrow> bool" where
  "session_admits uuid t db tok required m \<longleftrightarrow> (\<exists>w x. wdb w = db \<and> session_view uuid w tok = Some x \<and>
     ses_RevokedAt x = None \<and> t w < ses_ExpiresAt x \<and> member_view w (ses_MemberID x) = Some m \<and> Member_Can m required)"

definition device_in :: "database \<Rightarrow> int \<Rightarrow> int \<Rightarrow> bool" where
  "device_in db i h \<longleftrightarrow> (\<exists>d\<in>set (db_devices db). dev_ID d = i \<and> dev_HouseholdID d = h)"

definition plan_in_household :: "database \<Rightarrow> int \<Rightarrow> int \<Rightarrow> bool" where
  "plan_in_household db i h \<longleftrightarrow> (\<exists>p\<in>set (db_plans db). plan_ID p = i \<and> plan_HouseholdID p = h)"

definition automation_in_household :: "database \<Rightarrow> int \<Rightarrow> int \<Rightarrow> bool" where
  "automation_in_household db i h \<longleftrightarrow> (\<exists>a\<in>set (db_automations db). aut_ID a = i \<and> aut_HouseholdID a = h)"

lemma wdb_case_read:
  assumes "\<And>w. wdb (snd (m w)) = wdb w" "\<And>x w. wdb (snd (k x w)) = wdb w"
  shows "wdb (snd (and_then m k w)) = wdb w"
  using assms by (auto simp: and_then_def split: prod.split sum.split) (metis snd_conv)+

lemma Authorize_reads: "wdb (snd (Authorize (repo_auth uuid) (wall_clock t) tok required w)) = wdb w"
  unfolding Authorize_def
  by (auto intro!: wdb_case_read simp: repo_auth_def with_now_def wall_clock_def split: sum.split)

lemma Authorize_admits:
  assumes "Authorize (repo_auth uuid) (wall_clock t) tok required w = (Inr m, w')"
  shows "session_admits uuid t (wdb w) tok required m"
proof -
  from assms obtain x w1 where get: "GetSession uuid tok w = (Inr x, w1)" and "ses_RevokedAt x = None"
      and now: "t w1 < ses_ExpiresAt x" and mem: "MemberByID (ses_MemberID x) w1 = (Inr m, w')" "mem_Active m"
      "EnsureRole (mem_Role m) required = Inr ()"
    by (auto simp: Authorize_def repo_auth_def wall_clock_def with_now_def and_then_eq_Inr split: if_splits sum.splits)
  have "wdb w1 = wdb w" using wdb_GetSession [of uuid tok w] get by simp
  then have "session_view uuid w1 tok = Some x" using GetSession_Inr [OF get] session_view_cong [of w1 w] by simp
  with \<open>wdb w1 = wdb w\<close> \<open>ses_RevokedAt x = None\<close> now MemberByID_Inr [OF mem(1)] mem(2,3) show ?thesis
    unfolding session_admits_def by (auto simp: EnsureRole_Member_Can intro!: exI [of _ w1])
qed

lemma resource_household_law:
  assumes "resource_household (\<lambda>db. map_sum id f (one_row P (rows db))) i w = (r, w')"
  shows "wdb w' = wdb w \<and> (\<forall>h. r = Inr h \<longrightarrow> (\<exists>x\<in>set (rows (wdb w)). P x \<and> f x = h))"
proof -
  have "wdb (snd (resource_household (\<lambda>db. map_sum id f (one_row P (rows db))) i w)) = wdb w"
    by (simp add: resource_household_def)
  moreover have "\<exists>x\<in>set (rows (wdb w)). P x \<and> f x = h" if "r = Inr h" for h
    using assms that by (auto simp: resource_household_def map_sum_Inr split: if_splits dest!: query_Inr one_row_Inr)
  ultimately show ?thesis using assms by simp
qed

lemma calls_eq: "calls m w = (x, w') \<longleftrightarrow> (\<exists>r. m w = (r, w') \<and> x = Some r)"
  by (auto simp: calls_def split: prod.splits)

lemma repo_server_fields:
  "sv_Authorize (repo_server env u zone cr t rd) = (\<lambda>tok required. calls (Authorize (repo_auth (env_uuid env)) (wall_clock t) tok required))"
  "sv_DeviceHousehold (repo_server env u zone cr t rd) = (\<lambda>i. calls (DeviceHousehold i))"
  "sv_PlanHousehold (repo_server env u zone cr t rd) = (\<lambda>i. calls (PlanHousehold i))"
  "sv_AutomationHousehold (repo_server env u zone cr t rd) = (\<lambda>i. calls (AutomationHousehold i))"
  by (simp_all add: repo_server_def Let_def)

interpretation repo_access: access_control "repo_server env u zone cr t rd" wdb "session_admits (env_uuid env) t"
    device_in plan_in_household automation_in_household
  for env u zone cr t rd
proof
  fix tok required w x w'
  assume "sv_Authorize (repo_server env u zone cr t rd) tok required w = (x, w')"
  then obtain r where r: "Authorize (repo_auth (env_uuid env)) (wall_clock t) tok required w = (r, w')" "x = Some r"
    by (auto simp: repo_server_fields calls_eq)
  show "wdb w' = wdb w \<and> (\<forall>m. x = Some (Inr m) \<longrightarrow> session_admits (env_uuid env) t (wdb w) tok required m)"
    using Authorize_reads [of "env_uuid env" t tok required w] Authorize_admits r by auto
next
  fix i w y w'
  show "sv_DeviceHousehold (repo_server env u zone cr t rd) i w = (y, w') \<Longrightarrow>
      wdb w' = wdb w \<and> (\<forall>h. y = Some (Inr h) \<longrightarrow> device_in (wdb w) i h)"
    by (auto simp: repo_server_fields calls_eq DeviceHousehold_def device_in_def dest!: resource_household_law)
  show "sv_PlanHousehold (repo_server env u zone cr t rd) i w = (y, w') \<Longrightarrow>
      wdb w' = wdb w \<and> (\<forall>h. y = Some (Inr h) \<longrightarrow> plan_in_household (wdb w) i h)"
    by (auto simp: repo_server_fields calls_eq PlanHousehold_def plan_in_household_def dest!: resource_household_law)
  show "sv_AutomationHousehold (repo_server env u zone cr t rd) i w = (y, w') \<Longrightarrow>
      wdb w' = wdb w \<and> (\<forall>h. y = Some (Inr h) \<longrightarrow> automation_in_household (wdb w) i h)"
    by (auto simp: repo_server_fields calls_eq AutomationHousehold_def automation_in_household_def dest!: resource_household_law)
qed

text \<open>C4. A request changes the database or is answered with a success only if its endpoint is open to all
  (health checks, creating a household, logging in), it ends the session it bears, or it bears the token
  of a live session of an active member with the endpoint's role, of the household that owns the
  device, plan or automation it names; every other request is answered with an error.\<close>

theorem requests_need_sessions:
  assumes "Handler (repo_server env u zone cr t rd) c r st = (p, st')" "blank (hs_Writer st)"
    and "\<And>w. wdb (snd (co_UUID c w)) = wdb w"
  shows "let db = wdb (hs_World st) in
    (\<exists>e i. endpoint_of r = Some (e, i) \<and>
       granted (session_admits (env_uuid env) t db) (device_in db) (plan_in_household db) (automation_in_household db)
         e (r\<lparr>in_PathID := i\<rparr>)) \<or>
    wdb (hs_World st') = db \<and> (\<exists>code. wr_Status (hs_Writer st') = Some code \<and> 400 \<le> code)"
  unfolding Let_def by (rule repo_access.Handler_guards [OF assms])

text \<open>A request for somebody's device without a token.\<close>

theorem requests_need_sessions_witness:
  "case Handler (repo_server sample_env id (\<lambda>_. True) sample_crypto (\<lambda>_. 5) (ret ())) plain_codecs
      (sample_request ''POST'' [''v1'', ''devices'', ''1'', ''pair''] Map.empty) (start_state sample) of
     (p, st') \<Rightarrow> wdb (hs_World st') = sample_db \<and> wr_Status (hs_Writer st') \<noteq> None \<and> wr_Status (hs_Writer st') \<noteq> Some 204"
proof -
  let ?r = "sample_request ''POST'' [''v1'', ''devices'', ''1'', ''pair''] Map.empty"
  obtain p st' where run: "Handler (repo_server sample_env id (\<lambda>_. True) sample_crypto (\<lambda>_. 5) (ret ())) plain_codecs ?r
      (start_state sample) = (p, st')" by (metis surj_pair)
  have "split_fields [] = []" by (simp add: split_fields_def split_fields_loop.simps)
  then have token: "bearerSession (?r\<lparr>in_PathID := i\<rparr>) = Inl ErrForbidden" for i
    by (simp add: bearerSession_def sample_request_def header_get_def)
  have "endpoint_of ?r = Some (PairEp, ''1'')" by code_simp
  then have "\<not> (\<exists>e i. endpoint_of ?r = Some (e, i) \<and> granted a d pl au e (?r\<lparr>in_PathID := i\<rparr>))" for a d pl au
    using token by (simp add: granted_def guard_of_def owner_admitted_def)
  moreover have "blank (hs_Writer (start_state sample))" "hs_World (start_state sample) = sample" by (simp_all add: start_state_def)
  ultimately have "wdb (hs_World st') = sample_db \<and> (\<exists>code. wr_Status (hs_Writer st') = Some code \<and> 400 \<le> code)"
    using requests_need_sessions [OF run] by (auto simp: plain_codecs_def Let_def)
  with run show ?thesis by auto
qed

end
