(* ===== verification/Observability.thy ===== *)
theory Observability
  imports Http_Writer "HOL-Library.List_Lexorder" "HOL-Library.Char_ord"
begin

text \<open>
  \<^verbatim>\<open>internal/observability\<close>: named counters and their export (\<^verbatim>\<open>metrics.go\<close>), the counters of requests
  and the middleware that keeps them (\<^verbatim>\<open>observability.go\<close>). A counter is shared by reference, so the
  registry maps names to positions in a store. The additions of \<^verbatim>\<open>Metrics.Observe\<close> are atomic one by
  one, so that those of concurrent requests mix in any order.
\<close>

section \<open>Counters\<close>

record counter =
  ct_Value :: int
  ct_Labels :: "string \<rightharpoonup> string"

record metric =
  me_Name :: string
  me_Value :: int
  me_Labels :: "string \<rightharpoonup> string"
  me_Observed :: time

definition NewCounter :: "(string \<rightharpoonup> string) \<Rightarrow> counter" where
  "NewCounter labels = \<lparr>ct_Value = 0, ct_Labels = labels\<rparr>"

definition Counter_Add :: "int \<Rightarrow> counter \<Rightarrow> counter" where
  "Counter_Add delta c = c\<lparr>ct_Value := wrap64 (ct_Value c + delta)\<rparr>"

definition Counter_Value :: "counter \<Rightarrow> int" where
  "Counter_Value c = ct_Value c"

definition Counter_Snapshot :: "counter \<Rightarrow> metric" where
  "Counter_Snapshot c = \<lparr>me_Name = ''counter'', me_Value = ct_Value c, me_Labels = ct_Labels c, me_Observed = 0\<rparr>"

section \<open>The registry\<close>

record registry =
  rg_Names :: "(string \<times> nat) list"
  rg_Store :: "counter list"

definition NewRegistry :: registry where
  "NewRegistry = \<lparr>rg_Names = [], rg_Store = []\<rparr>"

definition Registry_Counter :: "string \<Rightarrow> (string \<rightharpoonup> string) \<Rightarrow> registry \<Rightarrow> nat \<times> registry" where
  "Registry_Counter name labels r =
     (let name = trim_space name in
      case map_of (rg_Names r) name of
        Some k \<Rightarrow> (k, r)
      | None \<Rightarrow> (length (rg_Store r),
          r\<lparr>rg_Names := (name, length (rg_Store r)) # rg_Names r, rg_Store := rg_Store r @ [NewCounter labels]\<rparr>))"

text \<open>\<^verbatim>\<open>Add\<close> on a counter of the registry.\<close>

definition add_to :: "nat \<Rightarrow> int \<Rightarrow> registry \<Rightarrow> registry" where
  "add_to k delta r = r\<lparr>rg_Store := (rg_Store r)[k := Counter_Add delta (rg_Store r ! k)]\<rparr>"

definition metric_of :: "time \<Rightarrow> registry \<Rightarrow> string \<Rightarrow> metric" where
  "metric_of now r key =
     (Counter_Snapshot (rg_Store r ! the (map_of (rg_Names r) key)))\<lparr>me_Name := key, me_Observed := now\<rparr>"

definition Registry_Snapshot :: "time \<Rightarrow> registry \<Rightarrow> metric list" where
  "Registry_Snapshot now r = map (metric_of now r) (sort (map fst (rg_Names r)))"

text \<open>\<open>ctx_err k\<close> is the error of the context after \<open>k\<close> metrics were written.\<close>

fun export_loop :: "(nat \<Rightarrow> err option) \<Rightarrow> nat \<Rightarrow> metric list \<Rightarrow> string \<Rightarrow> err + string" where
  "export_loop ctx_err k [] b = Inr b"
| "export_loop ctx_err k (m # ms) b =
     (case ctx_err k of
        Some e \<Rightarrow> Inl e
      | None \<Rightarrow> export_loop ctx_err (k + 1) ms (b @ me_Name m @ '' '' @ show_int (me_Value m) @ [CHR 0x0A]))"

definition Export :: "err option \<Rightarrow> (nat \<Rightarrow> err option) \<Rightarrow> time \<Rightarrow> registry \<Rightarrow> err + string" where
  "Export cancelled ctx_err now r =
     (case cancelled of Some e \<Rightarrow> Inl e | None \<Rightarrow> export_loop ctx_err 0 (Registry_Snapshot now r) [])"

section \<open>Metrics of requests\<close>

record http_metrics =
  hm_Requests :: int
  hm_Failures :: int
  hm_LatencyNanos :: int

datatype metric_add = AddRequests int | AddFailures int | AddLatency int

fun atomic_add :: "metric_add \<Rightarrow> http_metrics \<Rightarrow> http_metrics" where
  "atomic_add (AddRequests d) m = m\<lparr>hm_Requests := wrap64 (hm_Requests m + d)\<rparr>"
| "atomic_add (AddFailures d) m = m\<lparr>hm_Failures := wrap64 (hm_Failures m + d)\<rparr>"
| "atomic_add (AddLatency d) m = m\<lparr>hm_LatencyNanos := wrap64 (hm_LatencyNanos m + d)\<rparr>"

definition new_metrics :: http_metrics where
  "new_metrics = \<lparr>hm_Requests = 0, hm_Failures = 0, hm_LatencyNanos = 0\<rparr>"

text \<open>The additions of \<^verbatim>\<open>Observe\<close> in the order it makes them; \<open>now\<close> is the time \<^verbatim>\<open>time.Since\<close> reads.\<close>

definition Observe :: "time \<Rightarrow> time \<Rightarrow> bool \<Rightarrow> metric_add list" where
  "Observe start now is_failure =
     (let elapsed = time_sub now start; elapsed = (if elapsed < 0 then 0 else elapsed) in
      [AddRequests 1, AddLatency elapsed] @ (if is_failure then [AddFailures 1] else []))"

definition Metrics_Snapshot :: "http_metrics \<Rightarrow> int \<times> int \<times> duration" where
  "Metrics_Snapshot m = (hm_Requests m, hm_Failures m, hm_LatencyNanos m)"

section \<open>The middleware\<close>

datatype observed_log = PanicLogged | RequestLogged string "string list" duration

text \<open>A new \<^verbatim>\<open>responseState\<close> has the status 0. Its methods are those of a \<^verbatim>\<open>statusWriter\<close>.\<close>

definition push_state :: "writer \<Rightarrow> writer" where
  "push_state w = w\<lparr>wr_Layers := \<lparr>sl_status = 0, sl_committed = False\<rparr> # wr_Layers w\<rparr>"

text \<open>
  The metrics' additions, the log and the state after a request that starts at \<open>start\<close> and whose
  duration is read at \<open>t1\<close> for the metrics and at \<open>t2\<close> for the log.
\<close>

definition AccessLog ::
    "bool \<Rightarrow> bool \<Rightarrow> 'w handler \<Rightarrow> http_in \<Rightarrow> time \<times> time \<times> time \<Rightarrow> 'w http_state
       \<Rightarrow> metric_add list \<times> observed_log list \<times> 'w http_state" where
  "AccessLog has_logger has_metrics nxt r instants s =
     (case (instants, nxt r (s\<lparr>hs_Writer := push_state (hs_Writer s)\<rparr>)) of ((start, t1, t2), (panicked, s')) \<Rightarrow>
        let w = hs_Writer s';
            w' = (if panicked \<and> \<not> sl_committed (hd (wr_Layers w)) then http_error 500 ''internal'' w else w);
            is_failure = (panicked \<or> 500 \<le> sl_status (hd (wr_Layers w')))
        in (if has_metrics then Observe start t1 is_failure else [],
            (if panicked \<and> has_logger then [PanicLogged] else []) @
            (if has_logger then [RequestLogged (in_Method r) (in_Path r) (time_sub t2 start)] else []),
            s'\<lparr>hs_Writer := pop_layer w'\<rparr>))"

section \<open>The registry counts\<close>

text \<open>A client gets the counter of a name and adds to it.\<close>

definition increment :: "string \<times> (string \<rightharpoonup> string) \<times> int \<Rightarrow> registry \<Rightarrow> registry" where
  "increment op r = (case op of (name, labels, delta) \<Rightarrow>
     case Registry_Counter name labels r of (k, r') \<Rightarrow> add_to k delta r')"

text \<open>Names are distinct, and so are their counters.\<close>

definition registry_ok :: "registry \<Rightarrow> bool" where
  "registry_ok r \<longleftrightarrow> distinct (map fst (rg_Names r)) \<and> distinct (map snd (rg_Names r)) \<and>
     (\<forall>k\<in>set (map snd (rg_Names r)). k < length (rg_Store r))"

text \<open>What a registry promises: a number for every name.\<close>

definition totals :: "registry \<Rightarrow> string \<rightharpoonup> int" where
  "totals r name = map_option (\<lambda>k. ct_Value (rg_Store r ! k)) (map_of (rg_Names r) name)"

lemma registry_ok_new: "registry_ok NewRegistry"
  by (simp add: registry_ok_def NewRegistry_def)

lemma registry_ok_Counter: "registry_ok r \<Longrightarrow> registry_ok (snd (Registry_Counter name labels r))"
  by (force simp: registry_ok_def Registry_Counter_def Let_def map_of_eq_None_iff split: option.splits)

lemma registry_ok_add: "registry_ok r \<Longrightarrow> registry_ok (add_to k d r)"
  by (simp add: registry_ok_def add_to_def)

lemma Counter_registered:
  assumes "Registry_Counter name labels r = (k, r')" "registry_ok r"
  shows "map_of (rg_Names r') (trim_space name) = Some k" "k < length (rg_Store r')"
    "map_of (rg_Names r) n = Some j \<Longrightarrow> map_of (rg_Names r') n = Some j"
    "totals r' = (if totals r (trim_space name) = None then (totals r)(trim_space name \<mapsto> 0) else totals r)"
  using assms
  by (auto simp: Registry_Counter_def registry_ok_def totals_def Let_def NewCounter_def nth_append fun_eq_iff
      split: option.splits dest!: map_of_SomeD intro!: option.map_cong)

lemma totals_add:
  assumes "registry_ok r" "map_of (rg_Names r) n = Some k"
  shows "totals (add_to k d r) = (totals r)(n \<mapsto> wrap64 (the (totals r n) + d))"
proof
  fix m
  have k: "k < length (rg_Store r)" using assms by (auto simp: registry_ok_def dest!: map_of_SomeD)
  show "totals (add_to k d r) m = ((totals r)(n \<mapsto> wrap64 (the (totals r n) + d))) m"
  proof (cases "m = n")
    case True
    with k assms(2) show ?thesis by (simp add: totals_def add_to_def Counter_Add_def)
  next
    case False
    then have "map_of (rg_Names r) m \<noteq> Some k"
      using assms by (fastforce simp: registry_ok_def distinct_map inj_on_def dest!: map_of_SomeD)
    with False show ?thesis by (auto simp: totals_def add_to_def intro!: option.map_cong)
  qed
qed

text \<open>The total of a name is the sum of what was added to it, and a name exists once it was used.\<close>

definition added :: "string \<Rightarrow> (string \<times> (string \<rightharpoonup> string) \<times> int) list \<Rightarrow> int" where
  "added n ops = sum_list (map (\<lambda>(name, labels, delta). delta) (filter (\<lambda>(name, labels, delta). trim_space name = n) ops))"

lemma increment_totals:
  assumes "registry_ok r"
  shows "registry_ok (increment (name, labels, d) r)"
    "totals (increment (name, labels, d) r) = (totals r)(trim_space name \<mapsto>
       wrap64 ((case totals r (trim_space name) of None \<Rightarrow> 0 | Some v \<Rightarrow> v) + d))"
proof -
  obtain k r' where c: "Registry_Counter name labels r = (k, r')" by fastforce
  note reg = Counter_registered [OF c assms]
  have ok: "registry_ok r'" using registry_ok_Counter [OF assms, of name labels] c by simp
  show "registry_ok (increment (name, labels, d) r)" using ok c by (simp add: increment_def registry_ok_add)
  show "totals (increment (name, labels, d) r) = (totals r)(trim_space name \<mapsto>
       wrap64 ((case totals r (trim_space name) of None \<Rightarrow> 0 | Some v \<Rightarrow> v) + d))"
    using totals_add [OF ok reg(1), of d] c reg(4) by (auto simp: increment_def split: option.splits)
qed

lemma wrap64_add_left: "wrap64 (wrap64 a + b) = wrap64 (a + b)"
  unfolding wrap64_def by (metis signed_take_bit_add signed_take_bit_signed_take_bit min.idem)

lemma run_totals:
  "registry_ok (fold increment ops NewRegistry) \<and>
   totals (fold increment ops NewRegistry) =
     (\<lambda>n. if n \<in> set (map (\<lambda>op. trim_space (fst op)) ops) then Some (wrap64 (added n ops)) else None)"
proof (induction ops rule: rev_induct)
  case Nil
  then show ?case using registry_ok_new by (simp add: totals_def NewRegistry_def)
next
  case (snoc op ops)
  obtain name labels d where op: "op = (name, labels, d)" by (cases op)
  let ?n = "trim_space name"
  have fresh: "added ?n ops = 0" if "?n \<notin> set (map (\<lambda>op. trim_space (fst op)) ops)"
  proof -
    have "filter (\<lambda>(name', labels, delta). trim_space name' = ?n) ops = []"
      using that by (intro filter_False) (auto simp: image_iff)
    then show ?thesis by (simp add: added_def)
  qed
  have more: "added n (ops @ [op]) = added n ops + (if n = ?n then d else 0)" for n
    by (auto simp: added_def op)
  show ?case
    using snoc.IH increment_totals [of "fold increment ops NewRegistry" name labels d] fresh
    by (auto simp: op more [unfolded op] wrap64_add_left fun_eq_iff)
qed

lemma export_all:
  "export_loop (\<lambda>_. None) k ms b = Inr (b @ concat (map (\<lambda>m. me_Name m @ '' '' @ show_int (me_Value m) @ [CHR 0x0A]) ms))"
  by (induction ms arbitrary: k b) simp_all

lemma names_of_totals:
  assumes "registry_ok r"
  shows "sort (map fst (rg_Names r)) = sorted_list_of_set (dom (totals r))"
proof -
  have "dom (totals r) = set (map fst (rg_Names r))"
    by (auto simp: totals_def dom_map_of_conv_image_fst dom_def map_of_eq_None_iff)
  then show ?thesis using assms by (metis registry_ok_def sorted_list_of_set_sort_remdups distinct_remdups_id)
qed

text \<open>Whatever counters are registered and added to, and in whatever order, the export has a line for every
  name that was used, in the order of the names, with the sum, in 64 bits, of all that was added under the name.\<close>

lemma export_totals:
  "Export None (\<lambda>_. None) now (fold increment ops NewRegistry) =
     Inr (concat (map (\<lambda>n. n @ '' '' @ show_int (wrap64 (added n ops)) @ [CHR 0x0A])
       (sorted_list_of_set (set (map (\<lambda>op. trim_space (fst op)) ops)))))"
proof -
  let ?r = "fold increment ops NewRegistry"
  note ok = run_totals [of ops, THEN conjunct1] and tot = run_totals [of ops, THEN conjunct2]
  have dom: "dom (totals ?r) = set (map (\<lambda>op. trim_space (fst op)) ops)" by (force simp: tot split: if_splits)
  have line: "me_Name (metric_of now ?r n) = n \<and> me_Value (metric_of now ?r n) = wrap64 (added n ops)"
    if "n \<in> set (map fst (rg_Names ?r))" for n
  proof -
    from that obtain k where k: "map_of (rg_Names ?r) n = Some k" by (metis map_of_eq_None_iff not_None_eq set_map)
    then have "totals ?r n = Some (ct_Value (rg_Store ?r ! k))" by (simp add: totals_def)
    with k show ?thesis by (auto simp: tot metric_of_def Counter_Snapshot_def split: if_splits)
  qed
  have "map (\<lambda>m. me_Name m @ '' '' @ show_int (me_Value m) @ [CHR 0x0A]) (Registry_Snapshot now ?r) =
      map (\<lambda>n. n @ '' '' @ show_int (wrap64 (added n ops)) @ [CHR 0x0A]) (sort (map fst (rg_Names ?r)))"
    unfolding Registry_Snapshot_def map_map by (rule map_cong [OF HOL.refl]) (use line in \<open>simp del: set_map\<close>)
  then show ?thesis
    unfolding Export_def by (simp add: export_all names_of_totals [OF ok] dom)
qed

section \<open>The middleware counts every request once\<close>

text \<open>A body that writes only through the response it is given, and leaves its layers in place.\<close>

definition writes_through :: "'w body \<Rightarrow> bool" where
  "writes_through b \<longleftrightarrow> (\<forall>s. writer_ok (hs_Writer s) \<longrightarrow>
     writer_ok (hs_Writer (snd (b s))) \<and> length (wr_Layers (hs_Writer (snd (b s)))) = length (wr_Layers (hs_Writer s)) \<and>
     (wr_Status (hs_Writer (snd (b s))) = None \<longrightarrow> wr_Layers (hs_Writer (snd (b s))) = wr_Layers (hs_Writer s)))"

text \<open>What the middleware calls a failure: a panic, or a status of 500 or more that was sent.\<close>

definition went_wrong :: "'w handler \<Rightarrow> http_in \<Rightarrow> 'w http_state \<Rightarrow> bool" where
  "went_wrong nxt r s = (case nxt r (s\<lparr>hs_Writer := push_state (hs_Writer s)\<rparr>) of (panicked, s') \<Rightarrow>
     panicked \<or> (\<exists>status\<ge>500. wr_Status (hs_Writer s') = Some status))"

lemma http_error_sends:
  assumes "writer_ok w" "wr_Status w = None"
  shows "writer_ok (http_error status message w)" "wr_Status (http_error status message w) = Some status"
    "length (wr_Layers (http_error status message w)) = length (wr_Layers w)"
proof -
  let ?w = "set_header ''X-Content-Type-Options'' ''nosniff'' (set_header ''Content-Type'' ''text/plain; charset=utf-8'' w)"
  have w: "writer_ok ?w" "wr_Status ?w = None" "wr_Layers ?w = wr_Layers w"
    using assms by (simp_all add: set_header_def writer_ok_def)
  have sent: "writer_ok (WriteHeader status ?w)" "wr_Status (WriteHeader status ?w) \<noteq> None"
    using w by (simp_all add: WriteHeader_first writer_ok_def)
  have "http_error status message w = (WriteHeader status ?w)\<lparr>wr_Body := wr_Body (WriteHeader status ?w) @ message @ [CHR 0x0A]\<rparr>"
    unfolding http_error_def by (rule Write_body_sent [OF sent])
  then show "writer_ok (http_error status message w)" "wr_Status (http_error status message w) = Some status"
      "length (wr_Layers (http_error status message w)) = length (wr_Layers w)"
    using w by (simp_all add: WriteHeader_first writer_ok_def)
qed

lemma AccessLog_outcome:
  assumes "writes_through (nxt r)" "writer_ok (hs_Writer s)" "wr_Status (hs_Writer s) = None"
    and "AccessLog lg True nxt r (start, t1, t2) s = (adds, logs, s')"
  shows "adds = Observe start t1 (went_wrong nxt r s)"
    "fst (nxt r (s\<lparr>hs_Writer := push_state (hs_Writer s)\<rparr>)) \<Longrightarrow> wr_Status (hs_Writer s') \<noteq> None"
proof -
  obtain p s1 where run: "nxt r (s\<lparr>hs_Writer := push_state (hs_Writer s)\<rparr>) = (p, s1)" by fastforce
  have "writer_ok (push_state (hs_Writer s))" using assms(2,3) by (auto simp: writer_ok_def push_state_def)
  with assms(1) run have ok: "writer_ok (hs_Writer s1)" "length (wr_Layers (hs_Writer s1)) = Suc (length (wr_Layers (hs_Writer s)))"
      "wr_Status (hs_Writer s1) = None \<Longrightarrow> sl_status (hd (wr_Layers (hs_Writer s1))) = 0"
    by (auto simp: writes_through_def push_state_def dest!: spec [of _ "s\<lparr>hs_Writer := push_state (hs_Writer s)\<rparr>"])
  define w where "w = (if p \<and> \<not> sl_committed (hd (wr_Layers (hs_Writer s1))) then http_error 500 ''internal'' (hs_Writer s1)
    else hs_Writer s1)"
  have h1: "hd (wr_Layers (hs_Writer s1)) \<in> set (wr_Layers (hs_Writer s1))" using ok(2) by (intro hd_in_set) auto
  then have top: "sl_committed (hd (wr_Layers (hs_Writer s1))) = (wr_Status (hs_Writer s1) \<noteq> None)"
      "wr_Status (hs_Writer s1) = Some status \<Longrightarrow> sl_status (hd (wr_Layers (hs_Writer s1))) = status" for status
    using ok(1) by (auto simp: writer_ok_def)
  have "(p \<or> 500 \<le> sl_status (hd (wr_Layers w))) = went_wrong nxt r s"
    using top ok(3) run by (cases "wr_Status (hs_Writer s1)") (auto simp: went_wrong_def w_def)
  then show "adds = Observe start t1 (went_wrong nxt r s)"
    using assms(4) run by (simp add: AccessLog_def Let_def w_def)
  have w: "p \<Longrightarrow> wr_Status w \<noteq> None"
    using top(1) http_error_sends(2) [OF ok(1)] by (auto simp: w_def)
  show "wr_Status (hs_Writer s') \<noteq> None" if "fst (nxt r (s\<lparr>hs_Writer := push_state (hs_Writer s)\<rparr>))"
    using assms(4) that w run by (auto simp: AccessLog_def Let_def w_def pop_layer_def split: if_splits)
qed

text \<open>The counters depend only on which additions were made, not on their order.\<close>

fun to_requests :: "metric_add \<Rightarrow> int" where
  "to_requests (AddRequests d) = d"
| "to_requests _ = 0"

fun to_failures :: "metric_add \<Rightarrow> int" where
  "to_failures (AddFailures d) = d"
| "to_failures _ = 0"

fun to_latency :: "metric_add \<Rightarrow> int" where
  "to_latency (AddLatency d) = d"
| "to_latency _ = 0"

definition metrics_sum :: "metric_add list \<Rightarrow> http_metrics" where
  "metrics_sum ops = \<lparr>hm_Requests = wrap64 (sum_list (map to_requests ops)),
     hm_Failures = wrap64 (sum_list (map to_failures ops)), hm_LatencyNanos = wrap64 (sum_list (map to_latency ops))\<rparr>"

lemma fold_atomic_add: "fold atomic_add ops new_metrics = metrics_sum ops"
proof (induction ops rule: rev_induct)
  case Nil
  then show ?case by (simp add: metrics_sum_def new_metrics_def wrap64_def)
next
  case (snoc op ops)
  have "wrap64 (wrap64 k) = wrap64 k" for k using wrap64_add_left [of k 0] by simp
  with snoc show ?case by (cases op) (simp_all add: metrics_sum_def wrap64_add_left)
qed

lemma metrics_sum_mset: "mset ops = mset ops' \<Longrightarrow> metrics_sum ops = metrics_sum ops'"
proof -
  assume m: "mset ops = mset ops'"
  have "sum_list (map f ops) = sum_list (map f ops')" for f :: "metric_add \<Rightarrow> int"
    using m by (metis mset_map sum_mset_sum_list)
  then show ?thesis by (simp add: metrics_sum_def)
qed

lemma Observe_sums:
  "sum_list (map to_requests (Observe start now bad)) = 1"
  "sum_list (map to_failures (Observe start now bad)) = (if bad then 1 else 0)"
  "0 \<le> sum_list (map to_latency (Observe start now bad))"
  by (simp_all add: Observe_def Let_def)

lemma sums_of_requests:
  "sum_list (map to_requests (concat (map (\<lambda>x. Observe (f x) (g x) (bad x)) xs))) = int (length xs)"
  "sum_list (map to_failures (concat (map (\<lambda>x. Observe (f x) (g x) (bad x)) xs))) = int (length (filter bad xs))"
  by (induction xs) (simp_all add: Observe_sums)

text \<open>C40. Whatever the handlers of concurrent requests do, panics included, and however the additions of the
  requests to the shared counters mix, every request is counted once, and counted as a failure exactly when its
  handler panicked or a status of 500 or more was sent; and no panic leaves a request without an answer.\<close>

theorem metrics_count_requests:
  assumes "\<And>r. writes_through (nxt r)"
    and "\<And>r t s. (r, t, s) \<in> set requests \<Longrightarrow> writer_ok (hs_Writer s) \<and> wr_Status (hs_Writer s) = None"
    and "mset ops = mset (concat (map (\<lambda>(r, t, s). fst (AccessLog lg True nxt r t s)) requests))"
  shows "Metrics_Snapshot (fold atomic_add ops new_metrics) = (wrap64 (int (length requests)),
      wrap64 (int (length (filter (\<lambda>(r, t, s). went_wrong nxt r s) requests))),
      hm_LatencyNanos (fold atomic_add ops new_metrics)) \<and>
    (\<forall>(r, t, s)\<in>set requests. fst (nxt r (s\<lparr>hs_Writer := push_state (hs_Writer s)\<rparr>)) \<longrightarrow>
      wr_Status (hs_Writer (snd (snd (AccessLog lg True nxt r t s)))) \<noteq> None)"
proof -
  have one: "fst (AccessLog lg True nxt r (start, t1, t2) s) = Observe start t1 (went_wrong nxt r s) \<and>
      (fst (nxt r (s\<lparr>hs_Writer := push_state (hs_Writer s)\<rparr>)) \<longrightarrow>
        wr_Status (hs_Writer (snd (snd (AccessLog lg True nxt r (start, t1, t2) s)))) \<noteq> None)"
    if "(r, (start, t1, t2), s) \<in> set requests" for r start t1 t2 s
  proof -
    obtain adds logs s' where run: "AccessLog lg True nxt r (start, t1, t2) s = (adds, logs, s')" by (metis prod.collapse)
    show ?thesis using AccessLog_outcome [OF assms(1) _ _ run] assms(2) [OF that] run by simp
  qed
  have "map (\<lambda>(r, t, s). fst (AccessLog lg True nxt r t s)) requests =
      map (\<lambda>x. Observe (fst (fst (snd x))) (fst (snd (fst (snd x)))) (case x of (r, t, s) \<Rightarrow> went_wrong nxt r s)) requests"
    by (rule map_cong [OF HOL.refl]) (auto simp: one)
  with assms(3) have "metrics_sum ops = metrics_sum (concat (map (\<lambda>x. Observe (fst (fst (snd x))) (fst (snd (fst (snd x))))
      (case x of (r, t, s) \<Rightarrow> went_wrong nxt r s)) requests))"
    by (intro metrics_sum_mset) simp
  then have "hm_Requests (metrics_sum ops) = wrap64 (int (length requests))"
      "hm_Failures (metrics_sum ops) = wrap64 (int (length (filter (\<lambda>(r, t, s). went_wrong nxt r s) requests)))"
    by (simp_all only: metrics_sum_def sums_of_requests http_metrics.simps)
  with one show ?thesis by (auto simp: fold_atomic_add Metrics_Snapshot_def)
qed

text \<open>Two requests: one is answered with 503, the other panics.\<close>

definition sample_handler :: "unit handler" where
  "sample_handler r s = (in_Method r = ''POST'',
     if in_Method r = ''POST'' then s else s\<lparr>hs_Writer := WriteHeader 503 (hs_Writer s)\<rparr>)"

definition sample_requests :: "(http_in \<times> (time \<times> time \<times> time) \<times> unit http_state) list" where
  "sample_requests = map (\<lambda>m. (\<lparr>in_Method = m, in_Path = [], in_PathID = [], in_Header = Map.empty, in_Query = Map.empty,
       in_Body = [], in_Limit = None, in_RequestID = []\<rparr>, (5, 7, 8), \<lparr>hs_World = (), hs_Writer =
       \<lparr>wr_Layers = [], wr_Header = Map.empty, wr_Status = None, wr_Sent = Map.empty, wr_Body = []\<rparr>, hs_Log = []\<rparr>)) [''GET'', ''POST'']"

lemma sample_handler_through: "writes_through (sample_handler r)"
proof -
  have "writer_ok (WriteHeader 503 w) \<and> length (wr_Layers (WriteHeader 503 w)) = length (wr_Layers w) \<and>
      (wr_Status (WriteHeader 503 w) = None \<longrightarrow> wr_Layers (WriteHeader 503 w) = wr_Layers w)" if "writer_ok w" for w
  proof (cases "wr_Status w")
    case None
    then show ?thesis using that by (simp add: WriteHeader_first writer_ok_def)
  next
    case (Some a)
    then show ?thesis using that by (simp add: WriteHeader_again)
  qed
  then show ?thesis by (auto simp: writes_through_def sample_handler_def)
qed

theorem metrics_count_requests_witness:
  "Metrics_Snapshot (fold atomic_add
     [AddRequests 1, AddRequests 1, AddFailures 1, AddLatency 2, AddFailures 1, AddLatency 2] new_metrics) = (2, 2, 4) \<and>
   wr_Status (hs_Writer (snd (snd (AccessLog True True sample_handler (fst (sample_requests ! 1)) (5, 7, 8)
     (snd (snd (sample_requests ! 1))))))) \<noteq> None"
proof -
  have ops: "mset [AddRequests 1, AddRequests 1, AddFailures 1, AddLatency 2, AddFailures 1, AddLatency 2] =
      mset (concat (map (\<lambda>(r, t, s). fst (AccessLog True True sample_handler r t s)) sample_requests))"
    by (simp add: sample_requests_def AccessLog_def sample_handler_def push_state_def Observe_def Let_def WriteHeader_def
        send_header_def time_sub_def min_i64_def max_i64_def http_error_def Write_body_def commit_layer_def set_header_def)
  have ok: "\<And>r t s. (r, t, s) \<in> set sample_requests \<Longrightarrow> writer_ok (hs_Writer s) \<and> wr_Status (hs_Writer s) = None"
    by (auto simp: sample_requests_def writer_ok_def)
  note c = metrics_count_requests [where nxt = sample_handler and lg = True, OF sample_handler_through ok ops]
  have n: "length sample_requests = 2" "filter (\<lambda>(r, t, s). went_wrong sample_handler r s) sample_requests = sample_requests"
    by (simp_all add: sample_requests_def went_wrong_def sample_handler_def push_state_def WriteHeader_def send_header_def)
  have last: "sample_requests ! 1 \<in> set sample_requests" "fst (snd (sample_requests ! 1)) = (5, 7, 8)"
      "fst (sample_handler (fst (sample_requests ! 1)) s)" for s
    by (simp_all add: sample_handler_def sample_requests_def)
  have "hm_LatencyNanos (fold atomic_add [AddRequests 1, AddRequests 1, AddFailures 1, AddLatency 2, AddFailures 1, AddLatency 2] new_metrics) = 4"
    by (simp add: new_metrics_def wrap64_id min_i64_def max_i64_def)
  moreover have "wrap64 (int 2) = 2" by (simp add: wrap64_id min_i64_def max_i64_def)
  ultimately show ?thesis
    using c [THEN conjunct1] bspec [OF c [THEN conjunct2] last(1)] last(2,3) n
    by (simp only: split_beta prod.collapse simp_thms)
qed

end
