(* ===== verification/Transport.thy ===== *)
theory Transport
  imports Http_Core Clocks
begin

text \<open>
  \<^verbatim>\<open>internal/transport\<close>: the HTTP client and its retries, webhooks, envelopes, streams of values
  and request policies. The network is a \<open>network\<close>: what one round trip, one request and its answer, yields and
  whether the context ends a wait. \<^verbatim>\<open>http.Client\<close> follows redirects on top of it, as the standard library's
  default policy does. JSON, URLs and HTTP dates are those of the standard library, given as arguments.
\<close>

section \<open>transport.go\<close>

text \<open>A body yields its data, then a reading error or the end; closing it may fail too.\<close>

record http_body =
  hb_Data :: string
  hb_ReadErr :: "err option"
  hb_CloseErr :: "err option"

record http_response =
  hp_Status :: int
  hp_Header :: header
  hp_Body :: http_body

record 'w network =
  nw_RoundTrip :: "http_request \<Rightarrow> ('w, http_response) action"
  nw_Wait :: "duration \<Rightarrow> ('w, unit) action"

text \<open>
  \<^verbatim>\<open>url.JoinPath\<close>, \<^verbatim>\<open>json.Marshal\<close>, the errors of \<^verbatim>\<open>http.NewRequest\<close> for a method and
  a URL, and \<^verbatim>\<open>json.Decoder.Decode\<close> on a body. For redirects: \<^verbatim>\<open>URL.Parse\<close> of a \<^verbatim>\<open>Location\<close> relative to
  the URL of a request, with the error that the client makes of a bad one; whether sensitive headers of the first
  request may go to another URL (its host is the same one or a subdomain); the \<^verbatim>\<open>Referer\<close> from one URL to the
  next with the one set explicitly; and the \<^verbatim>\<open>url.Error\<close> that wraps an error with the method and a URL.
\<close>

record ('b, 'o) library =
  lb_Join :: "string \<Rightarrow> string \<Rightarrow> err + string"
  lb_Marshal :: "'b \<Rightarrow> err + string"
  lb_BadRequest :: "string \<Rightarrow> string \<Rightarrow> err option"
  lb_Decode :: "http_body \<Rightarrow> err + 'o"
  lb_Resolve :: "string \<Rightarrow> string \<Rightarrow> err + string"
  lb_Trusts :: "string \<Rightarrow> string \<Rightarrow> bool"
  lb_Referer :: "string \<Rightarrow> string \<Rightarrow> string \<Rightarrow> string"
  lb_URLError :: "string \<Rightarrow> string \<Rightarrow> err \<Rightarrow> err"

record client =
  tc_BaseURL :: string
  tc_Token :: string
  tc_Retry :: int
  tc_Backoff :: duration

definition trim_right_slash :: "string \<Rightarrow> string" where
  "trim_right_slash s = rev (dropWhile (\<lambda>c. c = CHR ''/'') (rev s))"

definition NewClient :: "string \<Rightarrow> client" where
  "NewClient base = \<lparr>tc_BaseURL = trim_right_slash base, tc_Token = [], tc_Retry = 3, tc_Backoff = 100000000\<rparr>"

text \<open>The headers are in the order in which their map is iterated.\<close>

record 'b request =
  rq_Method :: string
  rq_Path :: string
  rq_Body :: "'b option"
  rq_Headers :: "(string \<times> string) list"

definition drainAndClose :: "http_body option \<Rightarrow> err option" where
  "drainAndClose body =
     (case body of
        None \<Rightarrow> None
      | Some b \<Rightarrow>
          (case (if length (hb_Data b) < 2 ^ 20 then hb_ReadErr b else None) of
             Some e \<Rightarrow> Some e
           | None \<Rightarrow> hb_CloseErr b))"

text \<open>What the client makes of an attempt: it is done, or keeps the error and tries again.\<close>

datatype 'o attempt_verdict = Settled "err + 'o option" | TryAgain err

definition verdict :: "(http_body \<Rightarrow> err + 'o) \<Rightarrow> bool \<Rightarrow> err + http_response \<Rightarrow> 'o attempt_verdict" where
  "verdict decode has_out answer =
     (case answer of
        Inl e \<Rightarrow> TryAgain e
      | Inr r \<Rightarrow>
          if 200 \<le> hp_Status r \<and> hp_Status r < 300
          then Settled
            (if \<not> has_out
             then (case drainAndClose (Some (hp_Body r)) of None \<Rightarrow> Inr None | Some e \<Rightarrow> Inl e)
             else (case decode (hp_Body r) of
                     Inl e \<Rightarrow> Inl e
                   | Inr v \<Rightarrow> (case hb_CloseErr (hp_Body r) of None \<Rightarrow> Inr (Some v) | Some e \<Rightarrow> Inl e)))
          else
            (let problem = ErrorString (''remote status '' @ show_int (hp_Status r)) in
             case drainAndClose (Some (hp_Body r)) of
               Some e \<Rightarrow> Settled (Inl e)
             | None \<Rightarrow> if hp_Status r < 500 then Settled (Inl problem) else TryAgain problem))"

definition request_of :: "client \<Rightarrow> 'b request \<Rightarrow> string \<Rightarrow> string \<Rightarrow> string \<Rightarrow> http_request" where
  "request_of c req meth target encoded =
     (let h = header_set ''Accept'' ''application/json'' Map.empty;
          h = (if rq_Body req \<noteq> None then header_set ''Content-Type'' ''application/json'' h else h);
          h = (if tc_Token c \<noteq> [] then header_set ''Authorization'' (''Bearer '' @ tc_Token c) h else h)
      in \<lparr>hq_Method = meth, hq_URL = target,
          hq_Header = foldl (\<lambda>h (k, v). header_set k v h) h (rq_Headers req), hq_Body = encoded\<rparr>)"

text \<open>
  \<^verbatim>\<open>http.Client.Do\<close> with its default policy. A status of 301, 302 or 303 is followed by a \<^verbatim>\<open>GET\<close> without
  the body (a \<^verbatim>\<open>HEAD\<close> stays one), 307 and 308 by the same request again; a response without a \<^verbatim>\<open>Location\<close> is
  returned as it is. The scheme and the host of the new URL are not looked at, except for the sensitive headers.
\<close>

definition redirect_behavior :: "string \<Rightarrow> int \<Rightarrow> (string \<times> bool) option" where
  "redirect_behavior meth status =
     (if status \<in> {301, 302, 303} then Some (if meth \<noteq> ''GET'' \<and> meth \<noteq> ''HEAD'' then ''GET'' else meth, False)
      else if status \<in> {307, 308} then Some (meth, True)
      else None)"

definition sensitive_headers :: "string set" where
  "sensitive_headers = {''Authorization'', ''Www-Authenticate'', ''Cookie'', ''Cookie2'', ''Proxy-Authorization'',
     ''Proxy-Authenticate''}"

definition body_headers :: "string set" where
  "body_headers = {''Content-Encoding'', ''Content-Language'', ''Content-Location'', ''Content-Type''}"

text \<open>The headers of the first request, without the sensitive ones once a redirect led elsewhere (\<open>strip\<close>) and
  without those of the body once a redirect dropped it (\<open>\<not> keep\<close>).\<close>

definition copied_header :: "http_request \<Rightarrow> bool \<Rightarrow> bool \<Rightarrow> header" where
  "copied_header first strip keep =
     (\<lambda>k. if k \<in> sensitive_headers \<and> strip \<or> k \<in> body_headers \<and> \<not> keep then None else hq_Header first k)"

definition redirected ::
    "('b, 'o) library \<Rightarrow> http_request \<Rightarrow> http_request \<Rightarrow> string \<Rightarrow> string \<Rightarrow> bool \<Rightarrow> bool \<Rightarrow> http_request" where
  "redirected lib first previous meth target strip keep =
     (let h = copied_header first strip keep;
          ref = lb_Referer lib (hq_URL previous) target (header_get ''Referer'' h)
      in \<lparr>hq_Method = meth, hq_URL = target, hq_Header = (if ref \<noteq> [] then header_set ''Referer'' ref h else h),
          hq_Body = (if keep then hq_Body first else [])\<rparr>)"

text \<open>\<open>n\<close> redirects may still be followed: the policy refuses the request after ten.\<close>

fun follow_redirects ::
    "('b, 'o) library \<Rightarrow> 'w network \<Rightarrow> http_request \<Rightarrow> nat \<Rightarrow> bool \<Rightarrow> bool \<Rightarrow> http_request \<Rightarrow> ('w, http_response) action" where
  "follow_redirects lib nw first n strip keep r w =
     (case nw_RoundTrip nw r w of
        (Inl e, w1) \<Rightarrow> (Inl (lb_URLError lib (hq_Method first) (hq_URL r) e), w1)
      | (Inr resp, w1) \<Rightarrow>
          (case redirect_behavior (hq_Method r) (hp_Status resp) of
             None \<Rightarrow> (Inr resp, w1)
           | Some (meth, keep_hop) \<Rightarrow>
               (let loc = header_get ''Location'' (hp_Header resp) in
                if loc = [] then (Inr resp, w1)
                else case lb_Resolve lib (hq_URL r) loc of
                  Inl e \<Rightarrow> (Inl (lb_URLError lib (hq_Method first) (hq_URL r) e), w1)
                | Inr target \<Rightarrow>
                    (case n of
                       0 \<Rightarrow> (Inl (lb_URLError lib (hq_Method first) loc (ErrorString ''stopped after 10 redirects'')), w1)
                     | Suc m \<Rightarrow>
                         (let strip' = (strip \<or> \<not> lb_Trusts lib (hq_URL first) target); keep' = (keep \<and> keep_hop) in
                          follow_redirects lib nw first m strip' keep'
                            (redirected lib first r meth target strip' keep') w1)))))"

declare follow_redirects.simps [simp del]

definition http_Do :: "('b, 'o) library \<Rightarrow> 'w network \<Rightarrow> http_request \<Rightarrow> ('w, http_response) action" where
  "http_Do lib nw r = follow_redirects lib nw r 9 False True r"

text \<open>The loop, \<open>send\<close> the call of \<^verbatim>\<open>http.Client.Do\<close> with the attempt's request, \<open>n\<close> attempts before its end and \<open>previous\<close> the error of the attempt before.\<close>

fun attempt_loop ::
    "'w network \<Rightarrow> err option \<Rightarrow> (err + http_response \<Rightarrow> 'o attempt_verdict) \<Rightarrow> duration
       \<Rightarrow> ('w, http_response) action
       \<Rightarrow> nat \<Rightarrow> int \<Rightarrow> err option \<Rightarrow> ('w, 'o option) action" where
  "attempt_loop nw bad judge backoff send 0 attempt previous w =
     (case previous of None \<Rightarrow> (Inr None, w) | Some e \<Rightarrow> (Inl e, w))"
| "attempt_loop nw bad judge backoff send (Suc n) attempt previous w =
     (case bad of
        Some e \<Rightarrow> (Inl e, w)
      | None \<Rightarrow>
          (case send w of (answer, w1) \<Rightarrow>
             (case judge answer of
                Settled x \<Rightarrow> (x, w1)
              | TryAgain e \<Rightarrow>
                  if n = 0 then attempt_loop nw bad judge backoff send n (attempt + 1) (Some e) w1
                  else (case nw_Wait nw (wrap64 (backoff * attempt)) w1 of
                          (Inl x, w2) \<Rightarrow> (Inl x, w2)
                        | (Inr _, w2) \<Rightarrow> attempt_loop nw bad judge backoff send n (attempt + 1) (Some e) w2))))"

definition encode_body :: "('b \<Rightarrow> err + string) \<Rightarrow> 'b option \<Rightarrow> err + string" where
  "encode_body marshal b = (case b of None \<Rightarrow> Inr [] | Some x \<Rightarrow> marshal x)"

definition Client_Do ::
    "('b, 'o) library \<Rightarrow> 'w network \<Rightarrow> bool \<Rightarrow> client \<Rightarrow> 'b request \<Rightarrow> ('w, 'o option) action" where
  "Client_Do lib nw has_out c req w =
     (let meth = (if rq_Method req = [] then ''GET'' else rq_Method req) in
      case lb_Join lib (tc_BaseURL c) (rq_Path req) of
        Inl e \<Rightarrow> (Inl e, w)
      | Inr target \<Rightarrow>
          (case encode_body (lb_Marshal lib) (rq_Body req) of
             Inl e \<Rightarrow> (Inl e, w)
           | Inr encoded \<Rightarrow>
               (let attempts = (if tc_Retry c < 1 then 1 else tc_Retry c) in
                attempt_loop nw (lb_BadRequest lib meth target) (verdict (lb_Decode lib) has_out) (tc_Backoff c)
                  (http_Do lib nw (request_of c req meth target encoded)) (nat attempts) 1 None w)))"

text \<open>\<open>parse\<close> is \<^verbatim>\<open>url.Parse\<close>: an error, or the scheme and the host.\<close>

definition CheckURL :: "(string \<Rightarrow> err + string \<times> string) \<Rightarrow> string \<Rightarrow> err + unit" where
  "CheckURL parse raw =
     (case parse raw of
        Inr (scheme, host) \<Rightarrow> if scheme \<noteq> ''https'' \<or> host = [] then Inl (ErrorString ''webhook URL must use https'') else Inr ()
      | Inl _ \<Rightarrow> Inl (ErrorString ''webhook URL must use https''))"

record webhook =
  wk_Client :: "client option"
  wk_URL :: string

definition SendWithKey ::
    "(string \<Rightarrow> err + string \<times> string) \<Rightarrow> ('b, 'o) library \<Rightarrow> 'w network \<Rightarrow> webhook \<Rightarrow> 'b \<Rightarrow> string \<Rightarrow> ('w, unit) action" where
  "SendWithKey parse lib nw h event key =
     (case CheckURL parse (wk_URL h) of
        Inl e \<Rightarrow> fail e
      | Inr _ \<Rightarrow>
          (case wk_Client h of
             None \<Rightarrow> fail (ErrorString ''webhook client is required'')
           | Some c \<Rightarrow>
               and_then (Client_Do lib nw False (c\<lparr>tc_BaseURL := trim_right_slash (wk_URL h)\<rparr>)
                 \<lparr>rq_Method = ''POST'', rq_Path = [], rq_Body = Some event,
                  rq_Headers = (if key \<noteq> [] then [(''Idempotency-Key'', key)] else [])\<rparr>) (\<lambda>_. ret ())))"

definition Webhook_Send ::
    "(string \<Rightarrow> err + string \<times> string) \<Rightarrow> ('b, 'o) library \<Rightarrow> 'w network \<Rightarrow> webhook \<Rightarrow> 'b \<Rightarrow> ('w, unit) action" where
  "Webhook_Send parse lib nw h event = SendWithKey parse lib nw h event []"

section \<open>codec.go\<close>

record remote_error =
  rm_Code :: string
  rm_Message :: string

record envelope =
  en_RequestID :: string
  en_Data :: string
  en_Error :: "remote_error option"

text \<open>\<open>marshal_data\<close>, \<open>marshal\<close> and \<open>unmarshal_data\<close>, \<open>unmarshal\<close> are \<^verbatim>\<open>encoding/json\<close> on the data and on envelopes.\<close>

definition EncodeEnvelope :: "('d \<Rightarrow> err + string) \<Rightarrow> (envelope \<Rightarrow> err + string) \<Rightarrow> string \<Rightarrow> 'd \<Rightarrow> err + string" where
  "EncodeEnvelope marshal_data marshal requestID data =
     (if trim_space requestID = [] then Inl (ErrorString ''request id is required'')
      else case marshal_data data of
        Inl e \<Rightarrow> Inl e
      | Inr payload \<Rightarrow> marshal \<lparr>en_RequestID = requestID, en_Data = payload, en_Error = None\<rparr>)"

text \<open>The id, the value decoded and the error, as the function returns and sets them.\<close>

definition DecodeEnvelope ::
    "(string \<Rightarrow> err + envelope) \<Rightarrow> (string \<Rightarrow> err + 'd) \<Rightarrow> string \<Rightarrow> string \<times> 'd option \<times> err option" where
  "DecodeEnvelope unmarshal unmarshal_data raw =
     (case unmarshal raw of
        Inl e \<Rightarrow> ([], None, Some e)
      | Inr env \<Rightarrow>
          if en_RequestID env = [] \<or> en_Data env = [] then ([], None, Some (ErrorString ''invalid envelope''))
          else case en_Error env of
            Some x \<Rightarrow> (en_RequestID env, None, Some (ErrorString (''remote '' @ rm_Code x @ '': '' @ rm_Message x)))
          | None \<Rightarrow>
              (case unmarshal_data (en_Data env) of
                 Inl e \<Rightarrow> ([], None, Some e)
               | Inr d \<Rightarrow> (en_RequestID env, Some d, None)))"

text \<open>\<open>ctx_err k\<close> is the context's error after \<open>k\<close> values were decoded, \<open>problem\<close> the decoder's one at the end.\<close>

fun collect :: "(nat \<Rightarrow> err option) \<Rightarrow> nat \<Rightarrow> string list \<Rightarrow> err option \<Rightarrow> string list \<Rightarrow> string list \<times> err option" where
  "collect ctx_err k [] problem target = (target, problem)"
| "collect ctx_err k (v # vs) problem target =
     (case ctx_err k of
        Some e \<Rightarrow> (target, Some e)
      | None \<Rightarrow> collect ctx_err (k + 1) vs problem (target @ [v]))"

text \<open>\<open>read_all n b\<close> is \<^verbatim>\<open>io.ReadAll(io.LimitReader(b, n))\<close>.\<close>

definition read_all :: "int \<Rightarrow> http_body \<Rightarrow> err + string" where
  "read_all n b =
     (if n \<le> int (length (hb_Data b)) then Inr (take (nat n) (hb_Data b))
      else case hb_ReadErr b of Some e \<Rightarrow> Inl e | None \<Rightarrow> Inr (hb_Data b))"

definition DecodeAll ::
    "(string \<Rightarrow> string list \<times> err option) \<Rightarrow> (nat \<Rightarrow> err option) \<Rightarrow> http_body option \<Rightarrow> int
       \<Rightarrow> string list option \<Rightarrow> string list option \<times> err option" where
  "DecodeAll values_of ctx_err reader limit0 target =
     (case (reader, target) of
        (Some b, Some ts) \<Rightarrow>
          (let limit = (if limit0 \<le> 0 then 4 * 2 ^ 20 else limit0) in
           case read_all (wrap64 (limit + 1)) b of
             Inl e \<Rightarrow> (target, Some e)
           | Inr data \<Rightarrow>
               if int (length data) > limit then (target, Some (ErrorString ''payload exceeds limit''))
               else (case values_of data of (vs, problem) \<Rightarrow>
                 (case collect ctx_err 0 vs problem ts of (ts', e) \<Rightarrow> (Some ts', e))))
      | _ \<Rightarrow> (target, Some (ErrorString ''decoder is not configured'')))"

text \<open>\<^verbatim>\<open>%d\<close> of \<^verbatim>\<open>fmt.Sscanf\<close>: a sign, then digits; what follows them is not read.\<close>

definition scan_d :: "string \<Rightarrow> int option" where
  "scan_d s =
     (let (sign, rest) = (case s of [] \<Rightarrow> ([], [])
        | c # cs \<Rightarrow> if c = CHR ''-'' \<or> c = CHR ''+'' then ([c], cs) else ([], s));
          ds = takeWhile is_digit rest
      in if ds = [] then None else atoi (sign @ ds))"

definition RetryAfter ::
    "(string \<Rightarrow> time option) \<Rightarrow> time \<Rightarrow> http_response option \<Rightarrow> duration \<Rightarrow> duration" where
  "RetryAfter parse_time now resp fallback =
     (case resp of
        None \<Rightarrow> fallback
      | Some r \<Rightarrow>
          (let v = trim_space (header_get ''Retry-After'' (hp_Header r));
               by_date = (case parse_time v of
                 Some t \<Rightarrow> if time_sub t now > 0 then time_sub t now else fallback
               | None \<Rightarrow> fallback)
           in if v = [] then fallback
              else case scan_d v of
                Some s \<Rightarrow> if s \<ge> 0 then wrap64 (s * second) else by_date
              | None \<Rightarrow> by_date))"

section \<open>policy.go\<close>

text \<open>The methods are in the order in which their map is iterated.\<close>

record request_policy =
  po_Methods :: "(string \<times> bool) list"
  po_MaxBodyBytes :: int
  po_Timeout :: duration
  po_RequireToken :: bool

fun check_methods :: "string list \<Rightarrow> err + unit" where
  "check_methods [] = Inr ()"
| "check_methods (m # ms) =
     (if m \<noteq> ''GET'' \<and> m \<noteq> ''POST'' \<and> m \<noteq> ''PUT'' \<and> m \<noteq> ''DELETE''
      then Inl (ErrorString (''method '' @ m @ '' is not supported'')) else check_methods ms)"

definition RequestPolicy_Validate :: "request_policy \<Rightarrow> err + unit" where
  "RequestPolicy_Validate p =
     (if po_Methods p = [] \<or> po_MaxBodyBytes p \<le> 0 \<or> po_Timeout p \<le> 0
      then Inl (ErrorString ''request policy is incomplete'')
      else check_methods (map fst (po_Methods p)))"

text \<open>The request with the timeout of the context derived for it.\<close>

definition RequestPolicy_Apply :: "request_policy \<Rightarrow> http_request option \<Rightarrow> err + http_request \<times> duration" where
  "RequestPolicy_Apply p req =
     (case req of
        None \<Rightarrow> Inl (ErrorString ''request is nil'')
      | Some r \<Rightarrow>
          (case RequestPolicy_Validate p of
             Inl e \<Rightarrow> Inl e
           | Inr _ \<Rightarrow>
               if map_of (po_Methods p) (hq_Method r) \<noteq> Some True
               then Inl (ErrorString (''method '' @ hq_Method r @ '' is not allowed''))
               else if po_RequireToken p \<and> trim_space (header_get ''Authorization'' (hq_Header r)) = []
               then Inl (ErrorString ''authorization is required'')
               else Inr (r, po_Timeout p)))"

section \<open>The retries\<close>

text \<open>A network that logs its calls: its answer to an attempt and the end of a wait depend on how many came before.\<close>

record wire =
  wi_Sent :: "http_request list"
  wi_Waited :: "duration list"

definition scripted :: "(nat \<Rightarrow> err + http_response) \<Rightarrow> (nat \<Rightarrow> err option) \<Rightarrow> wire network" where
  "scripted reply interrupt =
     \<lparr>nw_RoundTrip = (\<lambda>r w. (reply (length (wi_Sent w)), w\<lparr>wi_Sent := wi_Sent w @ [r]\<rparr>)),
      nw_Wait = (\<lambda>d w. (case interrupt (length (wi_Waited w)) of None \<Rightarrow> Inr () | Some e \<Rightarrow> Inl e,
                        w\<lparr>wi_Waited := wi_Waited w @ [d]\<rparr>))\<rparr>"

abbreviation wire_after :: "http_request \<Rightarrow> duration \<Rightarrow> nat \<Rightarrow> nat \<Rightarrow> wire" where
  "wire_after r backoff k l \<equiv>
     \<lparr>wi_Sent = replicate k r, wi_Waited = map (\<lambda>i. wrap64 (backoff * (int i + 1))) [0..<l]\<rparr>"

abbreviation again :: "'o attempt_verdict \<Rightarrow> bool" where
  "again v \<equiv> \<exists>e. v = TryAgain e"

text \<open>How the loop ends with attempt \<open>j\<close>: settled, out of attempts, or interrupted while it waits.\<close>

definition ends_with ::
    "(nat \<Rightarrow> 'o attempt_verdict) \<Rightarrow> (nat \<Rightarrow> err option) \<Rightarrow> http_request \<Rightarrow> duration \<Rightarrow> nat \<Rightarrow> nat \<Rightarrow> (err + 'o option) \<times> wire \<Rightarrow> bool" where
  "ends_with v interrupt r backoff limit j out \<longleftrightarrow>
     (v j = Settled (fst out) \<and> snd out = wire_after r backoff (Suc j) j) \<or>
     (Suc j = limit \<and> (\<exists>e. v j = TryAgain e \<and> fst out = Inl e) \<and> snd out = wire_after r backoff (Suc j) j) \<or>
     (Suc j < limit \<and> again (v j) \<and> (\<exists>e. interrupt j = Some e \<and> fst out = Inl e) \<and> snd out = wire_after r backoff (Suc j) (Suc j))"

text \<open>Without redirects \<^verbatim>\<open>http.Client.Do\<close> is one round trip.\<close>

definition no_redirects :: "(nat \<Rightarrow> err + http_response) \<Rightarrow> bool" where
  "no_redirects reply \<longleftrightarrow> (\<forall>i resp. reply i = Inr resp \<longrightarrow>
     hp_Status resp \<notin> {301, 302, 303, 307, 308} \<or> header_get ''Location'' (hp_Header resp) = [])"

definition reported :: "('b, 'o) library \<Rightarrow> http_request \<Rightarrow> (nat \<Rightarrow> err + http_response) \<Rightarrow> nat \<Rightarrow> err + http_response" where
  "reported lib r reply i = map_sum (lb_URLError lib (hq_Method r) (hq_URL r)) id (reply i)"

lemma redirect_status: "redirect_behavior m s \<noteq> None \<longleftrightarrow> s \<in> {301, 302, 303, 307, 308}"
  by (auto simp: redirect_behavior_def)

lemma http_Do_plain:
  assumes "no_redirects reply"
  shows "http_Do lib (scripted reply interrupt) r w =
    (reported lib r reply (length (wi_Sent w)), w\<lparr>wi_Sent := wi_Sent w @ [r]\<rparr>)"
proof (cases "reply (length (wi_Sent w))")
  case (Inl e)
  then show ?thesis by (simp add: http_Do_def follow_redirects.simps scripted_def reported_def)
next
  case (Inr resp)
  with assms have "redirect_behavior (hq_Method r) (hp_Status resp) = None \<or> header_get ''Location'' (hp_Header resp) = []"
    using redirect_status [of "hq_Method r" "hp_Status resp"] unfolding no_redirects_def by blast
  with Inr show ?thesis
    by (auto simp: http_Do_def follow_redirects.simps [of _ _ _ 9] scripted_def reported_def Let_def split: option.split)
qed

lemma attempt_loop_ends:
  assumes send: "\<And>w. send w = (reply (length (wi_Sent w)), w\<lparr>wi_Sent := wi_Sent w @ [r]\<rparr>)" and "0 < n"
  shows "\<exists>j. k \<le> j \<and> j < k + n \<and> (\<forall>i. k \<le> i \<longrightarrow> i < j \<longrightarrow> again (judge (reply i)) \<and> interrupt i = None) \<and>
    ends_with (\<lambda>i. judge (reply i)) interrupt r backoff (k + n) j
      (attempt_loop (scripted answers interrupt) None judge backoff send n (int k + 1) previous (wire_after r backoff k k))"
  using assms(2)
proof (induction n arbitrary: k previous)
  case 0
  then show ?case by simp
next
  case (Suc n)
  have sent: "send (wire_after r backoff k k) = (reply k, wire_after r backoff (Suc k) k)"
    by (simp add: send replicate_append_same)
  have waited: "nw_Wait (scripted answers interrupt) (wrap64 (backoff * (int k + 1))) (wire_after r backoff (Suc k) k) =
      (case interrupt k of None \<Rightarrow> Inr () | Some e \<Rightarrow> Inl e, wire_after r backoff (Suc k) (Suc k))"
    by (simp add: scripted_def)
  let ?run = "attempt_loop (scripted answers interrupt) None judge backoff send"
  show ?case
  proof (cases "judge (reply k)")
    case (Settled x)
    then have "?run (Suc n) (int k + 1) previous (wire_after r backoff k k) = (x, wire_after r backoff (Suc k) k)"
      by (simp add: sent)
    with Settled show ?thesis by (intro exI [of _ k]) (simp add: ends_with_def)
  next
    case (TryAgain e)
    consider (out) "n = 0" | (stop) x where "0 < n" "interrupt k = Some x" | (go) "0 < n" "interrupt k = None"
      by (cases "interrupt k"; cases n) auto
    then show ?thesis
    proof cases
      case out
      with TryAgain show ?thesis by (intro exI [of _ k]) (simp add: ends_with_def sent del: replicate_Suc upt_Suc)
    next
      case stop
      with TryAgain show ?thesis by (intro exI [of _ k]) (simp add: ends_with_def sent waited del: replicate_Suc upt_Suc)
    next
      case go
      have next_attempt: "int (Suc k) + 1 = int k + 1 + 1" by simp
      from go have run: "?run (Suc n) (int k + 1) previous (wire_after r backoff k k) =
          ?run n (int (Suc k) + 1) (Some e) (wire_after r backoff (Suc k) (Suc k))"
        unfolding next_attempt using TryAgain by (simp add: sent waited del: replicate_Suc upt_Suc)
      obtain j where j: "Suc k \<le> j" "j < Suc k + n"
          "\<forall>i. Suc k \<le> i \<longrightarrow> i < j \<longrightarrow> again (judge (reply i)) \<and> interrupt i = None"
          "ends_with (\<lambda>i. judge (reply i)) interrupt r backoff (Suc k + n) j
             (?run n (int (Suc k) + 1) (Some e) (wire_after r backoff (Suc k) (Suc k)))"
        using Suc.IH [OF go(1), of "Suc k" "Some e"] by blast
      have "again (judge (reply i)) \<and> interrupt i = None" if "k \<le> i" "i < j" for i
        using j(3) that TryAgain go(2) by (cases "i = k") auto
      with j(1,2,4) show ?thesis unfolding run by (intro exI [of _ j]) simp
    qed
  qed
qed

lemma Client_Do_ends:
  assumes "lb_Join lib (tc_BaseURL c) (rq_Path req) = Inr target"
    and "encode_body (lb_Marshal lib) (rq_Body req) = Inr encoded"
    and "meth = (if rq_Method req = [] then ''GET'' else rq_Method req)" "lb_BadRequest lib meth target = None"
    and "no_redirects reply" "r = request_of c req meth target encoded"
  shows "\<exists>j. j < nat (max 1 (tc_Retry c)) \<and>
    (\<forall>i<j. again (verdict (lb_Decode lib) has_out (reported lib r reply i)) \<and> interrupt i = None) \<and>
    ends_with (\<lambda>i. verdict (lb_Decode lib) has_out (reported lib r reply i)) interrupt r (tc_Backoff c)
      (nat (max 1 (tc_Retry c))) j (Client_Do lib (scripted reply interrupt) has_out c req \<lparr>wi_Sent = [], wi_Waited = []\<rparr>)"
proof -
  have n: "(if tc_Retry c < 1 then 1 else tc_Retry c) = max 1 (tc_Retry c)" by simp
  have "Client_Do lib (scripted reply interrupt) has_out c req \<lparr>wi_Sent = [], wi_Waited = []\<rparr> =
      attempt_loop (scripted reply interrupt) None (verdict (lb_Decode lib) has_out) (tc_Backoff c)
        (http_Do lib (scripted reply interrupt) r) (nat (max 1 (tc_Retry c))) (int 0 + 1) None
        (wire_after r (tc_Backoff c) 0 0)"
    using assms unfolding Client_Do_def Let_def n by simp
  moreover have "0 < nat (max 1 (tc_Retry c))" by simp
  ultimately show ?thesis
    using attempt_loop_ends [OF http_Do_plain [OF assms(5)], where n = "nat (max 1 (tc_Retry c))" and k = 0 and
        judge = "verdict (lb_Decode lib) has_out"] by auto
qed

lemma verdict_again:
  assumes "again (verdict decode has_out (Inr r))"
  shows "500 \<le> hp_Status r"
  using assms by (auto simp: verdict_def Let_def split: if_splits option.splits)

lemma verdict_success:
  assumes "verdict decode has_out answer = Settled (Inr x)"
  shows "\<exists>r. answer = Inr r \<and> 200 \<le> hp_Status r \<and> hp_Status r < 300"
  using assms by (cases answer) (auto simp: verdict_def Let_def split: if_splits option.splits)

lemma Client_Do_cases:
  obtains e where "Client_Do lib nw has_out c req w = (Inl e, w)"
  | target encoded where "lb_Join lib (tc_BaseURL c) (rq_Path req) = Inr target"
      "encode_body (lb_Marshal lib) (rq_Body req) = Inr encoded"
      "lb_BadRequest lib (if rq_Method req = [] then ''GET'' else rq_Method req) target = None"
proof -
  let ?m = "if rq_Method req = [] then ''GET'' else rq_Method req"
  show thesis
  proof (cases "lb_Join lib (tc_BaseURL c) (rq_Path req)")
    case (Inl e)
    with that(1) show thesis by (simp add: Client_Do_def Let_def)
  next
    case (Inr target)
    note join = this
    show thesis
    proof (cases "encode_body (lb_Marshal lib) (rq_Body req)")
      case (Inl e)
      with join that(1) show thesis by (simp add: Client_Do_def Let_def)
    next
      case (Inr encoded)
      show thesis
      proof (cases "lb_BadRequest lib ?m target")
        case None
        with join Inr that(2) show thesis by blast
      next
        case (Some e)
        obtain n where "nat (if tc_Retry c < 1 then 1 else tc_Retry c) = Suc n"
          by (cases "nat (if tc_Retry c < 1 then 1 else tc_Retry c)") (auto split: if_splits)
        with join Inr Some that(1) [of e] show thesis by (simp add: Client_Do_def Let_def)
      qed
    qed
  qed
qed

text \<open>Where the server redirects nothing, a call of the client sends the same request at every attempt, the wait after an attempt being the
  backoff times its number: it tries again only after an error of the network or a status of 500 and
  more, and ends with the first response that is neither, with the last attempt, or when the context
  ends while it waits.\<close>

lemma Client_Do_attempts:
  assumes "lb_Join lib (tc_BaseURL c) (rq_Path req) = Inr target"
    and "encode_body (lb_Marshal lib) (rq_Body req) = Inr encoded"
    and "meth = (if rq_Method req = [] then ''GET'' else rq_Method req)" "lb_BadRequest lib meth target = None"
    and "no_redirects reply" "r = request_of c req meth target encoded"
  shows "\<exists>j. j < nat (max 1 (tc_Retry c)) \<and>
    (\<forall>i<j. (\<forall>resp. reply i = Inr resp \<longrightarrow> 500 \<le> hp_Status resp) \<and> interrupt i = None) \<and>
    ends_with (\<lambda>i. verdict (lb_Decode lib) has_out (reported lib r reply i)) interrupt r (tc_Backoff c)
      (nat (max 1 (tc_Retry c))) j (Client_Do lib (scripted reply interrupt) has_out c req \<lparr>wi_Sent = [], wi_Waited = []\<rparr>)"
proof -
  obtain j where "j < nat (max 1 (tc_Retry c))"
      and again: "\<forall>i<j. again (verdict (lb_Decode lib) has_out (reported lib r reply i)) \<and> interrupt i = None"
      and "ends_with (\<lambda>i. verdict (lb_Decode lib) has_out (reported lib r reply i)) interrupt r
        (tc_Backoff c) (nat (max 1 (tc_Retry c))) j (Client_Do lib (scripted reply interrupt) has_out c req \<lparr>wi_Sent = [], wi_Waited = []\<rparr>)"
    using Client_Do_ends [OF assms, of has_out interrupt] by blast
  moreover have "500 \<le> hp_Status resp" if "i < j" "reply i = Inr resp" for i resp
  proof -
    have "again (verdict (lb_Decode lib) has_out (Inr resp))" using again that by (auto simp: reported_def)
    then show ?thesis by (rule verdict_again)
  qed
  ultimately show ?thesis by blast
qed

section \<open>What is sent\<close>

text \<open>Request \<open>b\<close> follows request \<open>a\<close> because the answer to \<open>a\<close> is a redirect to its URL.\<close>

definition redirects :: "('b, 'o) library \<Rightarrow> err + http_response \<Rightarrow> http_request \<Rightarrow> http_request \<Rightarrow> bool" where
  "redirects lib answer a b \<longleftrightarrow> (\<exists>resp keep. answer = Inr resp \<and>
     redirect_behavior (hq_Method a) (hp_Status resp) = Some (hq_Method b, keep) \<and>
     header_get ''Location'' (hp_Header resp) \<noteq> [] \<and>
     lb_Resolve lib (hq_URL a) (header_get ''Location'' (hp_Header resp)) = Inr (hq_URL b) \<and>
     (\<not> keep \<longrightarrow> hq_Body b = []))"

text \<open>Requests, the first of them answered by reply number \<open>k\<close>: each is \<open>r\<close> or follows the one before.\<close>

definition chained :: "('b, 'o) library \<Rightarrow> (nat \<Rightarrow> err + http_response) \<Rightarrow> http_request \<Rightarrow> nat \<Rightarrow> http_request list \<Rightarrow> bool" where
  "chained lib reply r k qs \<longleftrightarrow> (\<forall>i<length qs. qs ! i = r \<or> (\<exists>j. i = Suc j \<and> redirects lib (reply (k + j)) (qs ! j) (qs ! i)))"

lemma chained_append:
  assumes "chained lib reply r k xs" "chained lib reply r (k + length xs) ys"
  shows "chained lib reply r k (xs @ ys)"
  unfolding chained_def
proof (intro allI impI)
  fix i
  assume i: "i < length (xs @ ys)"
  show "(xs @ ys) ! i = r \<or> (\<exists>j. i = Suc j \<and> redirects lib (reply (k + j)) ((xs @ ys) ! j) ((xs @ ys) ! i))"
  proof (cases "i < length xs")
    case True
    then consider "xs ! i = r" | j where "i = Suc j" "redirects lib (reply (k + j)) (xs ! j) (xs ! i)"
      using assms(1) unfolding chained_def by blast
    then show ?thesis
    proof cases
      case 1
      with True show ?thesis by (simp add: nth_append)
    next
      case 2
      with True have "(xs @ ys) ! i = xs ! i" "(xs @ ys) ! j = xs ! j" by (simp_all add: nth_append)
      with 2 show ?thesis by (intro disjI2 exI [of _ j]) (simp only: simp_thms)
    qed
  next
    case False
    then have l: "i - length xs < length ys" using i by simp
    with assms(2) consider "ys ! (i - length xs) = r"
      | j where "i - length xs = Suc j" "redirects lib (reply (k + length xs + j)) (ys ! j) (ys ! (i - length xs))"
      unfolding chained_def by blast
    then show ?thesis
    proof cases
      case 1
      with False show ?thesis by (simp add: nth_append)
    next
      case 2
      then have i: "i = Suc (length xs + j)" using False by simp
      then have "(xs @ ys) ! i = ys ! (i - length xs)" "(xs @ ys) ! (length xs + j) = ys ! j" by (simp_all add: nth_append)
      with 2(2) i show ?thesis by (intro disjI2 exI [of _ "length xs + j"]) (simp only: simp_thms add.assoc)
    qed
  qed
qed

text \<open>The redirects after \<open>r\<close>.\<close>

fun hops :: "('b, 'o) library \<Rightarrow> (nat \<Rightarrow> err + http_response) \<Rightarrow> nat \<Rightarrow> http_request \<Rightarrow> http_request list \<Rightarrow> bool" where
  "hops lib reply k r [] \<longleftrightarrow> True"
| "hops lib reply k r (q # qs) \<longleftrightarrow> redirects lib (reply k) r q \<and> hops lib reply (Suc k) q qs"

lemma hops_nth: "hops lib reply k r qs \<Longrightarrow> j < length qs \<Longrightarrow> redirects lib (reply (k + j)) ((r # qs) ! j) (qs ! j)"
proof (induction qs arbitrary: k r j)
  case Nil
  then show ?case by simp
next
  case (Cons q qs)
  show ?case
  proof (cases j)
    case 0
    with Cons.prems show ?thesis by simp
  next
    case (Suc i)
    with Cons.IH [of "Suc k" q i] Cons.prems show ?thesis by simp
  qed
qed

lemma chained_hops:
  assumes "hops lib reply k r qs"
  shows "chained lib reply r k (r # qs)"
  unfolding chained_def
proof (intro allI impI)
  fix i
  assume "i < length (r # qs)"
  with hops_nth [OF assms] show "(r # qs) ! i = r \<or>
      (\<exists>j. i = Suc j \<and> redirects lib (reply (k + j)) ((r # qs) ! j) ((r # qs) ! i))"
    by (cases i) auto
qed

lemma canonical_redirect_keys [simp]:
  "canonical_key ''Referer'' = ''Referer''" "canonical_key ''Location'' = ''Location''"
  by code_simp+

text \<open>One call of \<^verbatim>\<open>http.Client.Do\<close>: at most ten requests, the answer being that to the last one.\<close>

definition key_of :: "http_request \<Rightarrow> string" where
  "key_of r = header_get ''Idempotency-Key'' (hq_Header r)"

lemma redirected_key [simp]: "key_of (redirected lib r q m u strip keep) = key_of r"
  by (simp add: key_of_def redirected_def Let_def header_get_set copied_header_def header_get_def header_set_def
      sensitive_headers_def body_headers_def)

lemma follow_redirects_sent:
  assumes "follow_redirects lib (scripted reply interrupt) first n strip keep r w = (x, w')"
  shows "\<exists>qs. wi_Sent w' = wi_Sent w @ r # qs \<and> wi_Waited w' = wi_Waited w \<and>
    length qs \<le> (if no_redirects reply then 0 else n) \<and> hops lib reply (length (wi_Sent w)) r qs \<and>
    (\<forall>q\<in>set qs. key_of q = key_of first) \<and> (\<forall>resp. x = Inr resp \<longrightarrow> reply (length (wi_Sent w) + length qs) = Inr resp)"
  using assms
proof (induction n arbitrary: strip keep r w)
  case (0 strip keep r w)
  then show ?case
    by (intro exI [of _ "[]"])
      (auto simp: follow_redirects.simps scripted_def Let_def split: sum.splits option.splits prod.splits if_splits)
next
  case (Suc n strip keep r w)
  let ?l = "length (wi_Sent w)" and ?w = "w\<lparr>wi_Sent := wi_Sent w @ [r]\<rparr>"
  have sent: "nw_RoundTrip (scripted reply interrupt) r w = (reply ?l, ?w)" by (simp add: scripted_def)
  note run = Suc.prems(1) [unfolded follow_redirects.simps [of lib _ first "Suc n"] sent Let_def, simplified]
  show ?case
  proof (cases "\<exists>resp m kh u. reply ?l = Inr resp \<and> redirect_behavior (hq_Method r) (hp_Status resp) = Some (m, kh) \<and>
      header_get ''Location'' (hp_Header resp) \<noteq> [] \<and> lb_Resolve lib (hq_URL r) (header_get ''Location'' (hp_Header resp)) = Inr u")
    case False
    then have "wi_Sent w' = wi_Sent w @ [r] \<and> wi_Waited w' = wi_Waited w \<and> (\<forall>resp. x = Inr resp \<longrightarrow> reply ?l = Inr resp)"
      using run by (auto split: sum.splits option.splits prod.splits if_splits)
    then show ?thesis by (intro exI [of _ "[]"]) simp
  next
    case True
    then obtain resp m kh u where t: "reply ?l = Inr resp" "redirect_behavior (hq_Method r) (hp_Status resp) = Some (m, kh)"
        "header_get ''Location'' (hp_Header resp) \<noteq> []"
        "lb_Resolve lib (hq_URL r) (header_get ''Location'' (hp_Header resp)) = Inr u" by blast
    let ?strip = "strip \<or> \<not> lb_Trusts lib (hq_URL first) u" and ?keep = "keep \<and> kh"
    let ?q = "redirected lib first r m u ?strip ?keep"
    have may: "\<not> no_redirects reply"
      using t(1-3) redirect_status [of "hq_Method r" "hp_Status resp"] unfolding no_redirects_def by blast
    have step: "redirects lib (reply ?l) r ?q" using t by (auto simp: redirects_def redirected_def Let_def)
    have "follow_redirects lib (scripted reply interrupt) first n ?strip ?keep ?q ?w = (x, w')"
      using run t by simp
    from Suc.IH [OF this] obtain qs where "wi_Sent w' = wi_Sent w @ r # ?q # qs" "wi_Waited w' = wi_Waited w"
        "length qs \<le> n" "hops lib reply (Suc ?l) ?q qs" "\<forall>q\<in>set qs. key_of q = key_of first"
        "\<forall>resp. x = Inr resp \<longrightarrow> reply (Suc ?l + length qs) = Inr resp"
      using may by auto
    with step may show ?thesis by (intro exI [of _ "?q # qs"]) simp
  qed
qed

text \<open>All attempts of a call of the client.\<close>

lemma attempt_loop_sent:
  assumes "attempt_loop (scripted reply interrupt) bad judge backoff (http_Do lib (scripted reply interrupt) r) n a previous w = (x, w')"
    and "0 < n \<or> previous \<noteq> None"
  shows "\<exists>qs. wi_Sent w' = wi_Sent w @ qs \<and> length qs \<le> (if no_redirects reply then 1 else 10) * n \<and>
    chained lib reply r (length (wi_Sent w)) qs \<and> (\<forall>q\<in>set qs. key_of q = key_of r) \<and>
    (\<forall>y. x = Inr y \<longrightarrow> qs \<noteq> [] \<and> (\<exists>resp. judge (Inr resp) = Settled (Inr y) \<and> reply (length (wi_Sent w') - 1) = Inr resp) \<or>
       (\<exists>e. judge (Inl e) = Settled (Inr y)))"
  using assms
proof (induction n arbitrary: a previous w)
  case 0
  then show ?case by (intro exI [of _ "[]"]) (auto simp: chained_def split: option.splits)
next
  case (Suc n)
  show ?case
  proof (cases bad)
    case (Some e)
    with Suc.prems show ?thesis by (intro exI [of _ "[]"]) (auto simp: chained_def)
  next
    case None
    obtain answer w1 where send: "http_Do lib (scripted reply interrupt) r w = (answer, w1)" by fastforce
    from follow_redirects_sent [OF send [unfolded http_Do_def]] obtain qs where
        w1: "wi_Sent w1 = wi_Sent w @ r # qs" "length (r # qs) \<le> (if no_redirects reply then 1 else 10)"
        and h: "hops lib reply (length (wi_Sent w)) r qs" and keys: "\<forall>q\<in>set (r # qs). key_of q = key_of r"
        and answered: "\<forall>resp. answer = Inr resp \<longrightarrow> reply (length (wi_Sent w1) - 1) = Inr resp"
      by (auto split: if_splits)
    note c = chained_hops [OF h]
    show ?thesis
    proof (cases "judge answer")
      case (Settled y)
      then have out: "x = y" "w' = w1" using Suc.prems(1) None send by simp_all
      show ?thesis
        using w1 c keys answered Settled
        by (intro exI [of _ "r # qs"]) (cases answer; auto simp: out split: if_splits)
    next
      case (TryAgain e)
      show ?thesis
      proof (cases "\<exists>y w2. x = Inl y \<and> wi_Sent w' = wi_Sent w1")
        case True
        with w1 c keys show ?thesis by (intro exI [of _ "r # qs"]) (auto split: if_splits)
      next
        case False
        then obtain a' w2 where rest: "attempt_loop (scripted reply interrupt) bad judge backoff
            (http_Do lib (scripted reply interrupt) r) n a' (Some e) w2 = (x, w')" "wi_Sent w2 = wi_Sent w1"
          using Suc.prems(1) None send TryAgain
          by (auto simp: scripted_def split: if_splits sum.splits prod.splits option.splits)
        from Suc.IH [OF rest(1)] obtain ps where
          "wi_Sent w' = wi_Sent w1 @ ps" "length ps \<le> (if no_redirects reply then 1 else 10) * n"
          "chained lib reply r (length (wi_Sent w) + length (r # qs)) ps" "\<forall>q\<in>set ps. key_of q = key_of r"
          "\<forall>y. x = Inr y \<longrightarrow> ps \<noteq> [] \<and> (\<exists>resp. judge (Inr resp) = Settled (Inr y) \<and> reply (length (wi_Sent w') - 1) = Inr resp) \<or>
             (\<exists>e. judge (Inl e) = Settled (Inr y))"
          unfolding rest(2) w1(1) by auto
        with w1 chained_append [OF c, of ps] keys show ?thesis
          by (intro exI [of _ "(r # qs) @ ps"]) (auto split: if_splits)
      qed
    qed
  qed
qed

text \<open>The POST of the event to the URL of the webhook, by https.\<close>

definition posts_event :: "(string \<Rightarrow> err + string \<times> string) \<Rightarrow> ('b, 'o) library \<Rightarrow> string \<Rightarrow> 'b \<Rightarrow> http_request \<Rightarrow> bool" where
  "posts_event parse lib url event r \<longleftrightarrow> (\<exists>host. parse url = Inr (''https'', host) \<and> host \<noteq> []) \<and> hq_Method r = ''POST'' \<and>
     lb_Join lib (trim_right_slash url) [] = Inr (hq_URL r) \<and> lb_Marshal lib event = Inr (hq_Body r)"

text \<open>What one delivery sends, and when it succeeds.\<close>

lemma SendWithKey_sent:
  assumes "SendWithKey parse lib (scripted reply interrupt) \<lparr>wk_Client = Some c, wk_URL = url\<rparr> event key
      \<lparr>wi_Sent = [], wi_Waited = []\<rparr> = (x, w)"
  obtains (none) e where "x = Inl e" "wi_Sent w = []"
  | (some) r where "posts_event parse lib url event r" "key_of r = key" "chained lib reply r 0 (wi_Sent w)"
      "length (wi_Sent w) \<le> (if no_redirects reply then 1 else 10) * nat (max 1 (tc_Retry c))"
      "\<forall>q\<in>set (wi_Sent w). key_of q = key"
      "x = Inr () \<longrightarrow> (\<exists>n resp. length (wi_Sent w) = Suc n \<and> reply n = Inr resp \<and> 200 \<le> hp_Status resp \<and> hp_Status resp < 300)"
proof -
  let ?c = "c\<lparr>tc_BaseURL := trim_right_slash url\<rparr>"
  let ?req = "\<lparr>rq_Method = ''POST'', rq_Path = [], rq_Body = Some event,
    rq_Headers = (if key \<noteq> [] then [(''Idempotency-Key'', key)] else [])\<rparr>"
  let ?do = "Client_Do lib (scripted reply interrupt) False ?c ?req \<lparr>wi_Sent = [], wi_Waited = []\<rparr>"
  show thesis
  proof (cases "CheckURL parse url")
    case (Inl e)
    with assms have "x = Inl e" "wi_Sent w = []" by (auto simp: SendWithKey_def)
    then show ?thesis by (rule none)
  next
    case (Inr u)
    then have https: "\<exists>host. parse url = Inr (''https'', host) \<and> host \<noteq> []"
      by (auto simp: CheckURL_def split: sum.splits prod.splits if_splits)
    have out: "w = snd ?do" "x = Inr () \<Longrightarrow> \<exists>o'. fst ?do = Inr o'" "\<And>e. fst ?do = Inl e \<Longrightarrow> x = Inl e"
      using assms Inr by (auto simp: SendWithKey_def and_then_def split: prod.splits sum.splits)
    consider (nothing) e where "?do = (Inl e, \<lparr>wi_Sent = [], wi_Waited = []\<rparr>)"
      | (sends) target encoded where "lb_Join lib (trim_right_slash url) [] = Inr target" "lb_Marshal lib event = Inr encoded"
          "lb_BadRequest lib ''POST'' target = None"
      by (rule Client_Do_cases [of lib "scripted reply interrupt" False ?c ?req "\<lparr>wi_Sent = [], wi_Waited = []\<rparr>"])
        (auto simp: encode_body_def)
    then show ?thesis
    proof cases
      case nothing
      with out show ?thesis by (intro none) auto
    next
      case sends
      let ?r = "request_of ?c ?req ''POST'' target encoded"
      have post: "posts_event parse lib url event ?r" using sends https by (simp add: posts_event_def request_of_def Let_def)
      have key: "key_of ?r = key"
        by (simp add: key_of_def request_of_def header_get_set Let_def) (simp add: header_get_def)
      have n: "(if tc_Retry c < 1 then 1 else tc_Retry c) = max 1 (tc_Retry c)" by simp
      have "attempt_loop (scripted reply interrupt) None (verdict (lb_Decode lib) False) (tc_Backoff c)
          (http_Do lib (scripted reply interrupt) ?r) (nat (max 1 (tc_Retry c))) 1 None \<lparr>wi_Sent = [], wi_Waited = []\<rparr> = (fst ?do, w)"
        using sends out(1) n by (simp add: Client_Do_def encode_body_def Let_def)
      from attempt_loop_sent [OF this] obtain qs where qs: "wi_Sent w = qs"
          "length qs \<le> (if no_redirects reply then 1 else 10) * nat (max 1 (tc_Retry c))" "chained lib reply ?r 0 qs"
          "\<forall>q\<in>set qs. key_of q = key_of ?r"
          "\<forall>y. fst ?do = Inr y \<longrightarrow> qs \<noteq> [] \<and> (\<exists>resp. verdict (lb_Decode lib) False (Inr resp) = Settled (Inr y) \<and>
             reply (length (wi_Sent w) - 1) = Inr resp) \<or> (\<exists>e. verdict (lb_Decode lib) False (Inl e) = Settled (Inr y))"
        by auto
      have "x = Inr () \<longrightarrow> (\<exists>n resp. length qs = Suc n \<and> reply n = Inr resp \<and> 200 \<le> hp_Status resp \<and> hp_Status resp < 300)"
      proof
        assume "x = Inr ()"
        from out(2) [OF this] obtain y where "fst ?do = Inr y" by blast
        with qs(5) obtain resp where "qs \<noteq> []" "verdict (lb_Decode lib) False (Inr resp) = Settled (Inr y)"
            "reply (length qs - 1) = Inr resp"
          using verdict_success [of "lb_Decode lib" False "Inl e" y for e] unfolding qs(1) by fastforce
        with verdict_success [OF this(2)]
        show "\<exists>n resp. length qs = Suc n \<and> reply n = Inr resp \<and> 200 \<le> hp_Status resp \<and> hp_Status resp < 300"
          by (intro exI [of _ "length qs - 1"] exI [of _ resp]) (cases qs; simp)
      qed
      with qs post key show ?thesis by (intro some [of ?r]) (simp_all only: simp_thms)
    qed
  qed
qed

lemma chained_plain: "chained lib reply r k qs \<Longrightarrow> no_redirects reply \<Longrightarrow> q \<in> set qs \<Longrightarrow> q = r"
  unfolding chained_def no_redirects_def redirects_def in_set_conv_nth using redirect_status by (metis option.distinct(1))


text \<open>A server that fails twice and then accepts.\<close>

definition plain_library :: "(string, string) library" where
  "plain_library = \<lparr>lb_Join = (\<lambda>base path. Inr (base @ path)), lb_Marshal = Inr, lb_BadRequest = (\<lambda>_ _. None),
     lb_Decode = (\<lambda>b. Inr (hb_Data b)), lb_Resolve = (\<lambda>_ loc. Inr loc), lb_Trusts = (=), lb_Referer = (\<lambda>_ _ r. r),
     lb_URLError = (\<lambda>_ _ e. e)\<rparr>"

definition answer :: "int \<Rightarrow> http_response" where
  "answer status = \<lparr>hp_Status = status, hp_Header = Map.empty,
     hp_Body = \<lparr>hb_Data = ''{}'', hb_ReadErr = None, hb_CloseErr = None\<rparr>\<rparr>"

definition recovering :: "nat \<Rightarrow> err + http_response" where
  "recovering i = (if i = 0 then Inl (ErrorString ''refused'') else if i = 1 then Inr (answer 503) else Inr (answer 202))"

definition secure :: "string \<Rightarrow> err + string \<times> string" where
  "secure url = (if take 8 url = ''https://'' then Inr (''https'', drop 8 url) else Inl (ErrorString ''no https URL''))"

lemma recovering_plain: "no_redirects recovering"
  by (auto simp: no_redirects_def recovering_def answer_def)

lemma verdict_recovering:
  "verdict (lb_Decode lib) False (reported lib r recovering i) =
     (if i = 0 then TryAgain (lb_URLError lib (hq_Method r) (hq_URL r) (ErrorString ''refused'')) else if i = 1 then TryAgain (ErrorString (''remote status '' @ show_int 503)) else Settled (Inr None))"
  by (simp add: reported_def recovering_def verdict_def answer_def drainAndClose_def)


text \<open>
  A receiver that redirects: with status 307 the event goes to another host over plain http, and with status 302 the
  event is not sent again at all, the answer to a \<^verbatim>\<open>GET\<close> of another page making the delivery a success.
\<close>

definition redirecting :: "int \<Rightarrow> nat \<Rightarrow> err + http_response" where
  "redirecting status i = Inr (if i = 0 then (answer status)\<lparr>hp_Header := [''Location'' \<mapsto> ''http://other'']\<rparr> else answer 200)"

definition redirected_delivery :: "int \<Rightarrow> (err + unit) \<times> wire" where
  "redirected_delivery status = SendWithKey secure plain_library (scripted (redirecting status) (\<lambda>_. None))
     \<lparr>wk_Client = Some (NewClient []), wk_URL = ''https://hub''\<rparr> ''{}'' ''k1'' \<lparr>wi_Sent = [], wi_Waited = []\<rparr>"

lemma redirecting_Do:
  assumes "redirect_behavior (hq_Method r) status = Some (m, keep)"
  shows "http_Do plain_library (scripted (redirecting status) interrupt) r \<lparr>wi_Sent = [], wi_Waited = []\<rparr> =
    (Inr (answer 200), \<lparr>wi_Sent = [r, redirected plain_library r r m ''http://other'' (hq_URL r \<noteq> ''http://other'') keep], wi_Waited = []\<rparr>)"
  unfolding http_Do_def
  by (subst follow_redirects.simps, subst scripted_def)
    (simp add: redirecting_def assms header_get_def answer_def plain_library_def eval_nat_numeral Let_def,
     simp add: follow_redirects.simps scripted_def redirecting_def answer_def redirect_behavior_def)

lemma redirected_delivery_outcome:
  assumes "redirect_behavior ''POST'' status = Some (m, keep)"
  shows "redirected_delivery status = (Inr (), \<lparr>wi_Sent =
    (let r = request_of ((NewClient [])\<lparr>tc_BaseURL := ''https://hub''\<rparr>) \<lparr>rq_Method = ''POST'', rq_Path = [], rq_Body = Some ''{}'',
          rq_Headers = [(''Idempotency-Key'', ''k1'')]\<rparr> ''POST'' ''https://hub'' ''{}''
     in [r, redirected plain_library r r m ''http://other'' True keep]), wi_Waited = []\<rparr>)"
proof -
  have url: "CheckURL secure ''https://hub'' = Inr ()" "trim_right_slash ''https://hub'' = ''https://hub''"
    by code_simp+
  let ?c = "(NewClient [])\<lparr>tc_BaseURL := ''https://hub''\<rparr>"
  let ?req = "\<lparr>rq_Method = ''POST'', rq_Path = [], rq_Body = Some ''{}'', rq_Headers = [(''Idempotency-Key'', ''k1'')]\<rparr>"
  let ?r = "request_of ?c ?req ''POST'' ''https://hub'' ''{}''"
  have r: "hq_Method ?r = ''POST''" "hq_URL ?r = ''https://hub''" by (simp_all add: request_of_def Let_def)
  have judge: "verdict (lb_Decode plain_library) False (Inr (answer 200)) = Settled (Inr None)"
    by (simp add: verdict_def answer_def drainAndClose_def)
  have retry: "nat (if tc_Retry ?c < 1 then 1 else tc_Retry ?c) = Suc 2" by (simp add: NewClient_def)
  have lib: "lb_Join plain_library ''https://hub'' [] = Inr ''https://hub''" "lb_Marshal plain_library ''{}'' = Inr ''{}''"
      "lb_BadRequest plain_library ''POST'' ''https://hub'' = None"
    by (simp_all add: plain_library_def)
  have "Client_Do plain_library (scripted (redirecting status) (\<lambda>_. None)) False ?c ?req \<lparr>wi_Sent = [], wi_Waited = []\<rparr> =
      (Inr None, \<lparr>wi_Sent = [?r, redirected plain_library ?r ?r m ''http://other'' True keep], wi_Waited = []\<rparr>)"
    using redirecting_Do [of ?r status m keep "\<lambda>_. None"] assms
    unfolding Client_Do_def Let_def retry by (simp add: lib encode_body_def r judge numeral_3_eq_3)
  then show ?thesis by (simp add: redirected_delivery_def SendWithKey_def url and_then_def Let_def)
qed

lemma redirect_leaves_https:
  "fst (redirected_delivery 307) = Inr () \<and>
   map (\<lambda>r. (hq_Method r, hq_URL r, hq_Body r, key_of r)) (wi_Sent (snd (redirected_delivery 307))) =
     [(''POST'', ''https://hub'', ''{}'', ''k1''), (''POST'', ''http://other'', ''{}'', ''k1'')]"
  by (subst (1 2) redirected_delivery_outcome [of 307 "''POST''" True])
    (simp_all add: redirect_behavior_def Let_def redirected_key,
      simp add: request_of_def redirected_def key_of_def header_get_set Let_def)

lemma redirect_skips_post:
  "fst (redirected_delivery 302) = Inr () \<and>
   map (\<lambda>r. (hq_Method r, hq_URL r, hq_Body r, key_of r)) (wi_Sent (snd (redirected_delivery 302))) =
     [(''POST'', ''https://hub'', ''{}'', ''k1''), (''GET'', ''http://other'', [], ''k1'')]"
  by (subst (1 2) redirected_delivery_outcome [of 302 "''GET''" False])
    (simp_all add: redirect_behavior_def Let_def redirected_key,
      simp add: request_of_def redirected_def key_of_def header_get_set Let_def)

section \<open>Envelopes, streams and delays\<close>

text \<open>An envelope decodes to what was encoded, given that JSON carries the data and the envelope.\<close>

lemma envelope_roundtrip:
  assumes "EncodeEnvelope marshal_data marshal requestID data = Inr raw"
    and "\<And>p. marshal_data data = Inr p \<Longrightarrow> p \<noteq> [] \<and> unmarshal_data p = Inr data"
    and "\<And>e t. marshal e = Inr t \<Longrightarrow> unmarshal t = Inr e"
  shows "DecodeEnvelope unmarshal unmarshal_data raw = (requestID, Some data, None)"
proof -
  obtain p where p: "marshal_data data = Inr p" "trim_space requestID \<noteq> []"
      "marshal \<lparr>en_RequestID = requestID, en_Data = p, en_Error = None\<rparr> = Inr raw"
    using assms(1) by (auto simp: EncodeEnvelope_def split: if_splits sum.splits)
  then have "requestID \<noteq> []" by auto
  with p assms(2) [OF p(1)] assms(3) [OF p(3)] show ?thesis by (simp add: DecodeEnvelope_def)
qed

text \<open>At the greatest limit the successor wraps around: nothing is read, and no error is reported.\<close>

lemma DecodeAll_limit_wraps:
  "DecodeAll values_of (\<lambda>_. None) (Some b) max_i64 (Some []) =
     (case values_of [] of (vs, problem) \<Rightarrow> (case collect (\<lambda>_. None) 0 vs problem [] of (ts, e) \<Rightarrow> (Some ts, e)))"
proof -
  have "wrap64 (max_i64 + 1) = min_i64" by (simp add: wrap64_def max_i64_def min_i64_def)
  then show ?thesis by (simp add: DecodeAll_def read_all_def Let_def max_i64_def min_i64_def)
qed

text \<open>A stream yields its values in order up to the first that comes after the end of the context.\<close>

lemma collect_calm: "collect (\<lambda>_. None) k vs problem ts = (ts @ vs, problem)"
  by (induction vs arbitrary: k ts) auto

text \<open>The seconds of a header, and how their multiplication by a second wraps around.\<close>

lemma strip_any_head:
  assumes "\<forall>p\<in>set ps. p = [] \<or> hd p \<noteq> c"
  shows "strip_any (filter (\<lambda>p. p \<noteq> []) ps) (c # cs) = None"
proof -
  have "\<not> strip_prefix p (c # cs) \<noteq> None" if "p \<in> set (filter (\<lambda>p. p \<noteq> []) ps)" for p
    using that assms by (auto simp: neq_Nil_conv)
  then have "filter (\<lambda>p. strip_prefix p (c # cs) \<noteq> None) (filter (\<lambda>p. p \<noteq> []) ps) = []"
    by (intro filter_False ballI)
  then show ?thesis unfolding strip_any_def by (simp del: filter_filter)
qed

lemma trim_by_digits:
  assumes "list_all is_digit s" "\<forall>p\<in>set ps. p = [] \<or> \<not> is_digit (hd p)"
  shows "trim_by ps s = s"
proof (cases s)
  case Nil
  have "strip_any qs [] = None" if "[] \<notin> set qs" for qs :: "string list"
  proof -
    have "strip_prefix p [] = None" if "p \<in> set qs" for p
      using that \<open>[] \<notin> set qs\<close> by (metis neq_Nil_conv strip_prefix.simps(2))
    then have "filter (\<lambda>p. strip_prefix p [] \<noteq> None) qs = []" by (simp add: filter_empty_conv)
    then show ?thesis by (simp add: strip_any_def)
  qed
  then have "strip_any (filter (\<lambda>p. p \<noteq> []) ps) [] = None" by simp
  with Nil show ?thesis by (simp add: trim_by.simps)
next
  case (Cons c cs)
  with assms have "\<forall>p\<in>set ps. p = [] \<or> hd p \<noteq> c" by auto
  then show ?thesis using strip_any_head [of ps c cs] by (simp add: Cons trim_by.simps [of ps "c # cs"])
qed

lemma trim_space_digits: "list_all is_digit s \<Longrightarrow> trim_space s = s"
proof -
  assume s: "list_all is_digit s"
  have "\<forall>p\<in>set space_runes. p = [] \<or> \<not> is_digit (hd p)" "\<forall>p\<in>set (map rev space_runes). p = [] \<or> \<not> is_digit (hd p)"
    by (simp_all add: space_runes_def is_digit_def)
  then show ?thesis using s by (simp add: trim_space_def trim_by_digits list_all_iff)
qed

lemma is_digit_show_nat: "list_all is_digit (show_nat n)"
  using show_nat_chars [of _ n] by (fastforce simp: list_all_iff is_digit_def of_char_digit)

lemma scan_d_show_nat:
  assumes "int n \<le> max_i64"
  shows "scan_d (show_nat n) = Some (int n)"
proof -
  obtain c cs where s: "show_nat n = c # cs" using show_nat_nonempty by (metis list.exhaust)
  with is_digit_show_nat [of n] have d: "is_digit c" "list_all is_digit (c # cs)" by simp_all
  then have "c \<noteq> CHR ''-''" "c \<noteq> CHR ''+''" by (auto simp: is_digit_def)
  moreover have "takeWhile is_digit (c # cs) = c # cs"
    using d(2) by (simp add: takeWhile_eq_all_conv list_all_iff)
  ultimately show ?thesis using atoi_show_nat [OF assms] unfolding scan_d_def s Let_def by simp
qed

lemma RetryAfter_seconds:
  assumes "hp_Header r (canonical_key ''Retry-After'') = Some (show_nat n)" "int n \<le> max_i64"
  shows "RetryAfter parse_time now (Some r) fallback = wrap64 (int n * second)"
  using assms by (simp add: RetryAfter_def header_get_def Let_def trim_space_digits is_digit_show_nat scan_d_show_nat)

text \<open>A number of seconds beyond the range of a duration gives a negative delay.\<close>

lemma RetryAfter_overflows:
  assumes "hp_Header r (canonical_key ''Retry-After'') = Some (show_nat 9223372037)"
  shows "RetryAfter parse_time now (Some r) fallback < 0"
  using RetryAfter_seconds [OF assms] by (simp add: wrap64_def max_i64_def)

end
