(* ===== verification/Config.thy ===== *)
theory Config
  imports Transport
begin

text \<open>
  \<^verbatim>\<open>internal/config\<close>: the configuration of the server from the environment (\<^verbatim>\<open>config.go\<close>), the
  runtime configuration (\<^verbatim>\<open>validate.go\<close>) and their checks (\<^verbatim>\<open>validation.go\<close>). The environment is a
  function; \<^verbatim>\<open>url.Parse\<close> yields the scheme and the host or fails, and \<^verbatim>\<open>time.ParseDuration\<close> is an
  argument.
\<close>

type_synonym url_parser = "string \<Rightarrow> err + string \<times> string"

section \<open>Listen addresses\<close>

text \<open>\<^verbatim>\<open>net.SplitHostPort\<close>: the host and the port, or \<open>None\<close> for its errors.\<close>

definition split_last_colon :: "string \<Rightarrow> (string \<times> string) option" where
  "split_last_colon s =
     (if CHR '':'' \<in> set s
      then Some (rev (tl (dropWhile (\<lambda>c. c \<noteq> CHR '':'') (rev s))), rev (takeWhile (\<lambda>c. c \<noteq> CHR '':'') (rev s)))
      else None)"

definition SplitHostPort :: "string \<Rightarrow> (string \<times> string) option" where
  "SplitHostPort s =
     (case split_last_colon s of
        None \<Rightarrow> None
      | Some (before, port) \<Rightarrow>
          (case s of
             [] \<Rightarrow> None
           | c # rest \<Rightarrow>
               if c = CHR ''[''
               then (let host = takeWhile (\<lambda>d. d \<noteq> CHR '']'') rest in
                     if CHR '']'' \<notin> set rest \<or> before \<noteq> c # host @ '']'' \<or> CHR ''['' \<in> set host \<or>
                        CHR ''['' \<in> set port \<or> CHR '']'' \<in> set port
                     then None else Some (host, port))
               else if CHR '':'' \<in> set before \<or> CHR ''['' \<in> set s \<or> CHR '']'' \<in> set s then None
               else Some (before, port)))"

definition validateListenAddr :: "string \<Rightarrow> err + unit" where
  "validateListenAddr raw =
     (case SplitHostPort raw of
        None \<Rightarrow> Inl (ErrorString ''HTTP_ADDR must be a host:port address'')
      | Some (host, port) \<Rightarrow>
          (case atoi port of
             None \<Rightarrow> Inl (ErrorString ''HTTP_ADDR port must be between 1 and 65535'')
           | Some v \<Rightarrow> if v < 1 \<or> v > 65535 then Inl (ErrorString ''HTTP_ADDR port must be between 1 and 65535'') else Inr ()))"

section \<open>validation.go\<close>

definition ValidateDatabaseURL :: "url_parser \<Rightarrow> string \<Rightarrow> err + unit" where
  "ValidateDatabaseURL parse raw =
     (if trim_space raw = [] then Inl (ErrorString ''database URL is empty'')
      else case parse raw of
        Inl e \<Rightarrow> Inl (ErrorString ''DATABASE_URL must use postgres scheme'')
      | Inr (scheme, host) \<Rightarrow>
          if scheme \<noteq> ''postgres'' then Inl (ErrorString ''DATABASE_URL must use postgres scheme'')
          else if host = [] then Inl (ErrorString ''DATABASE_URL host is missing'')
          else Inr ())"

definition ValidateHTTPAddr :: "string \<Rightarrow> err + unit" where
  "ValidateHTTPAddr addr = validateListenAddr (trim_space addr)"

definition ValidateShutdown :: "duration \<Rightarrow> err + unit" where
  "ValidateShutdown timeout =
     (if timeout < second \<or> timeout > 5 * minute
      then Inl (ErrorString ''shutdown timeout outside supported range'') else Inr ())"

text \<open>\<open>redact\<close> parses a URL and renders it, with the password of its user, if it has one, replaced.\<close>

definition RedactURL :: "(string \<Rightarrow> err + 'u) \<Rightarrow> ('u \<Rightarrow> string option) \<Rightarrow> ('u \<Rightarrow> string \<Rightarrow> string \<Rightarrow> 'u) \<Rightarrow> ('u \<Rightarrow> string) \<Rightarrow> string \<Rightarrow> string" where
  "RedactURL parse user_of with_password render raw =
     (case parse raw of
        Inl e \<Rightarrow> ''<invalid>''
      | Inr v \<Rightarrow> render (case user_of v of None \<Rightarrow> v | Some name \<Rightarrow> with_password v name ''redacted''))"

section \<open>config.go\<close>

record config =
  cf_DatabaseURL :: string
  cf_HTTPAddr :: string
  cf_WorkerCount :: int
  cf_RetryLimit :: int
  cf_OutboxWebhookURL :: string
  cf_ShutdownTimeout :: duration

text \<open>A variable that is not set is empty.\<close>

definition envOr :: "(string \<Rightarrow> string) \<Rightarrow> string \<Rightarrow> string \<Rightarrow> string" where
  "envOr getenv key fallback = (if getenv key \<noteq> [] then getenv key else fallback)"

definition boundedIntEnv :: "(string \<Rightarrow> string) \<Rightarrow> string \<Rightarrow> int \<Rightarrow> int \<Rightarrow> int \<Rightarrow> err + int" where
  "boundedIntEnv getenv key fallback lo hi =
     (let raw = trim_space (getenv key);
          problem = ErrorString (key @ '' must be between '' @ show_int lo @ '' and '' @ show_int hi) in
      if raw = [] then Inr fallback
      else case atoi raw of
        None \<Rightarrow> Inl problem
      | Some v \<Rightarrow> if v < lo \<or> v > hi then Inl problem else Inr v)"

text \<open>The checks of a configuration that was read, in their order.\<close>

definition check_config :: "url_parser \<Rightarrow> config \<Rightarrow> err + config" where
  "check_config parse c =
     (if cf_DatabaseURL c = [] then Inl (ErrorString ''DATABASE_URL is required'')
      else case ValidateDatabaseURL parse (cf_DatabaseURL c) of
        Inl e \<Rightarrow> Inl e
      | Inr _ \<Rightarrow>
          (case validateListenAddr (cf_HTTPAddr c) of
             Inl e \<Rightarrow> Inl e
           | Inr _ \<Rightarrow>
               if cf_OutboxWebhookURL c = [] then Inr c
               else
                 (let problem = ErrorString ''OUTBOX_WEBHOOK_URL must be an absolute HTTPS URL'' in
                  case parse (cf_OutboxWebhookURL c) of
                    Inl e \<Rightarrow> Inl problem
                  | Inr (scheme, host) \<Rightarrow> if scheme \<noteq> ''https'' \<or> host = [] then Inl problem else Inr c)))"

definition FromEnv :: "url_parser \<Rightarrow> (string \<Rightarrow> string) \<Rightarrow> err + config" where
  "FromEnv parse getenv =
     (case boundedIntEnv getenv ''WORKER_COUNT'' 2 1 64 of
        Inl e \<Rightarrow> Inl e
      | Inr workers \<Rightarrow>
          (case boundedIntEnv getenv ''RETRY_LIMIT'' 5 1 100 of
             Inl e \<Rightarrow> Inl e
           | Inr retries \<Rightarrow>
               (case boundedIntEnv getenv ''SHUTDOWN_TIMEOUT_SECONDS'' 15 1 300 of
                  Inl e \<Rightarrow> Inl e
                | Inr seconds \<Rightarrow>
                    check_config parse
                      \<lparr>cf_DatabaseURL = trim_space (getenv ''DATABASE_URL''),
                       cf_HTTPAddr = trim_space (envOr getenv ''HTTP_ADDR'' '':8080''),
                       cf_WorkerCount = workers, cf_RetryLimit = retries,
                       cf_OutboxWebhookURL = trim_space (getenv ''OUTBOX_WEBHOOK_URL''),
                       cf_ShutdownTimeout = wrap64 (seconds * second)\<rparr>)))"

section \<open>validate.go\<close>

record runtime =
  rn_DatabaseURL :: string
  rn_HTTPAddr :: string
  rn_Shutdown :: duration
  rn_WorkerCount :: int
  rn_LogLevel :: string

definition load_workers :: "(string \<Rightarrow> string) \<Rightarrow> runtime \<Rightarrow> err + runtime" where
  "load_workers getenv r =
     (let raw = trim_space (getenv ''WORKER_COUNT''); problem = ErrorString ''WORKER_COUNT must be between 1 and 64'' in
      if raw = [] then Inr r
      else case atoi raw of
        None \<Rightarrow> Inl problem
      | Some n \<Rightarrow> if n < 1 \<or> n > 64 then Inl problem else Inr (r\<lparr>rn_WorkerCount := n\<rparr>))"

definition load_shutdown :: "(string \<Rightarrow> duration option) \<Rightarrow> (string \<Rightarrow> string) \<Rightarrow> runtime \<Rightarrow> err + runtime" where
  "load_shutdown parse_duration getenv r =
     (let raw = trim_space (getenv ''SHUTDOWN_TIMEOUT''); problem = ErrorString ''SHUTDOWN_TIMEOUT is invalid'' in
      if raw = [] then Inr r
      else case parse_duration raw of
        None \<Rightarrow> Inl problem
      | Some d \<Rightarrow> if d \<le> 0 \<or> d > 5 * minute then Inl problem else Inr (r\<lparr>rn_Shutdown := d\<rparr>))"

definition load_level :: "(string \<Rightarrow> string) \<Rightarrow> (string \<Rightarrow> string) \<Rightarrow> runtime \<Rightarrow> err + runtime" where
  "load_level u getenv r =
     (let level = to_lower u (trim_space (getenv ''LOG_LEVEL'')) in
      if level = [] then Inr r
      else if level \<noteq> ''debug'' \<and> level \<noteq> ''info'' \<and> level \<noteq> ''warn'' \<and> level \<noteq> ''error''
      then Inl (ErrorString ''LOG_LEVEL is invalid'')
      else Inr (r\<lparr>rn_LogLevel := level\<rparr>))"

abbreviation then_load :: "err + 'a \<Rightarrow> ('a \<Rightarrow> err + 'b) \<Rightarrow> err + 'b" where
  "then_load x f \<equiv> (case x of Inl e \<Rightarrow> Inl e | Inr y \<Rightarrow> f y)"

definition LoadRuntime ::
    "(string \<Rightarrow> string) \<Rightarrow> url_parser \<Rightarrow> (string \<Rightarrow> duration option) \<Rightarrow> (string \<Rightarrow> string) \<Rightarrow> err + runtime" where
  "LoadRuntime u parse parse_duration getenv =
     (let url = trim_space (getenv ''DATABASE_URL''); addr = trim_space (getenv ''HTTP_ADDR'');
          problem = ErrorString ''DATABASE_URL must be a postgres URL'' in
      if url = [] then Inl (ErrorString ''DATABASE_URL is required'')
      else
        (let checked = (case parse url of
               Inl e \<Rightarrow> Inl problem
             | Inr (scheme, host) \<Rightarrow> if scheme \<noteq> ''postgres'' \<or> host = [] then Inl problem else Inr ());
             addr = (if addr = [] then '':8080'' else addr);
             r = \<lparr>rn_DatabaseURL = url, rn_HTTPAddr = addr, rn_Shutdown = 10 * second, rn_WorkerCount = 2, rn_LogLevel = ''info''\<rparr>
         in then_load checked (\<lambda>_. then_load (validateListenAddr addr) (\<lambda>_.
            then_load (load_workers getenv r) (\<lambda>r. then_load (load_shutdown parse_duration getenv r) (load_level u getenv))))))"

definition Runtime_Validate :: "url_parser \<Rightarrow> runtime \<Rightarrow> err + unit" where
  "Runtime_Validate parse r =
     (if trim_space (rn_DatabaseURL r) = [] \<or> trim_space (rn_HTTPAddr r) = [] \<or> rn_Shutdown r \<le> 0 \<or>
         rn_WorkerCount r \<le> 0 \<or> rn_LogLevel r = []
      then Inl (ErrorString ''runtime configuration is incomplete'')
      else then_load (ValidateDatabaseURL parse (rn_DatabaseURL r)) (\<lambda>_. validateListenAddr (rn_HTTPAddr r)))"

section \<open>What is loaded is well formed\<close>

lemma boundedIntEnv_range: "boundedIntEnv getenv key fallback lo hi = Inr v \<Longrightarrow> lo \<le> fallback \<Longrightarrow> fallback \<le> hi \<Longrightarrow> lo \<le> v \<and> v \<le> hi"
  by (auto simp: boundedIntEnv_def Let_def split: if_splits option.splits)

lemma check_config_ok:
  assumes "check_config parse c = Inr c'"
  shows "c' = c \<and> ValidateDatabaseURL parse (cf_DatabaseURL c) = Inr () \<and> validateListenAddr (cf_HTTPAddr c) = Inr () \<and>
    (cf_OutboxWebhookURL c = [] \<or> CheckURL parse (cf_OutboxWebhookURL c) = Inr ())"
  using assms by (auto simp: check_config_def CheckURL_def Let_def split: if_splits sum.splits prod.splits)

lemma FromEnv_ok:
  assumes "FromEnv parse getenv = Inr c"
  shows "1 \<le> cf_WorkerCount c \<and> cf_WorkerCount c \<le> 64 \<and> 1 \<le> cf_RetryLimit c \<and> cf_RetryLimit c \<le> 100 \<and>
    second \<le> cf_ShutdownTimeout c \<and> cf_ShutdownTimeout c \<le> 5 * minute \<and> ValidateShutdown (cf_ShutdownTimeout c) = Inr () \<and>
    (\<exists>host. parse (cf_DatabaseURL c) = Inr (''postgres'', host) \<and> host \<noteq> []) \<and>
    (\<exists>host port v. SplitHostPort (cf_HTTPAddr c) = Some (host, port) \<and> atoi port = Some v \<and> 1 \<le> v \<and> v \<le> 65535) \<and>
    (cf_OutboxWebhookURL c \<noteq> [] \<longrightarrow> CheckURL parse (cf_OutboxWebhookURL c) = Inr ())"
proof -
  from assms obtain w n s where w: "boundedIntEnv getenv ''WORKER_COUNT'' 2 1 64 = Inr w"
      and n: "boundedIntEnv getenv ''RETRY_LIMIT'' 5 1 100 = Inr n"
      and s: "boundedIntEnv getenv ''SHUTDOWN_TIMEOUT_SECONDS'' 15 1 300 = Inr s"
      and c: "check_config parse
        \<lparr>cf_DatabaseURL = trim_space (getenv ''DATABASE_URL''), cf_HTTPAddr = trim_space (envOr getenv ''HTTP_ADDR'' '':8080''),
         cf_WorkerCount = w, cf_RetryLimit = n, cf_OutboxWebhookURL = trim_space (getenv ''OUTBOX_WEBHOOK_URL''),
         cf_ShutdownTimeout = wrap64 (s * second)\<rparr> = Inr c"
    by (auto simp: FromEnv_def split: sum.splits)
  have bounds: "1 \<le> w \<and> w \<le> 64" "1 \<le> n \<and> n \<le> 100" "1 \<le> s \<and> s \<le> 300"
    using boundedIntEnv_range [OF w] boundedIntEnv_range [OF n] boundedIntEnv_range [OF s] by simp_all
  then have "wrap64 (s * second) = s * second" by (intro wrap64_id) (simp_all add: min_i64_def max_i64_def)
  with check_config_ok [OF c] bounds have ok: "cf_WorkerCount c = w" "cf_RetryLimit c = n" "cf_ShutdownTimeout c = s * second"
      "ValidateDatabaseURL parse (cf_DatabaseURL c) = Inr ()" "validateListenAddr (cf_HTTPAddr c) = Inr ()"
      "cf_OutboxWebhookURL c = [] \<or> CheckURL parse (cf_OutboxWebhookURL c) = Inr ()" by auto
  have "\<exists>host. parse (cf_DatabaseURL c) = Inr (''postgres'', host) \<and> host \<noteq> []"
    using ok(4) by (auto simp: ValidateDatabaseURL_def split: if_splits sum.splits prod.splits)
  moreover have "\<exists>host port v. SplitHostPort (cf_HTTPAddr c) = Some (host, port) \<and> atoi port = Some v \<and> 1 \<le> v \<and> v \<le> 65535"
    using ok(5) by (auto simp: validateListenAddr_def split: option.splits prod.splits if_splits)
  ultimately show ?thesis using ok bounds by (auto simp: ValidateShutdown_def)
qed

text \<open>C38. A configuration that FromEnv accepts is within all its bounds, names a Postgres database and a port
  to listen on, and its webhook URL, if there is one, is one that the webhook client sends to.\<close>

theorem config_well_formed:
  assumes "FromEnv parse getenv = Inr c"
  shows "1 \<le> cf_WorkerCount c \<and> cf_WorkerCount c \<le> 64 \<and> 1 \<le> cf_RetryLimit c \<and> cf_RetryLimit c \<le> 100 \<and>
    second \<le> cf_ShutdownTimeout c \<and> cf_ShutdownTimeout c \<le> 5 * minute \<and> ValidateShutdown (cf_ShutdownTimeout c) = Inr () \<and>
    (\<exists>host. parse (cf_DatabaseURL c) = Inr (''postgres'', host) \<and> host \<noteq> []) \<and>
    (\<exists>host port v. SplitHostPort (cf_HTTPAddr c) = Some (host, port) \<and> atoi port = Some v \<and> 1 \<le> v \<and> v \<le> 65535) \<and>
    (cf_OutboxWebhookURL c \<noteq> [] \<longrightarrow> CheckURL parse (cf_OutboxWebhookURL c) = Inr ())"
  by (rule FromEnv_ok [OF assms])

lemma strip_any_None: "strip_any (filter (\<lambda>p. p \<noteq> []) ps) s = None \<longleftrightarrow> (\<forall>p\<in>set ps. p \<noteq> [] \<longrightarrow> strip_prefix p s = None)"
proof -
  have "strip_any qs s = None \<longleftrightarrow> filter (\<lambda>p. strip_prefix p s \<noteq> None) qs = []" for qs
    using filter_eq_ConsD [of "\<lambda>p. strip_prefix p s \<noteq> None" qs] by (auto simp: strip_any_def split: list.split)
  then show ?thesis by (auto simp: filter_empty_conv)
qed

text \<open>Trimming leaves nothing to trim.\<close>

lemma trim_space_idem: "trim_space (trim_space s) = trim_space s"
proof -
  let ?R = "map rev space_runes" and ?l = "trim_by space_runes s"
  let ?t = "trim_space s"
  have t: "?t = rev (trim_by ?R (rev ?l))" by (simp add: trim_space_def)
  obtain q where "rev ?l = q @ trim_by ?R (rev ?l)" using trim_by_suffix by blast
  then have l: "?l = ?t @ rev q" unfolding t by (metis rev_append rev_rev_ident)
  have "strip_prefix p ?t = None" if "p \<in> set space_runes" "p \<noteq> []" for p
  proof (rule ccontr)
    assume "strip_prefix p ?t \<noteq> None"
    then obtain x where "?t = p @ x" by (auto simp: strip_prefix_Some)
    with l have "strip_prefix p ?l = Some (x @ rev q)" by (simp add: strip_prefix_Some)
    moreover have "strip_prefix p ?l = None"
      using trim_by_fixpoint [of space_runes s] that unfolding strip_any_None by blast
    ultimately show False by simp
  qed
  then have "strip_any (filter (\<lambda>p. p \<noteq> []) space_runes) ?t = None" unfolding strip_any_None by blast
  then have "trim_by space_runes ?t = ?t" by (subst trim_by.simps) simp
  moreover have "trim_by ?R (rev ?t) = rev ?t" unfolding t rev_rev_ident by (rule trim_by_idem)
  ultimately show ?thesis by (simp add: trim_space_def [of ?t])
qed

definition sample_parser :: url_parser where
  "sample_parser url =
     (if take 11 url = ''postgres://'' then Inr (''postgres'', drop 11 url)
      else if take 8 url = ''https://'' then Inr (''https'', drop 8 url) else Inl (ErrorString ''unknown scheme''))"

definition sample_environment :: "string \<Rightarrow> string" where
  "sample_environment key =
     (if key = ''DATABASE_URL'' then ''postgres://db'' else if key = ''WORKER_COUNT'' then ''4''
      else if key = ''HTTP_ADDR'' then ''[::1]:9080'' else if key = ''OUTBOX_WEBHOOK_URL'' then ''https://hub'' else [])"

theorem config_well_formed_witness:
  "\<exists>c. FromEnv sample_parser sample_environment = Inr c \<and> cf_WorkerCount c \<le> 64 \<and>
     CheckURL sample_parser (cf_OutboxWebhookURL c) = Inr ()"
proof -
  let ?c = "\<lparr>cf_DatabaseURL = ''postgres://db'', cf_HTTPAddr = ''[::1]:9080'', cf_WorkerCount = 4, cf_RetryLimit = 5,
    cf_OutboxWebhookURL = ''https://hub'', cf_ShutdownTimeout = 15 * second\<rparr>"
  have "FromEnv sample_parser sample_environment = Inr ?c" by code_simp
  with config_well_formed [OF this] show ?thesis by simp
qed

text \<open>A runtime configuration that is loaded passes its own validation.\<close>

lemma LoadRuntime_validates:
  assumes "LoadRuntime u parse parse_duration getenv = Inr r"
  shows "Runtime_Validate parse r = Inr () \<and> rn_Shutdown r \<le> 5 * minute \<and> rn_WorkerCount r \<le> 64"
proof -
  let ?url = "trim_space (getenv ''DATABASE_URL'')" and ?addr = "trim_space (getenv ''HTTP_ADDR'')"
  let ?a = "if ?addr = [] then '':8080'' else ?addr"
  let ?r = "\<lparr>rn_DatabaseURL = ?url, rn_HTTPAddr = ?a, rn_Shutdown = 10 * second, rn_WorkerCount = 2, rn_LogLevel = ''info''\<rparr>"
  from assms obtain host r1 r2 where p: "?url \<noteq> []" "parse ?url = Inr (''postgres'', host)" "host \<noteq> []" "validateListenAddr ?a = Inr ()"
      and steps: "load_workers getenv ?r = Inr r1" "load_shutdown parse_duration getenv r1 = Inr r2" "load_level u getenv r2 = Inr r"
    by (auto simp: LoadRuntime_def Let_def split: if_splits sum.splits prod.splits)
  have a: "trim_space ?a \<noteq> []" by (simp add: trim_space_idem) code_simp
  have r1: "r1 = ?r\<lparr>rn_WorkerCount := rn_WorkerCount r1\<rparr>" "1 \<le> rn_WorkerCount r1 \<and> rn_WorkerCount r1 \<le> 64"
    using steps(1) by (auto simp: load_workers_def Let_def split: if_splits option.splits)
  have r2: "r2 = r1\<lparr>rn_Shutdown := rn_Shutdown r2\<rparr>" "0 < rn_Shutdown r2 \<and> rn_Shutdown r2 \<le> 5 * minute"
    using steps(2) arg_cong [OF r1(1), of rn_Shutdown] by (auto simp: load_shutdown_def Let_def split: if_splits option.splits)
  have r3: "r = r2\<lparr>rn_LogLevel := rn_LogLevel r\<rparr>" "rn_LogLevel r \<noteq> []"
    using steps(3) arg_cong [OF r1(1), of rn_LogLevel] arg_cong [OF r2(1), of rn_LogLevel]
    by (auto simp: load_level_def Let_def split: if_splits)
  have fields: "rn_DatabaseURL r = ?url" "rn_HTTPAddr r = ?a" "rn_Shutdown r = rn_Shutdown r2" "rn_WorkerCount r = rn_WorkerCount r1"
    by (subst r3(1), subst r2(1), subst r1(1), simp)+
  have "ValidateDatabaseURL parse ?url = Inr ()" using p(1-3) by (simp add: ValidateDatabaseURL_def trim_space_idem)
  with fields a p r1(2) r2(2) r3(2) show ?thesis
    unfolding Runtime_Validate_def fields by (simp add: trim_space_idem)
qed

end
