(* ===== verification/Migrations.thy ===== *)
theory Migrations
  imports Database "HOL-Library.List_Lexorder" "HOL-Library.Char_ord"
begin

text \<open>
  The rest of \<^verbatim>\<open>internal/db\<close>: opening the pool, the migrations embedded in the program and the health
  check. What the text of a migration does to the schema is a parameter, \<open>run_sql\<close>: the server rejects
  it or yields the new schema.
\<close>

section \<open>Opening and checking\<close>

text \<open>\<open>connect\<close> is \<^verbatim>\<open>sql.Open\<close>, \<open>ping\<close> the first round trip.\<close>

definition Open :: "err + 'c \<Rightarrow> ('c \<Rightarrow> err option) \<Rightarrow> err + 'c" where
  "Open connect ping =
     (case connect of
        Inl e \<Rightarrow> Inl (wrap_op ''open postgres'' e)
      | Inr db \<Rightarrow> (case ping db of Some e \<Rightarrow> Inl (wrap_op ''ping postgres'' e) | None \<Rightarrow> Inr db))"

record health_report =
  hr_Reachable :: bool
  hr_Latency :: duration
  hr_Version :: string
  hr_At :: time

text \<open>The clock is read at \<open>started\<close> and \<open>ended\<close> for the latency; \<open>now\<close> is the caller's clock.\<close>

definition Health :: "bool \<Rightarrow> err option \<Rightarrow> err + string \<Rightarrow> time \<Rightarrow> time \<Rightarrow> time \<Rightarrow> health_report \<times> err option" where
  "Health configured ping server_version started ended now =
     (let empty = \<lparr>hr_Reachable = False, hr_Latency = 0, hr_Version = [], hr_At = 0\<rparr> in
      if \<not> configured then (empty, Some (ErrorString ''database is not configured''))
      else case ping of
        Some e \<Rightarrow> (empty\<lparr>hr_Latency := time_sub ended started, hr_At := now\<rparr>, Some e)
      | None \<Rightarrow>
          (case server_version of
             Inl e \<Rightarrow> (empty, Some (wrap_op ''read server version'' e))
           | Inr v \<Rightarrow> (\<lparr>hr_Reachable = True, hr_Latency = time_sub ended started, hr_Version = v, hr_At = now\<rparr>, None)))"

section \<open>The migrated server\<close>

text \<open>A file of the embedded directory \<^verbatim>\<open>migrations\<close>.\<close>

record embedded_file =
  ef_Name :: string
  ef_IsDir :: bool
  ef_Content :: string

text \<open>
  The server as far as migrations go: its schema, whether the table \<^verbatim>\<open>schema_migrations\<close> exists and the
  versions in it, whether the advisory lock is held, and the failures of the calls to come, as in
  \<open>world\<close>. A lock whose holder fails to release it is free once the connection is gone.
\<close>

record 'd migrated =
  mg_Schema :: 'd
  mg_Table :: bool
  mg_Versions :: "string list"
  mg_Locked :: bool
  mg_Faults :: "err option list"

definition server_call :: "('d migrated \<Rightarrow> (err + 'a) \<times> 'd migrated) \<Rightarrow> ('d migrated, 'a) action" where
  "server_call f w =
     (let w' = w\<lparr>mg_Faults := tl (mg_Faults w)\<rparr> in
      case mg_Faults w of Some e # _ \<Rightarrow> (Inl e, w') | _ \<Rightarrow> f w')"

definition round_trip :: "('d migrated, unit) action" where
  "round_trip = server_call (\<lambda>w. (Inr (), w))"

definition advisory_lock :: "('d migrated, unit) action" where
  "advisory_lock = server_call (\<lambda>w. (Inr (), w\<lparr>mg_Locked := True\<rparr>))"

definition advisory_unlock :: "('d migrated, unit) action" where
  "advisory_unlock = server_call (\<lambda>w. (Inr (), w\<lparr>mg_Locked := False\<rparr>))"

definition create_table :: "('d migrated, unit) action" where
  "create_table = server_call (\<lambda>w. (Inr (), w\<lparr>mg_Table := True\<rparr>))"

definition version_exists :: "string \<Rightarrow> ('d migrated, bool) action" where
  "version_exists v = server_call (\<lambda>w. (Inr (v \<in> set (mg_Versions w)), w))"

definition exec_sql :: "(string \<Rightarrow> 'd \<Rightarrow> err + 'd) \<Rightarrow> string \<Rightarrow> ('d migrated, unit) action" where
  "exec_sql run_sql text = server_call (\<lambda>w. case run_sql text (mg_Schema w) of
     Inl e \<Rightarrow> (Inl e, w) | Inr d \<Rightarrow> (Inr (), w\<lparr>mg_Schema := d\<rparr>))"

definition insert_version :: "string \<Rightarrow> ('d migrated, unit) action" where
  "insert_version v = server_call (\<lambda>w.
     if v \<in> set (mg_Versions w) then (Inl (pg_unique ''schema_migrations_pkey''), w)
     else (Inr (), w\<lparr>mg_Versions := mg_Versions w @ [v]\<rparr>))"

section \<open>Migrate\<close>

definition is_sql :: "string \<Rightarrow> bool" where
  "is_sql name \<longleftrightarrow> 4 \<le> length name \<and> drop (length name - 4) name = ''.sql''"

definition migration_files :: "embedded_file list \<Rightarrow> string list" where
  "migration_files entries = sort (map ef_Name (filter (\<lambda>f. \<not> ef_IsDir f \<and> is_sql (ef_Name f)) entries))"

definition ReadFile :: "embedded_file list \<Rightarrow> string \<Rightarrow> err + string" where
  "ReadFile entries name =
     (case map_of (map (\<lambda>f. (ef_Name f, ef_Content f)) (filter (\<lambda>f. \<not> ef_IsDir f) entries)) name of
        None \<Rightarrow> Inl (ErrorString ''file does not exist'') | Some t \<Rightarrow> Inr t)"

text \<open>One migration in its serializable transaction.\<close>

definition migrate_one :: "(string \<Rightarrow> 'd \<Rightarrow> err + 'd) \<Rightarrow> string \<Rightarrow> string \<Rightarrow> ('d migrated, unit) action" where
  "migrate_one run_sql version content w =
     (let undo = (\<lambda>w'. w'\<lparr>mg_Schema := mg_Schema w, mg_Versions := mg_Versions w\<rparr>) in
      case round_trip w of
        (Inl e, w1) \<Rightarrow> (Inl (wrap_op (''begin migration '' @ version) e), w1)
      | (Inr _, w1) \<Rightarrow>
          (case and_then (exec_sql run_sql content) (\<lambda>_. insert_version version) w1 of
             (Inl e, w2) \<Rightarrow> (Inl (wrap_op (''migration '' @ version) e), undo w2)
           | (Inr _, w2) \<Rightarrow>
               (case round_trip w2 of
                  (Inl e, w3) \<Rightarrow> (Inl (wrap_op (''commit migration '' @ version) e), undo w3)
                | (Inr _, w3) \<Rightarrow> (Inr (), w3))))"

definition migrate_version ::
    "(string \<Rightarrow> 'd \<Rightarrow> err + 'd) \<Rightarrow> embedded_file list \<Rightarrow> string \<Rightarrow> ('d migrated, unit) action" where
  "migrate_version run_sql entries version =
     and_then (version_exists version) (\<lambda>applied.
       if applied then ret ()
       else case ReadFile entries version of
         Inl e \<Rightarrow> fail e
       | Inr content \<Rightarrow> migrate_one run_sql version content)"

text \<open>The lock is released, if the call succeeds, whatever the migrations return.\<close>

definition Migrate :: "(string \<Rightarrow> 'd \<Rightarrow> err + 'd) \<Rightarrow> embedded_file list \<Rightarrow> ('d migrated, unit) action" where
  "Migrate run_sql entries =
     and_then (map_err (wrap_op ''acquire migration connection'') round_trip) (\<lambda>_.
     and_then (map_err (wrap_op ''lock migrations'') advisory_lock) (\<lambda>_.
     (\<lambda>w. case and_then create_table (\<lambda>_. for_each (migrate_version run_sql entries) (migration_files entries)) w of
        (r, w') \<Rightarrow> (r, snd (advisory_unlock w')))))"

definition MigrationVersions :: "('d migrated, string list) action" where
  "MigrationVersions = server_call (\<lambda>w.
     if mg_Table w then (Inr (sort (mg_Versions w)), w)
     else (Inl (PgError ''42P01'' ''relation schema_migrations does not exist''), w))"

section \<open>Each migration is applied once and in order\<close>

text \<open>The schema after the given migrations, in that order.\<close>

fun replay :: "(string \<Rightarrow> 'd \<Rightarrow> err + 'd) \<Rightarrow> embedded_file list \<Rightarrow> string list \<Rightarrow> 'd \<Rightarrow> 'd option" where
  "replay run_sql entries [] d = Some d"
| "replay run_sql entries (v # vs) d =
     (case ReadFile entries v of
        Inl _ \<Rightarrow> None
      | Inr t \<Rightarrow> (case run_sql t d of Inl _ \<Rightarrow> None | Inr d' \<Rightarrow> replay run_sql entries vs d'))"

text \<open>A server to which exactly the first \<open>n\<close> migrations were applied, from the schema \<open>base\<close>.\<close>

definition migrated_to ::
    "(string \<Rightarrow> 'd \<Rightarrow> err + 'd) \<Rightarrow> embedded_file list \<Rightarrow> 'd \<Rightarrow> nat \<Rightarrow> 'd migrated \<Rightarrow> bool" where
  "migrated_to run_sql entries base n w \<longleftrightarrow>
     n \<le> length (migration_files entries) \<and> mg_Versions w = take n (migration_files entries) \<and>
     replay run_sql entries (take n (migration_files entries)) base = Some (mg_Schema w)"

lemma replay_snoc:
  "replay run_sql entries (vs @ [v]) d = (case replay run_sql entries vs d of
     None \<Rightarrow> None
   | Some d' \<Rightarrow> (case ReadFile entries v of Inl _ \<Rightarrow> None
     | Inr t \<Rightarrow> (case run_sql t d' of Inl _ \<Rightarrow> None | Inr d'' \<Rightarrow> Some d'')))"
  by (induction vs arbitrary: d) (auto split: sum.splits)

lemma server_call_cases:
  obtains (fault) e where "server_call f w = (Inl e, w\<lparr>mg_Faults := tl (mg_Faults w)\<rparr>)"
    | (run) "server_call f w = f (w\<lparr>mg_Faults := tl (mg_Faults w)\<rparr>)"
  by (cases "mg_Faults w"; cases "hd (mg_Faults w)") (auto simp: server_call_def)

text \<open>What a server call leaves alone.\<close>

definition same_schema :: "'d migrated \<Rightarrow> 'd migrated \<Rightarrow> bool" where
  "same_schema w w' \<longleftrightarrow> mg_Schema w' = mg_Schema w \<and> mg_Versions w' = mg_Versions w"

lemma same_schema_call:
  assumes "\<And>w. same_schema w (snd (f w))"
  shows "same_schema w (snd (server_call f w))"
  using assms [of "w\<lparr>mg_Faults := tl (mg_Faults w)\<rparr>"]
  by (cases rule: server_call_cases [of f w]) (simp_all add: same_schema_def)

lemma same_schema_calls:
  "same_schema w (snd (round_trip w))" "same_schema w (snd (advisory_lock w))"
  "same_schema w (snd (advisory_unlock w))" "same_schema w (snd (create_table w))"
  "same_schema w (snd (version_exists v w))"
  by (simp_all only: round_trip_def advisory_lock_def advisory_unlock_def create_table_def version_exists_def)
    (rule same_schema_call; simp add: same_schema_def)+

lemma version_exists_Inr: "version_exists v w = (Inr b, w') \<Longrightarrow> b = (v \<in> set (mg_Versions w))"
  by (cases rule: server_call_cases [of "\<lambda>w. (Inr (v \<in> set (mg_Versions w)), w)" w]) (auto simp: version_exists_def)

lemma exec_sql_Inr:
  assumes "exec_sql run_sql t w = (Inr x, w')"
  shows "run_sql t (mg_Schema w) = Inr (mg_Schema w') \<and> mg_Versions w' = mg_Versions w"
  using assms unfolding exec_sql_def
  by (cases rule: server_call_cases [of "\<lambda>w. case run_sql t (mg_Schema w) of
      Inl e \<Rightarrow> (Inl e, w) | Inr d \<Rightarrow> (Inr (), w\<lparr>mg_Schema := d\<rparr>)" w]) (auto split: sum.splits)

lemma insert_version_Inr:
  assumes "insert_version v w = (Inr x, w')"
  shows "mg_Versions w' = mg_Versions w @ [v] \<and> mg_Schema w' = mg_Schema w"
  using assms unfolding insert_version_def
  by (cases rule: server_call_cases [of "\<lambda>w. if v \<in> set (mg_Versions w)
      then (Inl (pg_unique ''schema_migrations_pkey''), w)
      else (Inr (), w\<lparr>mg_Versions := mg_Versions w @ [v]\<rparr>)" w]) (auto split: if_splits)

text \<open>One transaction applies its migration as a whole, or leaves schema and versions as they were.\<close>

lemma migrate_one_atomic:
  assumes "migrate_one run_sql v t w = (r, w')"
  shows "case r of
      Inl _ \<Rightarrow> same_schema w w'
    | Inr _ \<Rightarrow> run_sql t (mg_Schema w) = Inr (mg_Schema w') \<and> mg_Versions w' = mg_Versions w @ [v]"
proof -
  obtain r1 w1 where b: "round_trip w = (r1, w1)" by fastforce
  have s1: "same_schema w w1" using same_schema_calls(1) [of w] b by simp
  obtain r2 w2 where x: "and_then (exec_sql run_sql t) (\<lambda>_. insert_version v) w1 = (r2, w2)" by fastforce
  have s2: "run_sql t (mg_Schema w) = Inr (mg_Schema w2) \<and> mg_Versions w2 = mg_Versions w @ [v]" if "r2 = Inr ()"
    using x that s1 by (auto simp: and_then_eq_Inr same_schema_def dest!: exec_sql_Inr insert_version_Inr)
  obtain r3 w3 where c: "round_trip w2 = (r3, w3)" by fastforce
  have s3: "same_schema w2 w3" using same_schema_calls(1) [of w2] c by simp
  show ?thesis
    using assms b x c s1 s2 s3 by (auto simp: migrate_one_def Let_def same_schema_def split: sum.splits)
qed

lemma migrated_to_same: "migrated_to run_sql entries base n w \<Longrightarrow> same_schema w w' \<Longrightarrow> migrated_to run_sql entries base n w'"
  by (simp add: migrated_to_def same_schema_def)

lemma migration_files_distinct: "distinct (map ef_Name entries) \<Longrightarrow> distinct (migration_files entries)"
  by (simp add: migration_files_def distinct_map_filter)

lemma nth_in_take:
  assumes "distinct xs" "k < length xs" "n \<le> length xs"
  shows "xs ! k \<in> set (take n xs) \<longleftrightarrow> k < n"
proof
  assume "k < n"
  with assms show "xs ! k \<in> set (take n xs)" by (auto simp: in_set_conv_nth intro: exI [of _ k])
next
  assume "xs ! k \<in> set (take n xs)"
  then obtain i where i: "i < n" "i < length xs" "xs ! i = xs ! k" by (auto simp: in_set_conv_nth)
  with assms nth_eq_iff_index_eq [of xs i k] show "k < n" by simp
qed

text \<open>The next migration takes the server one step further.\<close>

lemma migrate_next:
  assumes "migrated_to run_sql entries base n w" "n < length (migration_files entries)"
    "ReadFile entries (migration_files entries ! n) = Inr t"
    "run_sql t (mg_Schema w) = Inr (mg_Schema w')" "mg_Versions w' = mg_Versions w @ [migration_files entries ! n]"
  shows "migrated_to run_sql entries base (Suc n) w'"
  using assms by (simp add: migrated_to_def take_Suc_conv_app_nth replay_snoc)

lemma migrate_version_progress:
  assumes "distinct (migration_files entries)" "migrated_to run_sql entries base n w" "k \<le> n" "k < length (migration_files entries)"
    and "migrate_version run_sql entries (migration_files entries ! k) w = (r, w')"
  shows "\<exists>m. n \<le> m \<and> migrated_to run_sql entries base m w' \<and> (r = Inr () \<longrightarrow> k < m)"
proof -
  let ?v = "migration_files entries ! k"
  obtain b w1 where q: "version_exists ?v w = (b, w1)" by fastforce
  have w1: "migrated_to run_sql entries base n w1"
    using migrated_to_same [OF assms(2), of w1] same_schema_calls(5) [of w ?v] q by simp
  have same: ?thesis if "w' = w1 \<or> same_schema w1 w'" "r = Inr () \<Longrightarrow> k < n"
    using that w1 migrated_to_same [OF w1] by (intro exI [of _ n]) auto
  show ?thesis
  proof (cases b)
    case (Inl e)
    with assms(5) q have "w' = w1" "r \<noteq> Inr ()" by (auto simp: migrate_version_def and_then_def)
    with same show ?thesis by simp
  next
    case (Inr applied)
    have "applied = (k < n)"
      using version_exists_Inr [of ?v w] q Inr assms by (auto simp: migrated_to_def nth_in_take)
    with Inr q assms(5) have after: "if k < n then (r, w') = (Inr (), w1)
        else case ReadFile entries ?v of Inl e \<Rightarrow> (r, w') = (Inl e, w1) | Inr t \<Rightarrow> migrate_one run_sql ?v t w1 = (r, w')"
      by (auto simp: migrate_version_def and_then_def split: sum.splits)
    show ?thesis
    proof (cases "k < n")
      case True
      with after same show ?thesis by simp
    next
      case False
      with assms(3) have k: "k = n" by simp
      show ?thesis
      proof (cases "ReadFile entries ?v")
        case (Inl e)
        with after False same show ?thesis by simp
      next
        case (Inr t)
        with after False have run: "migrate_one run_sql ?v t w1 = (r, w')" by simp
        show ?thesis
        proof (cases r)
          case (Inl e)
          with migrate_one_atomic [OF run] same show ?thesis by simp
        next
          case (Inr u)
          with migrate_one_atomic [OF run] migrate_next [OF w1] \<open>ReadFile entries ?v = Inr t\<close> assms(4) k
          have "migrated_to run_sql entries base (Suc n) w'" by simp
          then show ?thesis using k by (intro exI [of _ "Suc n"]) simp
        qed
      qed
    qed
  qed
qed

lemma migrate_all_progress:
  assumes "distinct (migration_files entries)" "migrated_to run_sql entries base n w" "k \<le> n"
    and "for_each (migrate_version run_sql entries) (drop k (migration_files entries)) w = (r, w')"
  shows "\<exists>m\<ge>n. migrated_to run_sql entries base m w' \<and> (r = Inr () \<longrightarrow> m = length (migration_files entries))"
  using assms(2-)
proof (induction "length (migration_files entries) - k" arbitrary: k n w)
  case 0
  then show ?case by (auto simp: migrated_to_def)
next
  case (Suc d)
  then have k: "k < length (migration_files entries)" by simp
  then have drop: "drop k (migration_files entries) = migration_files entries ! k # drop (Suc k) (migration_files entries)"
    by (simp add: Cons_nth_drop_Suc)
  obtain r1 w1 where one: "migrate_version run_sql entries (migration_files entries ! k) w = (r1, w1)" by fastforce
  from migrate_version_progress [OF assms(1) Suc.prems(1,2) k one]
  obtain m where m: "migrated_to run_sql entries base m w1" "r1 = Inr () \<longrightarrow> k < m" "n \<le> m" by blast
  show ?case
  proof (cases r1)
    case (Inl e)
    with one drop Suc.prems(3) m show ?thesis by (auto simp: and_then_def)
  next
    case (Inr u)
    with one drop Suc.prems(3) have "for_each (migrate_version run_sql entries) (drop (Suc k) (migration_files entries)) w1 = (r, w')"
      by (simp add: and_then_def)
    moreover have "d = length (migration_files entries) - Suc k" "Suc k \<le> m" using Suc.hyps(2) m(2) Inr by simp_all
    ultimately show ?thesis using Suc.hyps(1) [of "Suc k" m w1] m(1,3) by (metis order_trans)
  qed
qed

lemma Migrate_progress:
  assumes "distinct (map ef_Name entries)" "migrated_to run_sql entries base n w" "Migrate run_sql entries w = (r, w')"
  shows "\<exists>m\<ge>n. migrated_to run_sql entries base m w' \<and> (r = Inr () \<longrightarrow> m = length (migration_files entries))"
proof -
  let ?body = "and_then create_table (\<lambda>_. for_each (migrate_version run_sql entries) (migration_files entries))"
  obtain a w1 where a: "round_trip w = (a, w1)" by fastforce
  with same_schema_calls(1) [of w] have w1: "migrated_to run_sql entries base n w1"
    using migrated_to_same [OF assms(2)] by simp
  obtain l w2 where l: "advisory_lock w1 = (l, w2)" by fastforce
  with same_schema_calls(2) [of w1] have w2: "migrated_to run_sql entries base n w2"
    using migrated_to_same [OF w1] by simp
  obtain c w3 where c: "create_table w2 = (c, w3)" by fastforce
  with same_schema_calls(4) [of w2] have w3: "migrated_to run_sql entries base n w3"
    using migrated_to_same [OF w2] by simp
  obtain b w4 where b: "?body w2 = (b, w4)" by fastforce
  have w4: "\<exists>m\<ge>n. migrated_to run_sql entries base m w4 \<and> (b = Inr () \<longrightarrow> m = length (migration_files entries))"
  proof (cases c)
    case (Inl e)
    with b c w3 show ?thesis by (auto simp: and_then_def)
  next
    case (Inr u)
    with b c have "for_each (migrate_version run_sql entries) (drop 0 (migration_files entries)) w3 = (b, w4)"
      by (simp add: and_then_def)
    from migrate_all_progress [OF migration_files_distinct [OF assms(1)] w3 _ this] show ?thesis by simp
  qed
  show ?thesis
  proof (cases a)
    case (Inl e)
    with assms(3) a w1 show ?thesis by (auto simp: Migrate_def and_then_def map_err_def)
  next
    case (Inr u)
    show ?thesis
    proof (cases l)
      case (Inl e)
      with \<open>a = Inr u\<close> assms(3) a l w2 show ?thesis by (auto simp: Migrate_def and_then_def map_err_def)
    next
      case (Inr u')
      with \<open>a = Inr u\<close> assms(3) a l b have "r = b" "w' = snd (advisory_unlock w4)"
        by (auto simp: Migrate_def and_then_def map_err_def split: prod.splits)
      with w4 show ?thesis using migrated_to_same [where w = w4, OF _ same_schema_calls(3)] by metis
    qed
  qed
qed

text \<open>Without failures, migrations that the server accepts are all applied.\<close>

lemma replay_append: "replay run_sql entries (xs @ ys) d = Some e \<Longrightarrow> \<exists>d'. replay run_sql entries xs d = Some d'"
  by (induction xs arbitrary: d) (auto split: sum.splits)

lemma server_call_calm: "mg_Faults w = [] \<Longrightarrow> server_call f w = f w"
  by (cases w) (simp add: server_call_def)

lemmas server_calls = round_trip_def advisory_lock_def advisory_unlock_def create_table_def version_exists_def exec_sql_def
  insert_version_def

lemma migrate_version_calm:
  assumes "distinct (migration_files entries)" "migrated_to run_sql entries base n w" "k \<le> n" "k < length (migration_files entries)"
    and "replay run_sql entries (migration_files entries) base = Some d" "mg_Faults w = []"
  shows "\<exists>w' m. migrate_version run_sql entries (migration_files entries ! k) w = (Inr (), w') \<and> mg_Faults w' = [] \<and>
    k < m \<and> migrated_to run_sql entries base m w'"
proof -
  let ?vs = "migration_files entries"
  have known: "?vs ! k \<in> set (mg_Versions w) \<longleftrightarrow> k < n"
    using assms(1,2,4) by (simp add: migrated_to_def nth_in_take)
  show ?thesis
  proof (cases "k < n")
    case True
    with known assms show ?thesis
      by (intro exI [of _ w] exI [of _ n]) (simp add: migrate_version_def and_then_def version_exists_def server_call_calm)
  next
    case False
    with assms(3) have k: "k = n" by simp
    have "?vs = take (Suc k) ?vs @ drop (Suc k) ?vs" by simp
    with assms(5) obtain d' where "replay run_sql entries (take (Suc k) ?vs) base = Some d'"
      by (metis replay_append)
    then obtain t where t: "ReadFile entries (?vs ! k) = Inr t" "run_sql t (mg_Schema w) = Inr d'"
      using assms(2,4) by (auto simp: k migrated_to_def take_Suc_conv_app_nth replay_snoc split: sum.splits)
    let ?w = "w\<lparr>mg_Schema := d', mg_Versions := mg_Versions w @ [?vs ! k]\<rparr>"
    have "migrate_one run_sql (?vs ! k) t w = (Inr (), ?w)"
      using known False t(2) assms(6)
      by (simp add: migrate_one_def server_calls server_call_calm and_then_def Let_def)
    with known False t(1) assms(6) have "migrate_version run_sql entries (?vs ! k) w = (Inr (), ?w)"
      by (simp add: migrate_version_def and_then_def version_exists_def server_call_calm)
    moreover have "migrated_to run_sql entries base (Suc n) ?w"
      using migrate_next [OF assms(2)] assms(4) t by (simp add: k)
    ultimately show ?thesis using k assms(6) by (intro exI [of _ ?w] exI [of _ "Suc n"]) simp
  qed
qed

lemma migrate_all_calm:
  assumes "distinct (migration_files entries)" "migrated_to run_sql entries base n w" "k \<le> n"
    and "replay run_sql entries (migration_files entries) base = Some d" "mg_Faults w = []"
  shows "\<exists>w'. for_each (migrate_version run_sql entries) (drop k (migration_files entries)) w = (Inr (), w') \<and> mg_Faults w' = []"
  using assms(2,3,5)
proof (induction "length (migration_files entries) - k" arbitrary: k n w)
  case 0
  then show ?case by simp
next
  case (Suc j)
  then have k: "k < length (migration_files entries)" by simp
  then have drop: "drop k (migration_files entries) = migration_files entries ! k # drop (Suc k) (migration_files entries)"
    by (simp add: Cons_nth_drop_Suc)
  obtain w1 m where one: "migrate_version run_sql entries (migration_files entries ! k) w = (Inr (), w1)" "mg_Faults w1 = []"
      "k < m" "migrated_to run_sql entries base m w1"
    using migrate_version_calm [OF assms(1) Suc.prems(1,2) k assms(4) Suc.prems(3)] by blast
  with Suc.hyps(1) [OF _ one(4) _ one(2), of "Suc k"] Suc.hyps(2) drop show ?case by (auto simp: and_then_def)
qed

lemma Migrate_calm:
  assumes "distinct (map ef_Name entries)" "migrated_to run_sql entries base n w"
    and "replay run_sql entries (migration_files entries) base = Some d" "mg_Faults w = []"
  shows "\<exists>w'. Migrate run_sql entries w = (Inr (), w') \<and> mg_Schema w' = d \<and> mg_Versions w' = migration_files entries \<and>
    \<not> mg_Locked w'"
proof -
  let ?w = "w\<lparr>mg_Locked := True, mg_Table := True\<rparr>"
  have "migrated_to run_sql entries base n ?w" using assms(2) by (simp add: migrated_to_def)
  from migrate_all_calm [OF migration_files_distinct [OF assms(1)] this, of 0] assms(3,4)
  obtain w1 where w1: "for_each (migrate_version run_sql entries) (migration_files entries) ?w = (Inr (), w1)" "mg_Faults w1 = []"
    by auto
  then have run: "Migrate run_sql entries w = (Inr (), w1\<lparr>mg_Locked := False\<rparr>)"
    using assms(4) by (simp add: Migrate_def and_then_def map_err_def server_calls server_call_calm)
  from Migrate_progress [OF assms(1,2) run] assms(3) run show ?thesis by (auto simp: migrated_to_def)
qed

text \<open>Programs that start one after another, each with its own failures.\<close>

fun restarts :: "(string \<Rightarrow> 'd \<Rightarrow> err + 'd) \<Rightarrow> embedded_file list \<Rightarrow> err option list list \<Rightarrow> 'd migrated \<Rightarrow> (err + unit) list \<times> 'd migrated" where
  "restarts run_sql entries [] w = ([], w)"
| "restarts run_sql entries (fs # fss) w =
     (case Migrate run_sql entries (w\<lparr>mg_Faults := fs\<rparr>) of (r, w') \<Rightarrow>
        case restarts run_sql entries fss w' of (rs, w'') \<Rightarrow> (r # rs, w''))"

lemma restarts_progress:
  assumes "distinct (map ef_Name entries)" "migrated_to run_sql entries base n w" "restarts run_sql entries fss w = (rs, w')"
  shows "\<exists>m. migrated_to run_sql entries base m w' \<and>
    (Inr () \<in> set rs \<or> n = length (migration_files entries) \<longrightarrow> m = length (migration_files entries))"
  using assms(2,3)
proof (induction fss arbitrary: n w rs)
  case Nil
  then show ?case by auto
next
  case (Cons fs fss)
  obtain r w1 where one: "Migrate run_sql entries (w\<lparr>mg_Faults := fs\<rparr>) = (r, w1)" by fastforce
  obtain rs' where rest: "restarts run_sql entries fss w1 = (rs', w')" "rs = r # rs'"
    using Cons.prems(2) one by (auto split: prod.splits)
  have "migrated_to run_sql entries base n (w\<lparr>mg_Faults := fs\<rparr>)" using Cons.prems(1) by (simp add: migrated_to_def)
  from Migrate_progress [OF assms(1) this one]
  obtain m where m: "migrated_to run_sql entries base m w1" "n \<le> m" "r = Inr () \<longrightarrow> m = length (migration_files entries)" by blast
  have "m = length (migration_files entries)" if "n = length (migration_files entries)"
    using m(1,2) that by (simp add: migrated_to_def)
  with Cons.IH [OF m(1) rest(1)] m(3) rest(2) show ?case by auto
qed

text \<open>C10. However often the program starts and at whatever call a start fails, the migrations that were applied are
  the first ones in the order of their names, each applied once, and the schema is what exactly these make of the
  first one; if a start succeeded these are all; and if the server accepts all of them, a start without failures
  succeeds, completes the schema and releases the lock.\<close>

theorem migrations_applied_once:
  assumes "distinct (map ef_Name entries)" "mg_Versions w = []"
    and "restarts run_sql entries fss w = (rs, w')"
  shows "(\<exists>n. mg_Versions w' = take n (migration_files entries)) \<and> distinct (mg_Versions w') \<and>
    replay run_sql entries (mg_Versions w') (mg_Schema w) = Some (mg_Schema w') \<and>
    (Inr () \<in> set rs \<longrightarrow> mg_Versions w' = migration_files entries) \<and>
    (\<forall>d. replay run_sql entries (migration_files entries) (mg_Schema w) = Some d \<longrightarrow>
      (\<exists>w''. Migrate run_sql entries (w'\<lparr>mg_Faults := []\<rparr>) = (Inr (), w'') \<and> mg_Schema w'' = d \<and>
        mg_Versions w'' = migration_files entries \<and> \<not> mg_Locked w''))"
proof -
  have "migrated_to run_sql entries (mg_Schema w) 0 w" using assms(2) by (simp add: migrated_to_def)
  from restarts_progress [OF assms(1) this assms(3)] obtain m
    where m: "migrated_to run_sql entries (mg_Schema w) m w'" "Inr () \<in> set rs \<longrightarrow> m = length (migration_files entries)"
    by blast
  have "migrated_to run_sql entries (mg_Schema w) m (w'\<lparr>mg_Faults := []\<rparr>)" using m(1) by (simp add: migrated_to_def)
  note calm = Migrate_calm [OF assms(1) this]
  from m migration_files_distinct [OF assms(1)] show ?thesis by (auto simp: migrated_to_def intro: calm)
qed

text \<open>Migrations that append their text; the second start fails when it commits the second one.\<close>

definition sample_files :: "embedded_file list" where
  "sample_files = [\<lparr>ef_Name = ''002.sql'', ef_IsDir = False, ef_Content = ''b''\<rparr>,
     \<lparr>ef_Name = ''001.sql'', ef_IsDir = False, ef_Content = ''a''\<rparr>, \<lparr>ef_Name = ''notes.txt'', ef_IsDir = False, ef_Content = ''c''\<rparr>]"

definition sample_server :: "string migrated" where
  "sample_server = \<lparr>mg_Schema = [], mg_Table = False, mg_Versions = [], mg_Locked = False, mg_Faults = []\<rparr>"

definition append_sql :: "string \<Rightarrow> string \<Rightarrow> err + string" where
  "append_sql t d = Inr (d @ t)"

definition sample_restarts :: "(err + unit) list \<times> string migrated" where
  "sample_restarts = restarts append_sql sample_files
     [[Some ErrConflict], replicate 12 None @ [Some ErrConflict]] sample_server"

lemma sample_outcome:
  "mg_Versions (snd sample_restarts) = [''001.sql''] \<and> mg_Schema (snd sample_restarts) = ''a'' \<and>
   replay append_sql sample_files (migration_files sample_files) (mg_Schema sample_server) = Some ''ab''"
  by code_simp

theorem migrations_applied_once_witness:
  "mg_Schema (snd sample_restarts) = ''a'' \<and>
   (\<exists>w''. Migrate append_sql sample_files ((snd sample_restarts)\<lparr>mg_Faults := []\<rparr>) = (Inr (), w'') \<and> mg_Schema w'' = ''ab'' \<and>
     mg_Versions w'' = [''001.sql'', ''002.sql''] \<and> \<not> mg_Locked w'')"
proof -
  have files: "distinct (map ef_Name sample_files)" "migration_files sample_files = [''001.sql'', ''002.sql'']"
      "mg_Versions sample_server = []"
    by code_simp+
  have "restarts append_sql sample_files [[Some ErrConflict], replicate 12 None @ [Some ErrConflict]] sample_server =
      (fst sample_restarts, snd sample_restarts)"
    by (simp add: sample_restarts_def)
  from migrations_applied_once [OF files(1,3) this] sample_outcome files(2) show ?thesis by auto
qed

end
