(* ===== verification/Server_Main.thy ===== *)
theory Server_Main
  imports Config Migrations Worker
begin

text \<open>
  \<^verbatim>\<open>cmd/server/main.go\<close>: the start of the program up to the services it runs, and the publisher that ties
  the outbox to the webhook client; with \<^verbatim>\<open>service/lifecycle.go\<close>. Here the parts meet: configuration and
  migrations, the outbox runner and the transport.
\<close>

section \<open>Publishing over the webhook\<close>

definition outbox_key :: "outbox_message \<Rightarrow> string" where
  "outbox_key m = ''outbox-'' @ show_int (out_ID m)"

definition webhook_Publish ::
    "url_parser \<Rightarrow> (outbox_message, 'o) library \<Rightarrow> 'w network \<Rightarrow> webhook \<Rightarrow> outbox_message \<Rightarrow> ('w, unit) action" where
  "webhook_Publish parse lib nw h m = SendWithKey parse lib nw h m (outbox_key m)"

section \<open>Starting\<close>

text \<open>What runs once the program serves: intervals, limits, the address and the time to shut down.\<close>

record services =
  sr_Workers :: int
  sr_MaintenanceInterval :: duration
  sr_Outbox :: "(webhook \<times> outbox_runner) option"
  sr_Addr :: string
  sr_ShutdownTimeout :: duration

definition services_of :: "config \<Rightarrow> services" where
  "services_of cfg =
     \<lparr>sr_Workers = cf_WorkerCount cfg, sr_MaintenanceInterval = minute,
      sr_Outbox = (if cf_OutboxWebhookURL cfg = [] then None
        else Some (\<lparr>wk_Client = Some (NewClient (cf_OutboxWebhookURL cfg)), wk_URL = cf_OutboxWebhookURL cfg\<rparr>,
          \<lparr>ow_RetryLimit = cf_RetryLimit cfg, ow_PollInterval = 100 * millisecond\<rparr>)),
      sr_Addr = cf_HTTPAddr cfg, sr_ShutdownTimeout = cf_ShutdownTimeout cfg\<rparr>"

text \<open>A start ends with the message it logs before it exits, or with the services and the pool.\<close>

definition start_program ::
    "url_parser \<Rightarrow> (string \<Rightarrow> string) \<Rightarrow> (string \<Rightarrow> err + 'c) \<Rightarrow> ('c \<Rightarrow> err option) \<Rightarrow> (string \<Rightarrow> 'd \<Rightarrow> err + 'd)
       \<Rightarrow> embedded_file list \<Rightarrow> 'd migrated \<Rightarrow> ((string \<times> err) + services \<times> 'c) \<times> 'd migrated" where
  "start_program parse getenv connect ping run_sql files w =
     (case FromEnv parse getenv of
        Inl e \<Rightarrow> (Inl (''invalid config'', e), w)
      | Inr cfg \<Rightarrow>
          (case Open (connect (cf_DatabaseURL cfg)) ping of
             Inl e \<Rightarrow> (Inl (''database open failed'', e), w)
           | Inr pool \<Rightarrow>
               (case Migrate run_sql files w of
                  (Inl e, w') \<Rightarrow> (Inl (''database migration failed'', e), w')
                | (Inr _, w') \<Rightarrow> (Inr (services_of cfg, pool), w'))))"

section \<open>lifecycle.go\<close>

text \<open>
  \<open>li_Done\<close> is when the goroutine ends, if it does. \<^verbatim>\<open>Stop\<close> cancels the context once and waits; when the
  end and the timeout are there at the same time, Go picks either, given by \<open>prefer_done\<close>.
\<close>

record lifecycle_state =
  li_Cancelled :: bool
  li_Cancels :: nat
  li_Done :: "time option"

definition StartLifecycle :: "time option \<Rightarrow> lifecycle_state" where
  "StartLifecycle ends = \<lparr>li_Cancelled = False, li_Cancels = 0, li_Done = ends\<rparr>"

definition Stop :: "bool \<Rightarrow> time \<Rightarrow> duration \<Rightarrow> lifecycle_state \<Rightarrow> err option \<times> lifecycle_state" where
  "Stop prefer_done now timeout l =
     (let l' = (if li_Cancelled l then l else l\<lparr>li_Cancelled := True, li_Cancels := li_Cancels l + 1\<rparr>);
          deadline = now + max 0 timeout;
          stopped = (case li_Done l' of None \<Rightarrow> False
            | Some t \<Rightarrow> max now t < deadline \<or> max now t = deadline \<and> prefer_done)
      in (if stopped then None else Some (ErrorString ''lifecycle stop timeout''), l'))"

text \<open>However often it is stopped, the context is cancelled once.\<close>

lemma Stop_once:
  "li_Cancels (fold (\<lambda>(p, now, d) l. snd (Stop p now d l)) stops (StartLifecycle ends)) = (if stops = [] then 0 else 1)"
proof -
  have "li_Cancelled l \<Longrightarrow> li_Cancels (fold (\<lambda>(p, now, d) l. snd (Stop p now d l)) stops l) = li_Cancels l" for l
    by (induction stops arbitrary: l) (auto simp: Stop_def Let_def)
  then show ?thesis by (cases stops) (auto simp: Stop_def Let_def StartLifecycle_def)
qed

section \<open>Keys\<close>

lemma show_nat_inj: "show_nat m = show_nat n \<longleftrightarrow> m = n"
  by (metis option.inject read_digits_show)

lemma show_int_inj: "0 \<le> a \<Longrightarrow> 0 \<le> b \<Longrightarrow> show_int a = show_int b \<longleftrightarrow> a = b"
  by (auto simp: show_int_def show_nat_inj)

lemma outbox_key_inj: "0 \<le> out_ID m \<Longrightarrow> 0 \<le> out_ID n \<Longrightarrow> outbox_key m = outbox_key n \<longleftrightarrow> out_ID m = out_ID n"
  by (simp add: outbox_key_def show_int_inj)

section \<open>What is delivered was received\<close>

text \<open>The publisher of a round, and the requests it makes, on a network that logs them.\<close>

definition attempts_of ::
    "url_parser \<Rightarrow> (outbox_message, 'o) library \<Rightarrow> (nat \<Rightarrow> err + http_response) \<Rightarrow> (nat \<Rightarrow> err option) \<Rightarrow> webhook
       \<Rightarrow> outbox_message \<Rightarrow> (err + unit) \<times> wire" where
  "attempts_of parse lib reply interrupt h m =
     webhook_Publish parse lib (scripted reply interrupt) h m \<lparr>wi_Sent = [], wi_Waited = []\<rparr>"

definition publisher ::
    "url_parser \<Rightarrow> (outbox_message, 'o) library \<Rightarrow> (nat \<Rightarrow> err + http_response) \<Rightarrow> (nat \<Rightarrow> err option) \<Rightarrow> webhook
       \<Rightarrow> outbox_message \<Rightarrow> err option" where
  "publisher parse lib reply interrupt h m = err_of (fst (attempts_of parse lib reply interrupt h m))"

text \<open>The requests for message \<open>m\<close>.\<close>

definition requests_for ::
    "url_parser \<Rightarrow> (outbox_message, 'o) library \<Rightarrow> (nat \<Rightarrow> err + http_response) \<Rightarrow> (nat \<Rightarrow> err option) \<Rightarrow> webhook
       \<Rightarrow> outbox_message \<Rightarrow> http_request list" where
  "requests_for parse lib reply interrupt h m = wi_Sent (snd (attempts_of parse lib reply interrupt h m))"

lemma requests_for_message:
  assumes "h = \<lparr>wk_Client = Some c, wk_URL = url\<rparr>"
  shows "(\<forall>i<length (requests_for parse lib reply interrupt h m).
      posts_event parse lib url m (requests_for parse lib reply interrupt h m ! i) \<or>
      (\<exists>j. i = Suc j \<and> redirects lib (reply j) (requests_for parse lib reply interrupt h m ! j)
        (requests_for parse lib reply interrupt h m ! i))) \<and>
    (\<forall>q\<in>set (requests_for parse lib reply interrupt h m). key_of q = outbox_key m) \<and>
    (publisher parse lib reply interrupt h m = None \<longrightarrow>
      (\<exists>k resp. length (requests_for parse lib reply interrupt h m) = Suc k \<and> reply k = Inr resp \<and>
        200 \<le> hp_Status resp \<and> hp_Status resp < 300 \<and>
        (no_redirects reply \<longrightarrow> posts_event parse lib url m (requests_for parse lib reply interrupt h m ! k))))"
proof -
  obtain x w where run: "attempts_of parse lib reply interrupt h m = (x, w)" by fastforce
  then have send: "SendWithKey parse lib (scripted reply interrupt) \<lparr>wk_Client = Some c, wk_URL = url\<rparr> m (outbox_key m)
      \<lparr>wi_Sent = [], wi_Waited = []\<rparr> = (x, w)"
    by (simp add: attempts_of_def webhook_Publish_def assms)
  have out: "requests_for parse lib reply interrupt h m = wi_Sent w" "publisher parse lib reply interrupt h m = None \<longleftrightarrow> x = Inr ()"
    using run by (auto simp: requests_for_def publisher_def err_of_def split: sum.split)
  show ?thesis
  proof (cases rule: SendWithKey_sent [OF send])
    case (1 e)
    then show ?thesis by (simp add: out)
  next
    case (2 r)
    have plain: "posts_event parse lib url m q" if "no_redirects reply" "q \<in> set (wi_Sent w)" for q
      using chained_plain [OF 2(3) that] 2(1) by simp
    have "\<exists>k resp. length (wi_Sent w) = Suc k \<and> reply k = Inr resp \<and> 200 \<le> hp_Status resp \<and> hp_Status resp < 300 \<and>
        (no_redirects reply \<longrightarrow> posts_event parse lib url m (wi_Sent w ! k))" if "x = Inr ()"
    proof -
      from 2(6) that obtain k resp where "length (wi_Sent w) = Suc k" "reply k = Inr resp" "200 \<le> hp_Status resp" "hp_Status resp < 300"
        by blast
      moreover from this have "wi_Sent w ! k \<in> set (wi_Sent w)" by simp
      ultimately show ?thesis using plain by blast
    qed
    moreover have "\<forall>i<length (wi_Sent w). posts_event parse lib url m (wi_Sent w ! i) \<or>
        (\<exists>j. i = Suc j \<and> redirects lib (reply j) (wi_Sent w ! j) (wi_Sent w ! i))"
      using 2(1,3) unfolding chained_def add_0 by metis
    ultimately show ?thesis unfolding out using 2(5) by blast
  qed
qed

text \<open>C9. In a round of the outbox runner with the webhook, whatever fails in the driver, at most one message is
  published. Each of its requests is its POST by https to the configured URL, or follows the request before because the
  answer to that was a redirect to its URL; all carry a key that no other message has. And a row is newly marked as delivered
  only if it is this message's and the last of the requests was answered by a status in the 200s; if the receiver redirects
  nothing, this last request is the POST itself.\<close>

theorem delivered_means_received:
  assumes "schema_ok (wdb w)" "h = \<lparr>wk_Client = Some c, wk_URL = url\<rparr>"
    and "OutboxRunner_process e has_logger limit now (publisher parse lib reply interrupt h) w = ((l, ms), w')"
  shows "length ms \<le> 1 \<and>
    (\<forall>m\<in>set ms.
      (\<forall>i<length (requests_for parse lib reply interrupt h m).
        posts_event parse lib url m (requests_for parse lib reply interrupt h m ! i) \<or>
        (\<exists>j. i = Suc j \<and> redirects lib (reply j) (requests_for parse lib reply interrupt h m ! j)
          (requests_for parse lib reply interrupt h m ! i))) \<and>
      (\<forall>q\<in>set (requests_for parse lib reply interrupt h m). \<forall>n. 0 \<le> out_ID n \<longrightarrow>
        (key_of q = outbox_key n \<longleftrightarrow> out_ID n = out_ID m))) \<and>
    (\<forall>row\<in>set (db_outbox (wdb w')). row \<notin> set (db_outbox (wdb w)) \<longrightarrow> obr_DeliveredAt row \<noteq> None \<longrightarrow>
      (\<exists>m k resp. ms = [m] \<and> out_ID m = obr_ID row \<and> length (requests_for parse lib reply interrupt h m) = Suc k \<and>
        reply k = Inr resp \<and> 200 \<le> hp_Status resp \<and> hp_Status resp < 300 \<and>
        (no_redirects reply \<longrightarrow> posts_event parse lib url m (requests_for parse lib reply interrupt h m ! k))))"
proof -
  note sent = requests_for_message [OF assms(2), of parse lib reply interrupt]
  from OutboxRunner_process_outcome [OF assms(1,3)] consider "ms = []" "wdb w' = wdb w"
    | x f where "least_by obr_ID (claimable (wnow w)) (db_outbox (wdb w)) = Some x"
        "ms = [scan_outbox (env_pg e) (claimed (wnow w) x)]"
        "db_outbox (wdb w') = update_where (\<lambda>r. obr_ID r = obr_ID x) f (db_outbox (wdb w))"
        "f = after_publish e limit now (publisher parse lib reply interrupt h) (wnow w) \<or> f = claimed (wnow w)"
    by fastforce
  then show ?thesis
  proof cases
    case 1
    then show ?thesis by simp
  next
    case (2 x f)
    let ?m = "scan_outbox (env_pg e) (claimed (wnow w) x)"
    have x: "x \<in> set (db_outbox (wdb w))" "claimable (wnow w) x" using least_by_Some [OF 2(1)] by simp_all
    have id: "out_ID ?m = obr_ID x" by (simp add: scan_outbox_def)
    have pos: "0 \<le> obr_ID x" using assms(1) x(1) by (auto simp: schema_ok_def outbox_ok_def keyed_def)
    have fresh: "row = f x" if "row \<in> set (db_outbox (wdb w'))" "row \<notin> set (db_outbox (wdb w))" for row
      using that x(1) keyed_inj [OF schema_keyed(7) [OF assms(1)] _ x(1)] by (auto simp: 2(3) update_where_def split: if_splits)
    have accepted: "publisher parse lib reply interrupt h ?m = None \<and> obr_ID (f x) = obr_ID x" if "obr_DeliveredAt (f x) \<noteq> None"
      using that x(2) 2(4) by (auto simp: after_publish_def claimed_def claimable_def pending_def Let_def
          split: option.splits sum.splits if_splits)
    have "key_of q = outbox_key n \<longleftrightarrow> out_ID n = out_ID ?m"
      if "q \<in> set (requests_for parse lib reply interrupt h ?m)" "0 \<le> out_ID n" for q n
      using sent [of ?m] that outbox_key_inj [of ?m n] pos id by auto
    moreover have "\<exists>m k resp. ms = [m] \<and> out_ID m = obr_ID row \<and> length (requests_for parse lib reply interrupt h m) = Suc k \<and>
        reply k = Inr resp \<and> 200 \<le> hp_Status resp \<and> hp_Status resp < 300 \<and>
        (no_redirects reply \<longrightarrow> posts_event parse lib url m (requests_for parse lib reply interrupt h m ! k))"
      if "row \<in> set (db_outbox (wdb w'))" "row \<notin> set (db_outbox (wdb w))" "obr_DeliveredAt row \<noteq> None" for row
      using sent [of ?m] accepted fresh [OF that(1,2)] that(3) id by (intro exI [of _ ?m]) (auto simp: 2(2))
    ultimately show ?thesis using sent [of ?m] by (simp add: 2(2))
  qed
qed

text \<open>C39. Started on a database that has some of its first migrations, none or all, as any restart or update
  finds it, the program serves only with a configuration within its bounds and on the schema that all its migrations
  and nothing else make of the first one; and it delivers the outbox only if a URL is configured that the webhook
  client accepts.\<close>

theorem started_program:
  assumes "start_program parse getenv connect ping run_sql files w = (Inr (sr, pool), w')"
    and "distinct (map ef_Name files)" "migrated_to run_sql files base n w"
  shows "1 \<le> sr_Workers sr \<and> sr_Workers sr \<le> 64 \<and> second \<le> sr_ShutdownTimeout sr \<and> sr_ShutdownTimeout sr \<le> 5 * minute \<and>
    ping pool = None \<and> mg_Versions w' = migration_files files \<and>
    replay run_sql files (migration_files files) base = Some (mg_Schema w') \<and>
    (n = length (migration_files files) \<longrightarrow> mg_Schema w' = mg_Schema w) \<and>
    (trim_space (getenv ''OUTBOX_WEBHOOK_URL'') = [] \<longrightarrow> sr_Outbox sr = None) \<and>
    (\<forall>h o'. sr_Outbox sr = Some (h, o') \<longrightarrow> CheckURL parse (wk_URL h) = Inr () \<and> wk_Client h \<noteq> None \<and>
      1 \<le> ow_RetryLimit o' \<and> OutboxRunner_start True o' = Inr o')"
proof -
  from assms(1) obtain cfg where cfg: "FromEnv parse getenv = Inr cfg" "sr = services_of cfg"
      and pool: "Open (connect (cf_DatabaseURL cfg)) ping = Inr pool" and run: "Migrate run_sql files w = (Inr (), w')"
    by (auto simp: start_program_def split: sum.splits prod.splits)
  note ok = FromEnv_ok [OF cfg(1)]
  from Migrate_progress [OF assms(2,3) run]
  have "mg_Versions w' = migration_files files" "replay run_sql files (migration_files files) base = Some (mg_Schema w')"
    by (auto simp: migrated_to_def)
  moreover from this assms(3) have "mg_Schema w' = mg_Schema w" if "n = length (migration_files files)"
    using that by (simp add: migrated_to_def)
  moreover have "ping pool = None" using pool by (auto simp: Open_def split: sum.splits option.splits)
  moreover have "cf_OutboxWebhookURL cfg = trim_space (getenv ''OUTBOX_WEBHOOK_URL'')"
    using cfg(1) by (auto simp: FromEnv_def check_config_def Let_def split: sum.splits if_splits prod.splits)
  ultimately show ?thesis using ok by (auto simp: cfg(2) services_of_def OutboxRunner_start_def millisecond_def)
qed

section \<open>Witnesses\<close>

definition message_library :: "(outbox_message, string) library" where
  "message_library = \<lparr>lb_Join = (\<lambda>base path. Inr (base @ path)), lb_Marshal = (\<lambda>m. Inr (out_Payload m)),
     lb_BadRequest = (\<lambda>_ _. None), lb_Decode = (\<lambda>b. Inr (hb_Data b)), lb_Resolve = (\<lambda>_ loc. Inr loc), lb_Trusts = (=),
     lb_Referer = (\<lambda>_ _ r. r), lb_URLError = (\<lambda>_ _ e. e)\<rparr>"

abbreviation sample_hook :: webhook where
  "sample_hook \<equiv> \<lparr>wk_Client = Some (NewClient ''https://hub''), wk_URL = ''https://hub''\<rparr>"

definition sample_round :: "(log \<times> outbox_message list) \<times> world" where
  "sample_round = OutboxRunner_process sample_env False 2 3
     (publisher secure message_library recovering (\<lambda>_. None) sample_hook) sample"

text \<open>The receiver accepts the third attempt.\<close>

lemma sample_accepted: "publisher secure message_library recovering (\<lambda>_. None) sample_hook m = None"
proof -
  have https: "CheckURL secure ''https://hub'' = Inr ()" by code_simp
  let ?do = "Client_Do message_library (scripted recovering (\<lambda>_. None)) False
      ((NewClient ''https://hub'')\<lparr>tc_BaseURL := trim_right_slash ''https://hub''\<rparr>)
      \<lparr>rq_Method = ''POST'', rq_Path = [], rq_Body = Some m, rq_Headers = [(''Idempotency-Key'', outbox_key m)]\<rparr>
      \<lparr>wi_Sent = [], wi_Waited = []\<rparr>"
  let ?r = "request_of ((NewClient ''https://hub'')\<lparr>tc_BaseURL := trim_right_slash ''https://hub''\<rparr>)
      \<lparr>rq_Method = ''POST'', rq_Path = [], rq_Body = Some m, rq_Headers = [(''Idempotency-Key'', outbox_key m)]\<rparr> ''POST''
      (trim_right_slash ''https://hub'') (out_Payload m)"
  obtain j backoff where "ends_with (\<lambda>i. verdict (lb_Decode message_library) False (reported message_library ?r recovering i))
      (\<lambda>_. None) ?r backoff (nat (max 1 (tc_Retry (NewClient ''https://hub'')))) j ?do"
    using Client_Do_ends [of message_library "(NewClient ''https://hub'')\<lparr>tc_BaseURL := trim_right_slash ''https://hub''\<rparr>"
      "\<lparr>rq_Method = ''POST'', rq_Path = [], rq_Body = Some m, rq_Headers = [(''Idempotency-Key'', outbox_key m)]\<rparr>"
      "trim_right_slash ''https://hub''" "out_Payload m" "''POST''" recovering ?r False "\<lambda>_. None"] recovering_plain
    by (auto simp: message_library_def encode_body_def)
  then have "fst ?do = Inr None"
    by (auto simp: ends_with_def verdict_recovering NewClient_def split: if_splits)
  then show ?thesis
    by (auto simp: publisher_def attempts_of_def webhook_Publish_def SendWithKey_def https and_then_def outbox_key_def err_of_def
        split: prod.split)
qed

lemma sample_round_run:
  "map out_ID (snd (fst sample_round)) = [1]" "map obr_DeliveredAt (db_outbox (wdb (snd sample_round))) = [Some 3, Some 2]"
  by (simp_all add: sample_round_def sample_accepted OutboxRunner_process_def ClaimOutbox_def stmt_def
      claim_outbox_def least_by_def claimable_def pending_def Let_def sample_db_def sample_def scan_outbox_def update_where_def
      MarkOutbox_def and_then_def update_pending_def count_where_def empty_db_def sample_env_def)

theorem delivered_means_received_witness:
  "\<exists>m k resp. snd (fst sample_round) = [m] \<and> out_ID m = 1 \<and>
     length (requests_for secure message_library recovering (\<lambda>_. None) sample_hook m) = Suc k \<and>
     recovering k = Inr resp \<and> 200 \<le> hp_Status resp \<and> hp_Status resp < 300 \<and>
     posts_event secure message_library ''https://hub'' m (requests_for secure message_library recovering (\<lambda>_. None) sample_hook m ! k)"
proof -
  obtain row rows where db: "db_outbox (wdb (snd sample_round)) = row # rows" "obr_DeliveredAt row = Some 3"
    using sample_round_run(2) by (cases "db_outbox (wdb (snd sample_round))") auto
  then have row: "row \<in> set (db_outbox (wdb (snd sample_round)))" "row \<notin> set (db_outbox (wdb sample))"
    by (auto simp: sample_db_def)
  have "schema_ok (wdb sample)" using sample_ok by simp
  moreover have "OutboxRunner_process sample_env False 2 3 (publisher secure message_library recovering (\<lambda>_. None) sample_hook) sample =
      ((fst (fst sample_round), snd (fst sample_round)), snd sample_round)" by (simp add: sample_round_def)
  ultimately show ?thesis
    using delivered_means_received [OF _ HOL.refl] row db(2) sample_round_run(1) recovering_plain by fastforce
qed

text \<open>A restart after the second migration had failed.\<close>

definition sample_start :: "((string \<times> err) + services \<times> unit) \<times> string migrated" where
  "sample_start = start_program sample_parser sample_environment (\<lambda>_. Inr ()) (\<lambda>_. None) append_sql sample_files
     ((snd sample_restarts)\<lparr>mg_Faults := []\<rparr>)"

theorem started_program_witness:
  "case fst sample_start of Inl _ \<Rightarrow> False
   | Inr (sr, _) \<Rightarrow> sr_Workers sr \<le> 64 \<and> mg_Versions (snd sample_start) = [''001.sql'', ''002.sql''] \<and>
       mg_Schema (snd sample_start) = ''ab''"
proof -
  have "(case fst sample_start of Inl _ \<Rightarrow> False | Inr _ \<Rightarrow> True)" by code_simp
  then obtain sr where sr: "fst sample_start = Inr (sr, ())" by (auto split: sum.splits)
  have files: "distinct (map ef_Name sample_files)" "migration_files sample_files = [''001.sql'', ''002.sql'']"
    by code_simp+
  have "migrated_to append_sql sample_files [] 1 ((snd sample_restarts)\<lparr>mg_Faults := []\<rparr>)"
    unfolding migrated_to_def by (simp add: sample_outcome files(2)) code_simp
  from started_program [OF _ files(1) this, of sample_parser sample_environment "\<lambda>_. Inr ()" "\<lambda>_. None" sr "()" "snd sample_start"]
    sr sample_outcome files(2) show ?thesis by (simp add: sample_start_def prod_eq_iff sample_server_def)
qed

end
