(* ===== verification/Http_Effects.thy ===== *)
theory Http_Effects
  imports Http_Access
begin

text \<open>
  What a request does to the world: a property that every call of a service keeps is kept by the whole
  server, and the answer to a request is the one of the handler it is routed to.
\<close>

section \<open>What calls and bodies keep\<close>

definition keeps_call :: "('w \<Rightarrow> bool) \<Rightarrow> ('w, 'a) call \<Rightarrow> bool" where
  "keeps_call P m \<longleftrightarrow> (\<forall>w. P w \<longrightarrow> P (snd (m w)))"

definition keeps_body :: "('w \<Rightarrow> bool) \<Rightarrow> 'w body \<Rightarrow> bool" where
  "keeps_body P b \<longleftrightarrow> (\<forall>s. P (hs_World s) \<longrightarrow> P (hs_World (snd (b s))))"

lemma keeps_bodyD: "keeps_body P b \<Longrightarrow> P (hs_World s) \<Longrightarrow> P (hs_World (snd (b s)))"
  by (simp add: keeps_body_def)

named_theorems keeping \<open>rules for what calls and bodies keep\<close>

lemma keeps_calls [keeping]: "keeps P m \<Longrightarrow> keeps_call P (calls m)"
  by (auto simp: keeps_call_def calls_def keeps_def split: prod.split)

lemma keeps_answers [keeping]: "keeps_call P (answers x)"
  by (simp add: keeps_call_def answers_def)

lemma keeps_and_call [keeping]: "keeps_call P m \<Longrightarrow> (\<And>x. keeps_call P (k x)) \<Longrightarrow> keeps_call P (and_call m k)"
  by (auto simp: keeps_call_def and_call_def split: prod.split option.split sum.split)

lemma keeps_call_if [keeping]: "(c \<Longrightarrow> keeps_call P m) \<Longrightarrow> (\<not> c \<Longrightarrow> keeps_call P n) \<Longrightarrow> keeps_call P (if c then m else n)"
  by simp

lemma keeps_call_sum [keeping]: "(\<And>e. keeps_call P (f e)) \<Longrightarrow> (\<And>x. keeps_call P (g x)) \<Longrightarrow> keeps_call P (case y of Inl e \<Rightarrow> f e | Inr x \<Rightarrow> g x)"
  by (cases y) simp_all

lemma keeps_writes [keeping]: "keeps_body P (writes f)"
  by (simp add: keeps_body_def writes_def)

lemma keeps_invoke [keeping]: "keeps_call P m \<Longrightarrow> (\<And>x. keeps_body P (k x)) \<Longrightarrow> keeps_body P (invoke m k)"
  by (auto simp: keeps_body_def keeps_call_def invoke_def split: prod.split option.split)

lemma keeps_body_if [keeping]: "(c \<Longrightarrow> keeps_body P m) \<Longrightarrow> (\<not> c \<Longrightarrow> keeps_body P n) \<Longrightarrow> keeps_body P (if c then m else n)"
  by simp

lemma keeps_body_sum [keeping]: "(\<And>e. keeps_body P (f e)) \<Longrightarrow> (\<And>x. keeps_body P (g x)) \<Longrightarrow> keeps_body P (case y of Inl e \<Rightarrow> f e | Inr x \<Rightarrow> g x)"
  by (cases y) simp_all

lemma keeps_body_option [keeping]: "keeps_body P m \<Longrightarrow> (\<And>x. y = Some x \<Longrightarrow> keeps_body P (k x)) \<Longrightarrow> keeps_body P (case y of None \<Rightarrow> m | Some x \<Rightarrow> k x)"
  by (cases y) simp_all

section \<open>What the server keeps\<close>

text \<open>Every call of a service keeps \<open>P\<close>.\<close>

definition server_keeps :: "('w \<Rightarrow> bool) \<Rightarrow> 'w server \<Rightarrow> bool" where
  "server_keeps P s \<longleftrightarrow>
     (\<forall>name tz budget email pw. keeps_call P (sv_Onboard s name tz budget email pw)) \<and>
     (\<forall>h email pw rl. keeps_call P (sv_AddMember s h email pw rl)) \<and>
     (\<forall>h email pw. keeps_call P (sv_Login s h email pw)) \<and>
     (\<forall>tok rl. keeps_call P (sv_Authorize s tok rl)) \<and> (\<forall>tok. keeps_call P (sv_Logout s tok)) \<and>
     (\<forall>h ext kind fw caps. keeps_call P (sv_Enroll s h ext kind fw caps)) \<and>
     (\<forall>i. keeps_call P (sv_Pair s i) \<and> keeps_call P (sv_Enable s i) \<and> keeps_call P (sv_Disable s i)) \<and>
     (\<forall>x. keeps_call P (sv_Record s x)) \<and> (\<forall>i a b. keeps_call P (sv_Window s i a b)) \<and>
     (\<forall>p ds. keeps_call P (sv_Draft s p ds)) \<and>
     (\<forall>i. keeps_call P (sv_Schedule s i) \<and> keeps_call P (sv_Start s i) \<and> keeps_call P (sv_Complete s i)) \<and>
     (\<forall>a xs. keeps_call P (sv_Create s a xs)) \<and> (\<forall>i k. keeps_call P (sv_Queue s i k)) \<and>
     (\<forall>i. keeps_call P (sv_Activate s i) \<and> keeps_call P (sv_Pause s i)) \<and>
     (\<forall>i. keeps_call P (sv_DeviceHousehold s i) \<and> keeps_call P (sv_PlanHousehold s i) \<and> keeps_call P (sv_AutomationHousehold s i)) \<and>
     (\<forall>m. sv_Readiness s = Some m \<longrightarrow> keeps_call P m)"

lemma keeps_guards:
  assumes "server_keeps P s"
  shows "keeps_call P (authorize s r rl)" "keeps_call P (deviceHousehold s i)" "keeps_call P (planHousehold s i)"
    "keeps_call P (automationHousehold s i)"
  using assms unfolding authorize_def deviceHousehold_def planHousehold_def automationHousehold_def scoped_def
  by (intro keeping; simp add: server_keeps_def)+

lemma keeps_steps [keeping]:
  "(\<And>i. keeps_body P (k i)) \<Longrightarrow> keeps_body P (with_id c r k)"
  "(\<And>x. keeps_body P (g x)) \<Longrightarrow> keeps_body P (with_body c first_value r g)"
  "keeps_call P m \<Longrightarrow> keeps_body P (answer_with c m status f)"
  "keeps_call P n \<Longrightarrow> keeps_body P (no_content c n)"
  unfolding with_id_def with_body_def answer_with_def no_content_def by (intro keeping; simp)+

lemma keeps_in_household:
  "server_keeps P s \<Longrightarrow> keeps_body P b \<Longrightarrow> keeps_body P (in_household s c r i rl b)"
  unfolding in_household_def authorizeHousehold_def by (intro keeping keeps_guards)

lemma keeps_requireResource:
  "server_keeps P s \<Longrightarrow> (\<And>i. keeps_call P (lookup i)) \<Longrightarrow> keeps_body P b \<Longrightarrow> keeps_body P (requireResource s c r i rl lookup b)"
  unfolding requireResource_def authorizeResource_def by (intro keeping keeps_guards)

lemma serve_keeps:
  assumes "server_keeps P s"
  shows "keeps_body P (serve s c e r)"
proof -
  note defs = serve_def health_ep_def ready_ep_def createHousehold_ep_def addMember_ep_def login_ep_def logout_ep_def
    enroll_ep_def deviceTransition_def telemetry_ep_def plan_ep_def planState_def automation_ep_def run_ep_def automationState_def
  have window: "keeps_body P (window_ep s c r)"
    unfolding window_ep_def using assms
    by (cases "co_ParseTime c (query_get ''start'' r)"; cases "co_ParseTime c (query_get ''end'' r)"; simp only: option.case prod.case)
      (intro keeping keeps_requireResource keeps_guards; simp add: server_keeps_def)+
  show ?thesis
    using assms window
    by (cases e; simp only: defs endpoint.case)
      (intro keeping keeps_in_household keeps_requireResource keeps_guards; simp add: server_keeps_def)+
qed

lemma mux_keeps: "server_keeps P s \<Longrightarrow> keeps_body P (mux s c r)"
  unfolding mux_def by (auto intro!: keeps_writes serve_keeps split: list.split prod.split)

text \<open>Middleware writes only to the response and the log, and draws request ids.\<close>

lemma recoverer_keeps: "keeps_body P (nxt r) \<Longrightarrow> keeps_body P (recoverer encode lg nxt r)"
  unfolding keeps_body_def
proof (intro allI impI)
  fix s :: "'a http_state"
  assume "\<forall>s. P (hs_World s) \<longrightarrow> P (hs_World (snd (nxt r s)))" "P (hs_World s)"
  then have "P (hs_World (snd (nxt r (s\<lparr>hs_Writer := push_layer (hs_Writer s)\<rparr>))))" by simp
  then show "P (hs_World (snd (recoverer encode lg nxt r s)))"
    by (auto simp: recoverer_def Let_def split: prod.split bool.split)
qed

lemma accessLog_keeps: "keeps_body P (nxt r) \<Longrightarrow> keeps_body P (accessLog lg nxt r)"
  unfolding keeps_body_def
proof (intro allI impI)
  fix s :: "'a http_state"
  assume "\<forall>s. P (hs_World s) \<longrightarrow> P (hs_World (snd (nxt r s)))" "P (hs_World s)"
  then have "P (hs_World (snd (nxt r (s\<lparr>hs_Writer := push_layer (hs_Writer s)\<rparr>))))" by simp
  then show "P (hs_World (snd (accessLog lg nxt r s)))"
    by (auto simp: accessLog_def Let_def split: prod.split bool.split)
qed

lemma Handler_keeps:
  assumes "server_keeps P s" "\<And>w. P w \<Longrightarrow> P (snd (co_UUID c w))" "P (hs_World st)"
  shows "P (hs_World (snd (Handler s c r st)))"
proof -
  let ?inner = "recoverer (co_Encode c) (sv_HasLogger s) (contentTypeJSON (limitBody (mux s c) (2 ^ 20)))"
  obtain p st' where run: "Handler s c r st = (p, st')" by fastforce
  have "keeps_body P (contentTypeJSON (limitBody (mux s c) n) r)" for n r
    using mux_keeps [OF assms(1), of c "r\<lparr>in_Limit := Some n\<rparr>"] by (simp add: keeps_body_def contentTypeJSON_def limitBody_def)
  then have inner: "keeps_body P (accessLog lg ?inner r)" for lg r
    by (intro accessLog_keeps recoverer_keeps)
  from run [unfolded Handler_def] show ?thesis
  proof (cases rule: requestID_cases)
    case (pass i v)
    have "P v" using pass(4) assms(2,3) by auto
    from keeps_bodyD [OF inner [of "sv_HasLogger s" "r\<lparr>in_RequestID := i\<rparr>"],
        of "st\<lparr>hs_World := v, hs_Writer := set_header ''X-Request-ID'' i (hs_Writer st)\<rparr>"] pass(3) \<open>P v\<close> run
    show ?thesis by simp
  next
    case (refuse u v)
    then show ?thesis using run assms(2,3) by auto
  qed
qed

section \<open>The answer is the one of the handler\<close>

lemma recoverer_answer:
  assumes "well_behaved encode (nxt r)" "fresh (hs_Writer st)" "nxt r (st\<lparr>hs_Writer := push_layer (hs_Writer st)\<rparr>) = (q, st1)"
    and "recoverer encode lg nxt r st = (p, st')"
  shows "hs_World st' = hs_World st1 \<and> wr_Status (hs_Writer st') = (if q then Some 500 else wr_Status (hs_Writer st1))"
proof (cases q)
  case False
  with assms(3,4) show ?thesis by (auto simp: recoverer_def pop_layer_def)
next
  case True
  have fp: "fresh (hs_Writer (st\<lparr>hs_Writer := push_layer (hs_Writer st)\<rparr>))" using assms(2) by (simp add: fresh_push)
  from properD [OF assms(1) fp assms(3)] True have f1: "fresh (hs_Writer st1)"
    and frame: "same_frame (push_layer (hs_Writer st)) (hs_Writer st1)" by simp_all
  then have "\<not> sl_committed (hd (wr_Layers (hs_Writer st1)))"
    by (cases "wr_Layers (hs_Writer st1)") (auto simp: same_frame_def push_layer_def fresh_def writer_ok_def)
  moreover have "wr_Status (writeError encode (ErrorString m) (hs_Writer st1)) = Some (ErrorStatus (Some (ErrorString m)))" for m
    unfolding writeError_def Let_def writeJSON_fresh [OF f1] by simp
  moreover have "ErrorStatus (Some (ErrorString m)) = 500" for m by (simp add: ErrorStatus_def ErrorCode_def Let_def)
  ultimately show ?thesis using assms(3,4) True by (auto simp: recoverer_def Let_def pop_layer_def)
qed

text \<open>The id a request gives is valid, or all the generated ones are.\<close>

definition accepted_id :: "'w codecs \<Rightarrow> http_in \<Rightarrow> bool" where
  "accepted_id c r \<longleftrightarrow> (if given_id r = [] then \<forall>w. validateRequestID (''req-'' @ fst (co_UUID c w)) = Inr ()
     else validateRequestID (given_id r) = Inr ())"

lemma Handler_answer:
  assumes "Handler s c r st = (p, st')" "blank (hs_Writer st)"
  obtains (refused) "\<not> accepted_id c r" "wr_Status (hs_Writer st') = Some 400"
      "hs_World st' \<in> {hs_World st, snd (co_UUID c (hs_World st)), snd (co_UUID c (snd (co_UUID c (hs_World st))))}"
    | (served) i q st1 st2 where "fresh (hs_Writer st1)"
      "hs_World st1 \<in> {hs_World st, snd (co_UUID c (hs_World st)), snd (co_UUID c (snd (co_UUID c (hs_World st))))}"
      "mux s c (r\<lparr>in_RequestID := i, in_Limit := Some (2 ^ 20)\<rparr>) st1 = (q, st2)" "hs_World st' = hs_World st2"
      "wr_Status (hs_Writer st') = (if q then Some 500 else wr_Status (hs_Writer st2))"
proof -
  let ?body = "contentTypeJSON (limitBody (mux s c) (2 ^ 20))"
  let ?inner = "recoverer (co_Encode c) (sv_HasLogger s) ?body"
  have f: "fresh (hs_Writer st)" using assms(2) by (simp add: fresh_def writer_ok_def)
  from assms(1) [unfolded Handler_def] show thesis
  proof (cases rule: requestID_cases)
    case (refuse u v)
    have "fresh (set_header ''X-Request-ID'' (''req-'' @ fst (co_UUID c u)) (hs_Writer st))" using f by (simp add: fresh_set_header)
    from writeJSON_fresh [OF this] have "wr_Status (hs_Writer st') = Some 400" unfolding refuse(3) writeError_def Let_def by simp
    moreover have "\<not> accepted_id c r" using refuse(1,4) by (auto simp: accepted_id_def)
    ultimately show thesis using refuse(3,5) by (intro refused) simp_all
  next
    case (pass i v)
    let ?r = "r\<lparr>in_RequestID := i\<rparr>"
    let ?st = "st\<lparr>hs_World := v, hs_Writer := set_header ''X-Request-ID'' i (hs_Writer st)\<rparr>"
    let ?st0 = "?st\<lparr>hs_Writer := push_layer (hs_Writer ?st)\<rparr>"
    let ?st1 = "?st0\<lparr>hs_Writer := push_layer (hs_Writer ?st0)\<rparr>"
    have f0: "fresh (hs_Writer ?st0)" using f by (simp add: fresh_push fresh_set_header)
    obtain q st2 where body: "?body ?r ?st1 = (q, st2)" by fastforce
    obtain p1 st3 where rec: "?inner ?r ?st0 = (p1, st3)" by fastforce
    note ans = recoverer_answer [OF well_behaved_inner f0 body rec]
    have "\<not> p1" using recoverer_settles [OF well_behaved_inner f0 rec] by blast
    with pass(3) rec have "hs_World st' = hs_World st3" "wr_Status (hs_Writer st') = wr_Status (hs_Writer st3)"
      by (auto simp: accessLog_def Let_def pop_layer_def)
    moreover have "mux s c (?r\<lparr>in_Limit := Some (2 ^ 20)\<rparr>)
        (?st1\<lparr>hs_Writer := set_header ''Content-Type'' ''application/json'' (hs_Writer ?st1)\<rparr>) = (q, st2)"
      using body by (simp add: contentTypeJSON_def limitBody_def)
    ultimately show thesis using ans f pass(4)
      by (intro served [of "?st1\<lparr>hs_Writer := set_header ''Content-Type'' ''application/json'' (hs_Writer ?st1)\<rparr>" i q st2])
        (simp_all add: fresh_push fresh_set_header)
  qed
qed

lemma writeError_status: "fresh w \<Longrightarrow> wr_Status (writeError encode e w) = Some (ErrorStatus (Some e))"
  by (simp add: writeError_def Let_def writeJSON_fresh)

lemma WriteHeader_status: "fresh w \<Longrightarrow> wr_Status (WriteHeader code w) = Some code"
  by (simp add: WriteHeader_fresh)

text \<open>What an action's result is answered with.\<close>

definition outcome_status :: "err + 'a \<Rightarrow> nat \<Rightarrow> nat" where
  "outcome_status x success = (case x of Inl e \<Rightarrow> ErrorStatus (Some e) | Inr _ \<Rightarrow> success)"

lemma no_content_answer:
  assumes "fresh (hs_Writer st)" "m (hs_World st) = (x, w')"
  shows "no_content c (calls m) st = (False, st\<lparr>hs_World := w', hs_Writer := (case x of
      Inl e \<Rightarrow> writeError (co_Encode c) e | Inr _ \<Rightarrow> WriteHeader 204) (hs_Writer st)\<rparr>)"
    and "wr_Status (hs_Writer (snd (no_content c (calls m) st))) = Some (outcome_status x 204)"
  using assms by (cases x; simp add: no_content_def invoke_def calls_def writes_def outcome_status_def
      writeError_status WriteHeader_status)+

lemma outcome_status_success: "outcome_status x success = success \<Longrightarrow> success < 400 \<Longrightarrow> \<exists>y. x = Inr y"
proof (cases x)
  case (Inl e)
  then show "outcome_status x success = success \<Longrightarrow> success < 400 \<Longrightarrow> ?thesis"
    using ErrorStatus_cases [of "Some e"] by (auto simp: outcome_status_def)
qed simp

lemma start_state_parts [simp]: "blank (hs_Writer (start_state w))" "hs_World (start_state w) = w"
  by (simp_all add: start_state_def)

end
