(* ===== verification/System.thy ===== *)
theory System
  imports Http_Effects Server_Main Upkeep_Service
begin

text \<open>
  The running system: requests to the HTTP server, ticks of the automation worker, of the outbox worker
  and of the scheduler, in any order on one database, as \<^verbatim>\<open>cmd/server/main.go\<close> starts them. Whatever
  they do is a sequence of calls of the repository, so that what holds for every such sequence holds for
  the system; from this follow properties from a request to a later one.
\<close>

section \<open>Events\<close>

text \<open>What the services are built on: \<open>dp_Clock\<close> is the wall clock, \<open>dp_RetryLimit\<close> the one of the outbox.
  What the random source yields while a request is served comes with the request.\<close>

record deployment =
  dp_Env :: env
  dp_Lower :: "string \<Rightarrow> string"
  dp_Zone :: "string \<Rightarrow> bool"
  dp_Clock :: "world \<Rightarrow> time"
  dp_Ready :: "(world, unit) action"
  dp_Codecs :: "world codecs"
  dp_RetryLimit :: int

definition server_of :: "deployment \<Rightarrow> world crypto \<Rightarrow> world server" where
  "server_of d cr = repo_server (dp_Env d) (dp_Lower d) (dp_Zone d) cr (dp_Clock d) (dp_Ready d)"

text \<open>The status a request is answered with, and the world after it.\<close>

definition respond :: "deployment \<Rightarrow> world crypto \<Rightarrow> http_in \<Rightarrow> world \<Rightarrow> nat option \<times> world" where
  "respond d cr r w = (case snd (Handler (server_of d cr) (dp_Codecs d) r (start_state w)) of st' \<Rightarrow> (wr_Status (hs_Writer st'), hs_World st'))"

text \<open>Between the events the server's clock moves and the outcomes of the coming driver calls are drawn.\<close>

datatype system_event =
    Serve "world crypto" http_in
  | WorkerTick time "err option"
  | OutboxTick time "outbox_message \<Rightarrow> err option"
  | MaintenanceTick
  | Outside time "err option list"

fun system_step :: "deployment \<Rightarrow> system_event \<Rightarrow> world \<Rightarrow> world" where
  "system_step d (Serve cr r) w = snd (respond d cr r w)"
| "system_step d (WorkerTick now ctx_err) w = snd (Runner_process True (wall_clock (dp_Clock d)) now ctx_err w)"
| "system_step d (OutboxTick now publish) w = snd (OutboxRunner_process (dp_Env d) True (dp_RetryLimit d) now publish w)"
| "system_step d MaintenanceTick w = snd (Scheduler_RunOnce (Some (Some (repo_maintenance, wall_clock (dp_Clock d)))) w)"
| "system_step d (Outside t fs) w = w\<lparr>wnow := t, wfaults := fs\<rparr>"

definition system_run :: "deployment \<Rightarrow> system_event list \<Rightarrow> world \<Rightarrow> world" where
  "system_run d = fold (system_step d)"

text \<open>Request ids, the readiness check and the random source do not write to the database, and a new id
  satisfies \<open>known\<close>.\<close>

definition quiet :: "deployment \<Rightarrow> bool" where
  "quiet d \<longleftrightarrow> (\<forall>w. wdb (snd (dp_Ready d w)) = wdb w) \<and> (\<forall>w. wdb (snd (co_UUID (dp_Codecs d) w)) = wdb w)"

definition draws :: "(string \<Rightarrow> bool) \<Rightarrow> world crypto \<Rightarrow> bool" where
  "draws known cr \<longleftrightarrow> (\<forall>n w. wdb (snd (cr_rand cr n w)) = wdb w) \<and> (\<forall>w. wdb (snd (cr_uuid cr w)) = wdb w) \<and>
     (\<forall>w. known (fst (cr_uuid cr w)))"

definition event_draws :: "(string \<Rightarrow> bool) \<Rightarrow> system_event \<Rightarrow> bool" where
  "event_draws known ev = (case ev of Serve cr r \<Rightarrow> draws known cr | _ \<Rightarrow> True)"

section \<open>Sequences of calls\<close>

text \<open>Sessions are created only with ids that satisfy \<open>known\<close>.\<close>

definition permitted :: "(string \<Rightarrow> bool) \<Rightarrow> repo_call \<Rightarrow> bool" where
  "permitted known c = (case c of Call_CreateSession s \<Rightarrow> known (ses_ID s) | _ \<Rightarrow> True)"

definition follows :: "env \<Rightarrow> (string \<Rightarrow> bool) \<Rightarrow> world \<Rightarrow> world \<Rightarrow> bool" where
  "follows e known b w \<longleftrightarrow> (\<exists>cs. list_all (\<lambda>x. permitted known (fst x)) cs \<and> wdb w = wdb (run_calls e cs b))"

lemma follows_self: "wdb w = wdb b \<Longrightarrow> follows e known b w"
  by (auto simp: follows_def intro: exI [of _ "[]"])

lemma follows_cong: "follows e known b w \<Longrightarrow> wdb w' = wdb w \<Longrightarrow> follows e known b w'"
  by (simp add: follows_def)

lemma run_calls_append: "run_calls e (cs @ ds) w = run_calls e ds (run_calls e cs w)"
  by (induction cs arbitrary: w) (auto split: prod.splits)

lemma follows_call:
  assumes "follows e known b w" "permitted known c" "wdb w' = wdb (snd (run_call e c w))"
  shows "follows e known b w'"
proof -
  from assms(1) obtain cs where cs: "list_all (\<lambda>x. permitted known (fst x)) cs" "wdb w = wdb (run_calls e cs b)"
    by (auto simp: follows_def)
  then have "(run_calls e cs b)\<lparr>wnow := wnow w, wfaults := wfaults w\<rparr> = w" by simp
  then have "wdb w' = wdb (run_calls e (cs @ [(c, wnow w, wfaults w)]) b)"
    using assms(3) by (simp add: run_calls_append)
  with cs(1) assms(2) show ?thesis by (auto simp: follows_def intro!: exI [of _ "cs @ [(c, wnow w, wfaults w)]"])
qed

section \<open>Services follow the repository\<close>

named_theorems following \<open>rules for actions whose effect is a sequence of calls\<close>

declare keeps_ret [following] keeps_fail [following] keeps_map_err [following] keeps_and_then [following] keeps_if [following]

lemma keeps_case_sum [following]: "(\<And>e. keeps P (f e)) \<Longrightarrow> (\<And>x. keeps P (g x)) \<Longrightarrow> keeps P (case y of Inl e \<Rightarrow> f e | Inr x \<Rightarrow> g x)"
  by (cases y) simp_all

lemma keeps_case_prod [following]: "(\<And>x y. keeps P (f x y)) \<Longrightarrow> keeps P (case z of (x, y) \<Rightarrow> f x y)"
  by (cases z) simp

lemma keeps_wall_clock [following]: "(\<And>now. keeps P (k now)) \<Longrightarrow> keeps P (with_now (wall_clock t) k)"
  by (simp add: keeps_def with_now_def wall_clock_def)

lemma keeps_call_of:
  assumes "permitted known c" "\<And>w. snd (m w) = snd (run_call e c w)"
  shows "keeps (follows e known b) m"
  by (rule keepsI) (rule follows_call [OF _ assms(1)], simp_all add: assms(2))

lemma keeps_read: "(\<And>w. wdb (snd (m w)) = wdb w) \<Longrightarrow> keeps (follows e known b) m"
  by (auto intro: keepsI follows_cong)

lemma calls_follow [following]:
  "keeps (follows e known b) (CreateHousehold name tz budget)"
  "keeps (follows e known b) (CreateHouseholdWithOwner name tz budget email hash)"
  "keeps (follows e known b) (AddMember h email hash rl)"
  "keeps (follows e known b) (RevokeSession (env_uuid e) tok now)"
  "keeps (follows e known b) (CreateDevice dev caps)"
  "keeps (follows e known b) (TransitionDevice i from to v)"
  "keeps (follows e known b) (InsertTelemetry (env_pg e) x)"
  "keeps (follows e known b) (CreatePlan (env_pg e) p ds)"
  "keeps (follows e known b) (SetPlanState i pfrom pto)"
  "keeps (follows e known b) (CreateAutomation a xs)"
  "keeps (follows e known b) (SetAutomationState i afrom ato)"
  "keeps (follows e known b) (QueueRun i key)"
  "keeps (follows e known b) ClaimRun"
  "keeps (follows e known b) (FinishRun i state cause now)"
  "keeps (follows e known b) (RequeueRun i)"
  "keeps (follows e known b) (ExecuteAutomationRun i now)"
  "keeps (follows e known b) (ClaimOutbox (env_pg e))"
  "keeps (follows e known b) (MarkOutbox i delivered now)"
  "keeps (follows e known b) (MarkOutboxFailed i reason)"
  "keeps (follows e known b) (RescheduleOutbox (env_pg e) (env_quoted e) i attempt now problem)"
  "keeps (follows e known b) (VacuumSessions now)"
  "keeps (follows e known b) (ExpirePlans now)"
  "keeps (follows e known b) (FinishStaleRuns now)"
  by (rule keeps_call_of [of _ "Call_CreateHousehold name tz budget"] keeps_call_of [of _ "Call_CreateHouseholdWithOwner name tz budget email hash"]
      keeps_call_of [of _ "Call_AddMember h email hash rl"] keeps_call_of [of _ "Call_RevokeSession tok now"]
      keeps_call_of [of _ "Call_CreateDevice dev caps"] keeps_call_of [of _ "Call_TransitionDevice i from to v"]
      keeps_call_of [of _ "Call_InsertTelemetry x"] keeps_call_of [of _ "Call_CreatePlan p ds"] keeps_call_of [of _ "Call_SetPlanState i pfrom pto"]
      keeps_call_of [of _ "Call_CreateAutomation a xs"] keeps_call_of [of _ "Call_SetAutomationState i afrom ato"]
      keeps_call_of [of _ "Call_QueueRun i key"] keeps_call_of [of _ Call_ClaimRun] keeps_call_of [of _ "Call_FinishRun i state cause now"]
      keeps_call_of [of _ "Call_RequeueRun i"] keeps_call_of [of _ "Call_ExecuteAutomationRun i now"] keeps_call_of [of _ Call_ClaimOutbox]
      keeps_call_of [of _ "Call_MarkOutbox i delivered now"] keeps_call_of [of _ "Call_MarkOutboxFailed i reason"]
      keeps_call_of [of _ "Call_RescheduleOutbox i attempt now problem"] keeps_call_of [of _ "Call_DeleteExpiredSessions now"]
      keeps_call_of [of _ "Call_ExpirePlans now"] keeps_call_of [of _ "Call_FinishStaleRuns now"];
      simp add: permitted_def snd_discard VacuumSessions_def; fail)+

lemma reads_follow [following]:
  "keeps (follows e known b) (GetDevice i)" "keeps (follows e known b) (GetPlan i)" "keeps (follows e known b) (GetAutomation i)"
  "keeps (follows e known b) (FindMember h email)" "keeps (follows e known b) (GetSession uuid tok)"
  "keeps (follows e known b) (MemberByID i)" "keeps (follows e known b) (TelemetryWindow i t1 t2)"
  "keeps (follows e known b) (DeviceHousehold i)" "keeps (follows e known b) (PlanHousehold i)"
  "keeps (follows e known b) (AutomationHousehold i)"
  by (rule keeps_read; simp add: GetDevice_def GetPlan_def GetAutomation_def FindMember_def TelemetryWindow_def
      DeviceHousehold_def PlanHousehold_def AutomationHousehold_def resource_household_def)+

lemma hashPassword_follows [following]:
  "draws known' cr \<Longrightarrow> keeps (follows e known b) (hashPassword cr pw)"
  unfolding hashPassword_def by (intro following keeps_read) (simp add: draws_def)

lemma Login_follows:
  assumes "draws known cr"
  shows "keeps (follows e known b)
    (Login u cr (repo_auth (env_uuid e)) (wall_clock t) ttl h email pw)"
proof -
  let ?P = "follows e known b"
  have create: "keeps ?P (\<lambda>w. case cr_uuid cr w of (i, w') \<Rightarrow>
      let sess = \<lparr>ses_ID = i, ses_MemberID = mem_ID m, ses_ExpiresAt = now + ttl, ses_RevokedAt = None, ses_CreatedAt = now\<rparr> in
      and_then (map_err (wrap_op ''create session'') (CreateSession (env_uuid e) sess)) (\<lambda>_. ret (sess, m)) w')" for m now
  proof (rule keepsI)
    fix w
    assume w: "?P w"
    obtain i w1 where g: "cr_uuid cr w = (i, w1)" by fastforce
    let ?sess = "\<lparr>ses_ID = i, ses_MemberID = mem_ID m, ses_ExpiresAt = now + ttl, ses_RevokedAt = None, ses_CreatedAt = now\<rparr>"
    have "wdb w1 = wdb w" "known i" using assms g by (auto simp: draws_def) (metis fst_conv snd_conv)+
    then have "?P w1" "permitted known (Call_CreateSession ?sess)" using w by (auto intro: follows_cong simp: permitted_def)
    then have "keeps ?P (CreateSession (env_uuid e) ?sess)"
      by (intro keeps_call_of [where c = "Call_CreateSession ?sess"]) simp_all
    then have "keeps ?P (and_then (map_err (wrap_op ''create session'') (CreateSession (env_uuid e) ?sess)) (\<lambda>_. ret (?sess, m)))"
      by (intro following)
    with \<open>?P w1\<close> show "?P (snd (case cr_uuid cr w of (i, w') \<Rightarrow>
      let sess = \<lparr>ses_ID = i, ses_MemberID = mem_ID m, ses_ExpiresAt = now + ttl, ses_RevokedAt = None, ses_CreatedAt = now\<rparr> in
      and_then (map_err (wrap_op ''create session'') (CreateSession (env_uuid e) sess)) (\<lambda>_. ret (sess, m)) w'))"
      by (simp add: g keepsD Let_def)
  qed
  show ?thesis
    unfolding Login_def repo_auth_def auth_repo.simps by (intro following create)
qed

lemma check_actions_follows: "keeps (follows e known b) (check_actions repo_automations h valid xs)"
proof (induction xs arbitrary: valid)
  case Nil
  then show ?case by (simp add: keeps_def)
next
  case (Cons x xs)
  then show ?case
    by (simp only: check_actions.simps Let_def repo_automations_def automation_repo.simps)
      (intro following; simp add: repo_automations_def)
qed

lemmas service_defs = Onboard_def Add_member_def Authorize_def Logout_def Enroll_def Pair_device_def Pair_write_def
  Enable_def Enable_write_def Disable_def Disable_write_def Record_telemetry_def Window_def Draft_def Schedule_plan_def
  Start_plan_def Complete_plan_def Create_automation_def Queue_def Activate_def Pause_def

lemmas repo_defs = repo_auth_def repo_households_def repo_devices_def repo_plans_def repo_automations_def
  auth_repo.simps household_repo.simps device_repo.simps plan_repo.simps automation_repo.simps

lemma services_follow:
  fixes b :: world and e :: env
  assumes "draws known cr"
  defines "P \<equiv> follows e known b"
  shows "keeps P (Onboard u zone cr repo_households name tz budget email pw)"
    "keeps P (Add_member u cr repo_households h email pw rl)"
    "keeps P (Authorize (repo_auth (env_uuid e)) (wall_clock t) tok rl)"
    "keeps P (Logout (repo_auth (env_uuid e)) (wall_clock t) tok)"
    "keeps P (Enroll u repo_devices h ext kind fw caps)"
    "keeps P (Pair_device repo_devices i)" "keeps P (Enable repo_devices i)" "keeps P (Disable repo_devices i)"
    "keeps P (Record_telemetry (InsertTelemetry (env_pg e)) (wall_clock t) x)"
    "keeps P (Window TelemetryWindow i t1 t2)"
    "keeps P (Draft (repo_plans (env_pg e)) (wall_clock t) p ds)"
    "keeps P (Schedule_plan (repo_plans (env_pg e)) (wall_clock t) i)"
    "keeps P (Start_plan (repo_plans (env_pg e)) (wall_clock t) i)"
    "keeps P (Complete_plan (repo_plans (env_pg e)) i)"
    "keeps P (Create_automation repo_automations a xs)"
    "keeps P (Queue repo_automations i key)" "keeps P (Activate repo_automations i)" "keeps P (Pause repo_automations i)"
  unfolding P_def service_defs Let_def repo_defs
  by (intro following hashPassword_follows [OF assms(1)] check_actions_follows [unfolded repo_automations_def])+

lemma server_follows:
  assumes "quiet d" "draws known cr"
  shows "server_keeps (follows (dp_Env d) known b) (server_of d cr)"
proof -
  let ?P = "follows (dp_Env d) known b"
  have "keeps ?P (dp_Ready d)" using assms(1) by (intro keeps_read) (simp add: quiet_def)
  note rules = keeps_calls services_follow [OF assms(2)] Login_follows [OF assms(2)] reads_follow this
  show ?thesis
    by (simp add: server_keeps_def server_of_def repo_server_def Let_def rules)
qed

section \<open>Events follow the repository\<close>

lemma respond_follows:
  assumes "quiet d" "draws known cr" "follows (dp_Env d) known b w"
  shows "follows (dp_Env d) known b (snd (respond d cr r w))"
proof -
  have "follows (dp_Env d) known b v \<Longrightarrow> follows (dp_Env d) known b (snd (co_UUID (dp_Codecs d) v))" for v
    by (rule follows_cong) (use assms(1) in \<open>simp_all add: quiet_def\<close>)
  from Handler_keeps [OF server_follows [OF assms(1,2)], of b "dp_Codecs d" "start_state w" r, OF this] assms(3)
  show ?thesis by (simp add: respond_def start_state_def)
qed

lemma Execute_follows:
  "keeps (follows e known b) (Execute repo_automations (wall_clock t) ctx i)"
  by (cases ctx) (simp_all add: Execute_def repo_automations_def keeps_wall_clock calls_follow)

lemma Runner_process_follows:
  assumes "follows e known b w"
  shows "follows e known b (snd (Runner_process g (wall_clock t) now ctx w))"
proof -
  let ?P = "follows e known b"
  have fin: "?P v \<Longrightarrow> ?P (snd (RequeueRun i v))" "?P v \<Longrightarrow> ?P (snd (FinishRun i s c now v))" for v i s c
    using calls_follow(14,15) [of e known b] by (blast dest: keepsD)+
  have run: "?P v \<Longrightarrow> Execute repo_automations (wall_clock t) ctx i v = (x, v') \<Longrightarrow> ?P v'" for v i x v'
    using keepsD [OF Execute_follows] by (metis snd_conv)
  obtain x w1 where c: "ClaimRun w = (x, w1)" by fastforce
  then have w1: "?P w1" using assms calls_follow(13) [of e known b] keepsD by (metis snd_conv)
  show ?thesis
  proof (cases x)
    case (Inl y)
    with c w1 show ?thesis by (simp add: Runner_process_def)
  next
    case (Inr r)
    obtain y w2 where ex: "Execute repo_automations (wall_clock t) ctx (run_ID r) w1 = (y, w2)" by fastforce
    from run [OF w1 ex] fin c Inr ex show ?thesis
      by (cases y) (simp_all add: Runner_process_def Let_def split_beta)
  qed
qed

lemma OutboxRunner_process_follows:
  assumes "follows e known b w"
  shows "follows e known b (snd (OutboxRunner_process e g limit now publish w))"
proof -
  let ?P = "follows e known b"
  have fin: "?P v \<Longrightarrow> ?P (snd (MarkOutbox i dl until v))" "?P v \<Longrightarrow> ?P (snd (MarkOutboxFailed i m v))"
    "?P v \<Longrightarrow> ?P (snd (RescheduleOutbox (env_pg e) (env_quoted e) i k until p v))" for v i dl m k until p
    using calls_follow(18-20) [of e known b] by (blast dest: keepsD)+
  obtain x w1 where c: "ClaimOutbox (env_pg e) w = (x, w1)" by fastforce
  then have "?P w1" using assms calls_follow(17) [of e known b] keepsD by (metis snd_conv)
  with fin c show ?thesis
    by (cases x) (simp_all add: OutboxRunner_process_def Let_def split_beta split: option.split)
qed

lemma Maintenance_follows:
  "keeps (follows e known b) (Scheduler_RunOnce (Some (Some (repo_maintenance, wall_clock t))))"
  unfolding Scheduler_RunOnce_def Maintenance_Run_def repo_maintenance_def maintenance_repo.simps option.case prod.case
  by (intro following)

lemma system_step_follows:
  assumes "quiet d" "event_draws known ev" "follows (dp_Env d) known b w"
  shows "follows (dp_Env d) known b (system_step d ev w)"
  using assms respond_follows Runner_process_follows OutboxRunner_process_follows keepsD [OF Maintenance_follows]
  by (cases ev) (auto simp: event_draws_def intro: follows_cong)

lemma system_run_follows:
  assumes "quiet d" "list_all (event_draws known) evs" "follows (dp_Env d) known b w"
  shows "follows (dp_Env d) known b (system_run d evs w)"
  using assms(2,3) unfolding system_run_def
  by (induction evs arbitrary: w) (auto intro: system_step_follows [OF assms(1)])

section \<open>Properties\<close>

text \<open>C5. Whatever requests, ticks of the workers and of the maintenance scheduler the server handles, in
  any order, what they do to the database is a sequence of calls of the repository; so the schema and
  what no call may take back hold along the whole run.\<close>

theorem system_refines_calls:
  assumes "quiet d" "list_all (event_draws (\<lambda>_. True)) evs" "schema_ok (wdb w)"
  shows "(\<exists>cs. wdb (system_run d evs w) = wdb (run_calls (dp_Env d) cs w)) \<and>
    schema_ok (wdb (system_run d evs w)) \<and> since (wdb w) (wdb (system_run d evs w))"
proof -
  from system_run_follows [OF assms(1,2) follows_self] obtain cs where
    cs: "wdb (system_run d evs w) = wdb (run_calls (dp_Env d) cs w)" by (auto simp: follows_def)
  then have "schema_ok (wdb (system_run d evs w))" "since (wdb w) (wdb (system_run d evs w))"
    using later [OF assms(3), of "dp_Env d" cs] by simp_all
  with cs show ?thesis by blast
qed

text \<open>A logout that is answered with 204 has revoked the session.\<close>

lemma logout_answer:
  assumes "quiet d" "endpoint_of r = Some (LogoutEp, tok)" "respond d cr r w = (Some 204, w')"
  obtains u where "env_uuid (dp_Env d) tok = Some u" "revoked u (wdb w')"
proof -
  let ?s = "server_of d cr" and ?c = "dp_Codecs d"
  obtain p st' where run: "Handler ?s ?c r (start_state w) = (p, st')" by fastforce
  with assms(3) have st': "wr_Status (hs_Writer st') = Some 204" "hs_World st' = w'" by (simp_all add: respond_def)
  from run start_state_parts(1) show thesis
  proof (cases rule: Handler_answer)
    case refused
    with st' show thesis by simp
  next
    case (served i q st1 st2)
    let ?r = "r\<lparr>in_RequestID := i, in_Limit := Some (2 ^ 20), in_PathID := tok\<rparr>"
    have "\<not> q" "wr_Status (hs_Writer st2) = Some 204" using served(5) st'(1) by (auto split: if_splits)
    have "logout_ep ?s ?c ?r st1 = (q, st2)"
      using served(3) assms(2) by (auto simp: mux_def endpoint_of_def serve_def split: list.splits prod.splits)
    then have body: "(if bearerSession ?r = Inr tok then no_content ?c (sv_Logout ?s tok) else writes (writeError (co_Encode ?c) ErrForbidden)) st1 = (q, st2)"
      by (auto simp: logout_ep_def split: sum.splits if_splits)
    have "bearerSession ?r = Inr tok"
    proof (rule ccontr)
      assume "bearerSession ?r \<noteq> Inr tok"
      with body have "wr_Status (hs_Writer st2) = Some (ErrorStatus (Some ErrForbidden))"
        using writeError_status [OF served(1)] by (auto simp: writes_def)
      with \<open>wr_Status (hs_Writer st2) = Some 204\<close> ErrorStatus_cases [of "Some ErrForbidden"] show False by auto
    qed
    moreover have "sv_Logout ?s tok = calls (Logout (repo_auth (env_uuid (dp_Env d))) (wall_clock (dp_Clock d)) tok)"
      by (simp add: server_of_def repo_server_def Let_def)
    ultimately have body: "no_content ?c (calls (Logout (repo_auth (env_uuid (dp_Env d))) (wall_clock (dp_Clock d)) tok)) st1 = (q, st2)"
      using body by simp
    obtain x v where l: "Logout (repo_auth (env_uuid (dp_Env d))) (wall_clock (dp_Clock d)) tok (hs_World st1) = (x, v)" by fastforce
    from no_content_answer [OF served(1), where m = "Logout (repo_auth (env_uuid (dp_Env d))) (wall_clock (dp_Clock d)) tok" and c = ?c, OF l] body
      \<open>wr_Status (hs_Writer st2) = Some 204\<close>
    have "outcome_status x 204 = 204" "hs_World st2 = v" by auto
    with outcome_status_success [of x 204] l obtain y where
      "Logout (repo_auth (env_uuid (dp_Env d))) (wall_clock (dp_Clock d)) tok (hs_World st1) = (Inr (), v)" by auto
    from Logout_Inr [OF this] \<open>hs_World st2 = v\<close> served(4) st'(2) that show thesis by metis
  qed
qed

text \<open>A request that is routed to a handler without a body of its own, in a world no request id changes.\<close>

lemma served_request:
  assumes "accepted_id (dp_Codecs d) r" "\<And>v. snd (co_UUID (dp_Codecs d) v) = v" "endpoint_of r = Some (e, seg)"
    and call: "\<And>i st. hs_World st = w \<Longrightarrow> fresh (hs_Writer st) \<Longrightarrow>
      serve (server_of d cr) (dp_Codecs d) e (r\<lparr>in_RequestID := i, in_Limit := Some (2 ^ 20), in_PathID := seg\<rparr>) st =
      no_content (dp_Codecs d) (calls m) st"
    and run: "m w = (x, w')"
  shows "respond d cr r w = (Some (outcome_status x 204), w')"
proof -
  let ?s = "server_of d cr" and ?c = "dp_Codecs d"
  obtain p st' where h: "Handler ?s ?c r (start_state w) = (p, st')" by fastforce
  from h start_state_parts(1) show ?thesis
  proof (cases rule: Handler_answer)
    case refused
    with assms(1) show ?thesis by simp
  next
    case (served i q st1 st2)
    have w: "hs_World st1 = w" using served(2) assms(2) by auto
    have "serve ?s ?c e (r\<lparr>in_RequestID := i, in_Limit := Some (2 ^ 20), in_PathID := seg\<rparr>) st1 = (q, st2)"
      using served(3) assms(3) by (auto simp: mux_def endpoint_of_def split: list.splits prod.splits)
    then have "no_content ?c (calls m) st1 = (q, st2)" using call [OF w served(1)] by simp
    with no_content_answer [OF served(1), where m = m and c = ?c and x = x and w' = w'] w run served(4,5) h
    show ?thesis by (auto simp: respond_def)
  qed
qed

text \<open>The operation behind an endpoint for devices.\<close>

definition device_command :: "endpoint \<Rightarrow> device_op option" where
  "device_command e = (case e of PairEp \<Rightarrow> Some OpPair | EnableEp \<Rightarrow> Some OpEnable | DisableEp \<Rightarrow> Some OpDisable | _ \<Rightarrow> None)"

lemma serve_device_command:
  assumes "device_command e = Some p"
  shows "serve (server_of d cr) c e r = deviceTransition (server_of d cr) c (\<lambda>i. calls (operation p repo_devices i)) r"
  using assms by (cases e) (auto simp: device_command_def serve_def server_of_def repo_server_def Let_def)

text \<open>The token is the one of a live session of a member who may act in the role.\<close>

definition live_session :: "deployment \<Rightarrow> world \<Rightarrow> string \<Rightarrow> role \<Rightarrow> member \<Rightarrow> bool" where
  "live_session d w tok required m \<longleftrightarrow> (case session_view (env_uuid (dp_Env d)) w tok of None \<Rightarrow> False
     | Some s \<Rightarrow> ses_RevokedAt s = None \<and> dp_Clock d w < ses_ExpiresAt s \<and> member_view w (ses_MemberID s) = Some m \<and>
         Member_Can m required)"

lemma bearerSession_token: "bearerSession r = Inr tok \<Longrightarrow> trim_space tok \<noteq> []"
  by (auto simp: bearerSession_def split: list.splits if_splits)

lemma DeviceHousehold_run:
  "wfaults w = [] \<Longrightarrow> 0 < i \<Longrightarrow> device_view w i = Some x \<Longrightarrow> DeviceHousehold i w = (Inr (dev_HouseholdID x), w)"
  by (simp add: DeviceHousehold_def resource_household_def query_def stmt_run map_err_def device_view_Some)

lemma authorized_device:
  assumes "wfaults w = []" "bearerSession r = Inr tok" "live_session d w tok RoleOperator m"
    and "0 < i" "device_view w i = Some x" "dev_HouseholdID x = mem_HouseholdID m" "hs_World st = w"
  shows "requireResource (server_of d cr) c r i RoleOperator (deviceHousehold (server_of d cr)) k st = k st"
proof -
  have st: "st\<lparr>hs_World := w\<rparr> = st" using assms(7) by (simp flip: assms(7))
  from assms(3) obtain s where "session_view (env_uuid (dp_Env d)) w tok = Some s" "ses_RevokedAt s = None"
    "dp_Clock d w < ses_ExpiresAt s" "member_view w (ses_MemberID s) = Some m" "Member_Can m RoleOperator"
    by (auto simp: live_session_def split: option.splits)
  from Authorize_run [where t = "dp_Clock d", OF assms(1) bearerSession_token [OF assms(2)] this] DeviceHousehold_run [OF assms(1,4,5)] assms(2,6,7)
  show ?thesis
    by (simp add: requireResource_def authorizeResource_def authorize_def deviceHousehold_def scoped_def server_of_def
        repo_server_def Let_def invoke_def and_call_def calls_def answers_def st)
qed

lemma operation_atomic:
  assumes "schema_ok (wdb w)" "operation p repo_devices i w = (Inl e, w')"
  shows "same_tables (wdb w) (wdb w')"
proof -
  have trans: "same_tables (wdb v) (wdb v')" if "schema_ok (wdb v)" "TransitionDevice i st to n v = (Inl e, v')" for v v' st to n
    using atomicD [OF atomic_run_call [of undefined "Call_TransitionDevice i st to n"], of v e v'] that by simp
  obtain x w1 where g: "GetDevice i w = (x, w1)" by fastforce
  then have w1: "wdb w1 = wdb w" using wdb_GetDevice [of i w] by simp
  show ?thesis
  proof (cases x)
    case (Inl y)
    with assms(2) g w1 show ?thesis by (simp add: operation_write and_then_def repo_devices_def)
  next
    case (Inr y)
    with assms(2) g have "write_half p repo_devices i y w1 = (Inl e, w')" by (simp add: operation_write and_then_def repo_devices_def)
    with trans [of w1] assms(1) w1 show ?thesis
      by (cases p) (auto simp: Pair_write_def Enable_write_def Disable_write_def Retire_write_def repo_devices_def conflict_def
          split: if_splits)
  qed
qed

text \<open>C7. With a live session of an operator of its household a device is paired, enabled and disabled over
  HTTP, while the driver does not fail: 204 when the device is in a state the operation starts from, and the
  device, and no other, has made the transition; 409 from any other state and 500 when the version is at
  the end of its range, and then no table has changed.\<close>

theorem device_commands_over_http:
  assumes ok: "schema_ok (wdb w)" and f: "wfaults w = []"
    and req: "accepted_id (dp_Codecs d) r" "\<And>v. snd (co_UUID (dp_Codecs d) v) = v" "endpoint_of r = Some (e, seg)"
    and "device_command e = Some p" "atoi seg = Some i" "0 < i"
    and auth: "bearerSession r = Inr tok" "live_session d w tok RoleOperator m"
    and dev: "device_view w i = Some x" "dev_HouseholdID x = mem_HouseholdID m"
  shows "case respond d cr r w of (status, w') \<Rightarrow>
    if \<exists>to. (dev_State x, to) \<in> transitions p then
      if dev_Version x = max_i64 then status = Some 500 \<and> same_tables (wdb w) (wdb w')
      else status = Some 204 \<and> (\<exists>to. (dev_State x, to) \<in> transitions p \<and>
        device_view w' = (device_view w)(i \<mapsto> x\<lparr>dev_State := to, dev_Version := dev_Version x + 1\<rparr>))
    else status = Some 409 \<and> same_tables (wdb w) (wdb w')"
proof -
  obtain y w' where run: "operation p repo_devices i w = (y, w')" by fastforce
  have "serve (server_of d cr) (dp_Codecs d) e (r\<lparr>in_RequestID := n, in_Limit := Some (2 ^ 20), in_PathID := seg\<rparr>) st =
      no_content (dp_Codecs d) (calls (operation p repo_devices i)) st" if "hs_World st = w" for n st
    using authorized_device [of w "r\<lparr>in_RequestID := n, in_Limit := Some (2 ^ 20), in_PathID := seg\<rparr>" tok d m i x st]
      f auth dev assms(7,8) that
    by (simp add: serve_device_command [OF assms(6)] deviceTransition_def with_id_def idParam_def bearerSession_def)
  from served_request [OF req this run] have ans: "respond d cr r w = (Some (outcome_status y 204), w')" by simp
  have "y = Inl a \<Longrightarrow> same_tables (wdb w) (wdb w')" for a using operation_atomic [OF ok] run by simp
  moreover note device_operation_outcome [OF ok f, where i = i and p = p, unfolded dev(1) run option.case fst_conv snd_conv]
  ultimately show ?thesis by (cases y) (auto simp: ans outcome_status_def split: if_splits)
qed

text \<open>C6. Once a logout is answered with 204, no request that bears the token of the session is served at
  an endpoint that needs a session, after any further requests and ticks: it is answered with an error and
  leaves the database as it is. The id of the session must not be drawn again.\<close>

theorem dead_session:
  assumes "quiet d"
    and out: "endpoint_of r = Some (LogoutEp, tok)" "respond d cr r w = (Some 204, w')"
    and "list_all (event_draws (\<lambda>i. env_uuid (dp_Env d) i \<noteq> env_uuid (dp_Env d) tok)) evs"
    and q: "bearerSession q = Inr tok" "endpoint_of q = Some (e, i)" "guard_of e \<notin> {Http_Access.Open, OwnSession}"
  shows "let v = system_run d evs w' in
    case respond d cr' q v of (status, v') \<Rightarrow> (\<exists>code. status = Some code \<and> 400 \<le> code) \<and> wdb v' = wdb v"
proof -
  let ?v = "system_run d evs w'" and ?uuid = "env_uuid (dp_Env d)"
  from logout_answer [OF assms(1) out] obtain u where u: "?uuid tok = Some u" "revoked u (wdb w')" .
  from system_run_follows [OF assms(1,4) follows_self] obtain cs where
    cs: "list_all (\<lambda>x. permitted (\<lambda>i. ?uuid i \<noteq> ?uuid tok) (fst x)) cs" "wdb ?v = wdb (run_calls (dp_Env d) cs w')"
    by (auto simp: follows_def)
  have "permitted (\<lambda>i. ?uuid i \<noteq> ?uuid tok) c \<Longrightarrow> \<not> recreates ?uuid u c" for c
    using u(1) by (cases c) (simp_all add: permitted_def)
  with cs u(2) have rev: "revoked u (wdb ?v)" by (auto intro!: revoked_calls simp: list_all_iff)
  have "\<not> session_admits ?uuid (dp_Clock d) (wdb ?v) tok rl m" for rl m
    using rev u(1) by (auto simp: session_admits_def session_view_def revoked_def dest: one_row_Inr split: sum.splits)
  with q have no: "\<not> (\<exists>e i. endpoint_of q = Some (e, i) \<and> granted (session_admits ?uuid (dp_Clock d) (wdb ?v))
      (device_in (wdb ?v)) (plan_in_household (wdb ?v)) (automation_in_household (wdb ?v)) e (q\<lparr>in_PathID := i\<rparr>))"
    by (auto simp: granted_def owner_admitted_def bearerSession_def split: guard.split)
  obtain p st' where run: "Handler (server_of d cr') (dp_Codecs d) q (start_state ?v) = (p, st')" by fastforce
  then have ans: "respond d cr' q ?v = (wr_Status (hs_Writer st'), hs_World st')" by (simp add: respond_def)
  from repo_access.Handler_guards [OF run [unfolded server_of_def]] assms(1) no
  show ?thesis by (auto simp: ans quiet_def Let_def)
qed

section \<open>Witnesses\<close>

text \<open>A sample deployment, in which the member of the sample has a session.\<close>

definition sample_deployment :: deployment where
  "sample_deployment = \<lparr>dp_Env = sample_env\<lparr>env_uuid := sample_uuid\<rparr>, dp_Lower = id, dp_Zone = (\<lambda>_. True), dp_Clock = (\<lambda>_. 5),
     dp_Ready = ret (), dp_Codecs = plain_codecs, dp_RetryLimit = 3\<rparr>"

definition other_crypto :: "world crypto" where
  "other_crypto = sample_crypto\<lparr>cr_uuid := (\<lambda>w. (''another'', w))\<rparr>"

lemma sample_deployment_quiet: "quiet sample_deployment"
  by (simp add: quiet_def sample_deployment_def plain_codecs_def)

lemma other_crypto_draws: "draws (\<lambda>i. sample_uuid i \<noteq> sample_uuid ''session'') other_crypto" "draws (\<lambda>_. True) other_crypto"
proof -
  have "trim_space ''another'' = ''another''" "trim_space ''session'' = ''session''" by code_simp+
  then show "draws (\<lambda>i. sample_uuid i \<noteq> sample_uuid ''session'') other_crypto" "draws (\<lambda>_. True) other_crypto"
    by (auto simp: draws_def other_crypto_def sample_crypto_def sample_uuid_def)
qed

text \<open>A login, an outbox tick and a maintenance cycle.\<close>

definition sample_events :: "system_event list" where
  "sample_events = [Serve other_crypto (sample_request ''POST'' [''v1'', ''households'', ''1'', ''sessions''] Map.empty),
     Outside 7 [], OutboxTick 8 (\<lambda>_. None), WorkerTick 9 None, MaintenanceTick]"

lemma system_refines_calls_witness:
  "schema_ok (wdb (system_run sample_deployment sample_events sample)) \<and>
   since sample_db (wdb (system_run sample_deployment sample_events sample))"
  using system_refines_calls [of sample_deployment sample_events sample] sample_ok sample_deployment_quiet other_crypto_draws
  by (simp add: sample_events_def event_draws_def)

text \<open>Logging out of the session of the sample's login.\<close>

definition sample_bearing :: "string \<Rightarrow> string list \<Rightarrow> http_in" where
  "sample_bearing meth path = sample_request meth path [''Authorization'' \<mapsto> ''Bearer session'']"

lemma sample_bearing_token: "bearerSession (sample_bearing meth path) = Inr ''session''"
proof -
  have "bearerSession (sample_bearing [] []) = Inr ''session''" by code_simp
  then show ?thesis by (simp add: bearerSession_def sample_bearing_def sample_request_def)
qed

definition sample_in :: deployment where
  "sample_in = sample_deployment\<lparr>dp_Env := sample_auth_env, dp_Clock := (\<lambda>_. 6)\<rparr>"

lemma sample_in_parts:
  "quiet sample_in" "dp_Env sample_in = sample_auth_env" "dp_Clock sample_in = (\<lambda>_. 6)" "dp_Codecs sample_in = plain_codecs"
  "env_uuid sample_auth_env = sample_uuid"
  using sample_deployment_quiet by (simp_all add: sample_in_def sample_deployment_def quiet_def sample_auth_env_def)

lemma sample_accepted_id: "accepted_id plain_codecs (sample_bearing meth path)"
proof -
  have "given_id (sample_bearing meth path) = []"
    by (simp add: given_id_def sample_bearing_def sample_request_def header_get_def)
  moreover have "validateRequestID ''req-uuid'' = Inr ()" by code_simp
  ultimately show ?thesis by (simp add: accepted_id_def plain_codecs_def)
qed

definition sample_logout_request :: http_in where
  "sample_logout_request = sample_bearing ''DELETE'' [''v1'', ''sessions'', ''session'']"

lemma sample_logout_served:
  "respond sample_in sample_crypto sample_logout_request (snd (sample_login sample_members)) =
     (Some 204, snd (sample_logout (snd (sample_login sample_members))))"
proof -
  have route: "endpoint_of sample_logout_request = Some (LogoutEp, ''session'')" by code_simp
  have "serve (server_of sample_in sample_crypto) plain_codecs LogoutEp
      (sample_logout_request\<lparr>in_RequestID := i, in_Limit := Some (2 ^ 20), in_PathID := ''session''\<rparr>) st =
    no_content plain_codecs (calls (Logout (repo_auth sample_uuid) (wall_clock (\<lambda>_. 6)) ''session'')) st" for i st
    using sample_bearing_token [of "''DELETE''" "[''v1'', ''sessions'', ''session'']"]
    by (simp add: serve_def logout_ep_def sample_logout_request_def bearerSession_def server_of_def repo_server_def Let_def sample_in_parts)
  note answer = served_request [where d = sample_in and m = "Logout (repo_auth (env_uuid sample_auth_env)) (wall_clock (\<lambda>_. 6)) ''session''",
      OF _ _ route _ outcome_pair [OF sample_logged_out, unfolded sample_logout_def], unfolded sample_in_parts, OF _ _ this]
  have "accepted_id plain_codecs sample_logout_request" "snd (co_UUID plain_codecs v) = v" for v :: world
    using sample_accepted_id by (simp_all add: sample_logout_request_def plain_codecs_def)
  from answer [OF this] show ?thesis by (simp add: outcome_status_def sample_logout_def sample_in_parts(5))
qed

lemma dead_session_witness:
  "case respond sample_in sample_crypto (sample_bearing ''POST'' [''v1'', ''devices'', ''1'', ''disable''])
       (system_run sample_in sample_events (snd (sample_logout (snd (sample_login sample_members))))) of
     (status, w') \<Rightarrow> status \<noteq> None \<and> status \<noteq> Some 204"
proof -
  have "endpoint_of sample_logout_request = Some (LogoutEp, ''session'')"
    "endpoint_of (sample_bearing ''POST'' [''v1'', ''devices'', ''1'', ''disable'']) = Some (DisableEp, ''1'')" by code_simp+
  moreover have "guard_of DisableEp \<notin> {Http_Access.Open, OwnSession}" by (simp add: guard_of_def)
  moreover have "list_all (event_draws (\<lambda>i. sample_uuid i \<noteq> sample_uuid ''session'')) sample_events"
    using other_crypto_draws by (simp add: sample_events_def event_draws_def)
  ultimately show ?thesis
    using dead_session [OF sample_in_parts(1) _ sample_logout_served, of "''session''" sample_events
        "sample_bearing ''POST'' [''v1'', ''devices'', ''1'', ''disable'']" DisableEp "''1''" sample_crypto]
      sample_bearing_token
    by (auto simp: sample_in_parts Let_def)
qed

text \<open>The enabled device of the sample is disabled with a session, and again, which is a conflict.\<close>

definition sample_sessions :: world where
  "sample_sessions = sample_members\<lparr>wdb := (wdb sample_members)\<lparr>db_sessions := [sample_session]\<rparr>\<rparr>"

lemma device_commands_over_http_witness:
  "fst (respond sample_in sample_crypto (sample_bearing ''POST'' [''v1'', ''devices'', ''1'', ''disable'']) sample_sessions) = Some 204 \<and>
   fst (respond sample_in sample_crypto (sample_bearing ''POST'' [''v1'', ''devices'', ''1'', ''pair'']) sample_sessions) = Some 409"
proof -
  have ok: "schema_ok (wdb sample_sessions)" "wfaults sample_sessions = []"
    by (simp_all add: sample_sessions_def sample_members_def sample_session_def sample_member_def sample_defs schema_ok_def table_oks keyed_def owners
        device_row_ok_def max_i64_def outbox_row_ok_def pending_def)
  have ep: "endpoint_of (sample_bearing ''POST'' [''v1'', ''devices'', ''1'', ''disable'']) = Some (DisableEp, ''1'')"
    "endpoint_of (sample_bearing ''POST'' [''v1'', ''devices'', ''1'', ''pair'']) = Some (PairEp, ''1'')"
    "atoi ''1'' = Some 1" by code_simp+
  have cmd: "device_command DisableEp = Some OpDisable" "device_command PairEp = Some OpPair" by (simp_all add: device_command_def)
  have uuid: "snd (co_UUID (dp_Codecs sample_in) v) = v" for v by (simp add: sample_in_parts plain_codecs_def)
  have live: "live_session sample_in sample_sessions ''session'' RoleOperator (member.truncate sample_member)"
    by (simp add: live_session_def session_view_def member_view_def sample_in_parts sample_uuid_def sample_trim sample_sessions_def
        sample_members_def sample_session_def sample_member_def one_row_def member.defs Member_Can_def)
  have dev: "device_view sample_sessions 1 = Some sample_device" "dev_HouseholdID sample_device = mem_HouseholdID (member.truncate sample_member)"
    "dev_State sample_device = DeviceEnabled" "dev_Version sample_device \<noteq> max_i64"
    by (simp_all add: device_view_def sample_device_def sample_defs one_row_def sample_sessions_def sample_members_def
        sample_member_def member.defs max_i64_def)
  note run = device_commands_over_http [OF ok _ uuid _ _ ep(3) _ sample_bearing_token live dev(1,2), where cr = sample_crypto, unfolded sample_in_parts(4), OF sample_accepted_id]
  from run [OF ep(1) cmd(1)] run [OF ep(2) cmd(2)] dev(3,4) show ?thesis
    by (auto simp: transitions_def split: prod.splits)
qed

end
