(* ===== verification/Spec2Isabelle.thy ===== *)
theory Spec2Isabelle
  imports Schedule Device_Service Plan_Service Automation_Service Auth_Service Circuit Gateway_Dispatch Recovery Http_Access Observability Server_Main System
begin

text \<open>
  A verification development of the smart home operations server (\<^verbatim>\<open>src/\<close>, Go).

  \<^bold>\<open>The program.\<close> Households enroll devices, collect their telemetry, plan their energy and automate them. A
  request comes in over HTTP (\<^verbatim>\<open>internal/httpapi\<close>), is authorized by a bearer session and handed to a service
  (\<^verbatim>\<open>internal/service\<close>), which applies the rules of \<^verbatim>\<open>internal/domain\<close> to the entities of \<^verbatim>\<open>internal/model\<close>
  and stores the outcome through the repository (\<^verbatim>\<open>internal/repo\<close>) in PostgreSQL (\<^verbatim>\<open>internal/db\<close>). Workers
  (\<^verbatim>\<open>internal/worker\<close>) claim queued automation runs and execute them, which puts commands into an outbox in
  the same transaction; another worker claims the messages of the outbox and sends them to a webhook
  (\<^verbatim>\<open>internal/transport\<close>); a third one expires and deletes what is old. \<^verbatim>\<open>cmd/server/main.go\<close> loads the
  configuration (\<^verbatim>\<open>internal/config\<close>), migrates the schema and starts all of these.

  \<^bold>\<open>How code becomes definitions.\<close> A struct is a record, an enumeration a datatype, a map a function or an
  association list where its order could matter, a pointer that may be nil an option. Go's \<^verbatim>\<open>int64\<close> is an integer
  with \<open>wrap64\<close> written out where an operation can leave its range; \<^verbatim>\<open>float64\<close> is the type \<open>f64\<close> of binary64
  values with rounding to nearest even; a string is the list of its bytes; a time is the distance in nanoseconds
  from Go's zero time. An operation that can fail returns a value of \<open>err + 'a\<close>, where \<open>err\<close> has the sentinels, the
  driver's errors and the wrappers of the program; one that changes state is an \<open>action\<close>, which maps a state to
  a result and the state after it, also when it fails. The world of the repository is the database, the server's
  clock and the outcomes of the driver calls to come: each of them may fail for a reason of its own, and the
  properties quantify over these outcomes. Concurrency is interleaving: reads and writes of device clients,
  critical sections of the circuit breaker and of the dispatcher, claims of workers and atomic additions are
  steps, and the properties hold for every sequence of steps.

  \<^bold>\<open>The theories.\<close>
  \<^item> \<open>Prelude\<close>, \<open>Go_Errors\<close>, \<open>Go_Float\<close>, \<open>Float_Laws\<close>, \<open>Encoding\<close>, \<open>Clocks\<close>: integers, times, strings, sorting,
    errors and actions, binary64 with its laws, decimals and base64, the clocks of \<^verbatim>\<open>service/clock.go\<close>.
  \<^item> \<open>Entities\<close>: \<^verbatim>\<open>model/model.go\<close> and \<^verbatim>\<open>clone.go\<close>. \<open>Rules\<close>, \<open>Schedule\<close>, \<open>Domain_Ops\<close>: \<^verbatim>\<open>internal/domain\<close>.
  \<^item> \<open>Database\<close>: tables, constraints, statements and \<^verbatim>\<open>WithTx\<close>; \<open>Migrations\<close>: the rest of \<^verbatim>\<open>internal/db\<close>.
    \<open>Repo_Core\<close>, \<open>Repo_Work\<close>: \<^verbatim>\<open>internal/repo\<close>, a definition per SQL statement and per method around it.
    \<open>Schema\<close>, \<open>Schema_Laws\<close>, \<open>Repo_Laws\<close>, \<open>Frames\<close>: the invariant \<open>schema_ok\<close>, the history relation \<open>since\<close>, that
    every statement and every call keeps them, and what calls leave alone. \<open>Repo_Properties\<close>: what follows.
  \<^item> \<open>Device_Service\<close>, \<open>Plan_Service\<close>, \<open>Automation_Service\<close>, \<open>Auth_Service\<close>, \<open>Upkeep_Service\<close>, \<open>Command_Service\<close>,
    \<open>Analytics\<close>: \<^verbatim>\<open>internal/service\<close> (also \<^verbatim>\<open>internal/analytics\<close> and \<^verbatim>\<open>worker/scheduler.go\<close>).
  \<^item> \<open>Circuit\<close>, \<open>Gateway_Dispatch\<close>: \<^verbatim>\<open>internal/integration\<close>. \<open>Worker\<close>, \<open>Recovery\<close>: \<^verbatim>\<open>internal/worker\<close>.
  \<^item> \<open>Http_Core\<close>: the parts of \<^verbatim>\<open>net/http\<close> in use. \<open>Http_Writer\<close>: responses and \<^verbatim>\<open>middleware.go\<close>; \<open>Http_Server\<close>:
    \<^verbatim>\<open>server.go\<close>, from the handlers of the endpoints to the routes and \<^verbatim>\<open>Handler\<close>; \<open>Http_Laws\<close>, \<open>Http_Access\<close>: what
    holds of every response, and who may change what on the server wired to the repository; \<open>Http_Effects\<close>: what a
    request keeps of the world, and that its answer is the one of its handler.
  \<^item> \<open>Transport\<close>: \<^verbatim>\<open>internal/transport\<close>. \<open>Config\<close>: \<^verbatim>\<open>internal/config\<close>. \<open>Observability\<close>: \<^verbatim>\<open>internal/observability\<close>.
    \<open>Server_Main\<close>: \<^verbatim>\<open>cmd/server/main.go\<close> and \<^verbatim>\<open>service/lifecycle.go\<close>.
  \<^item> \<open>System\<close>: what \<^verbatim>\<open>main.go\<close> sets running, as events on one database: requests, ticks of the workers and of the
    maintenance scheduler, in any order.

  \<^bold>\<open>Interfaces.\<close> What a service expects of its store is a locale, and the repository is its interpretation:
  \<open>device_store\<close>, \<open>plan_store\<close>, \<open>automation_store\<close> and \<open>auth_store\<close>; \<open>access_control\<close> is what the HTTP server expects
  of authorization, interpreted on the whole server. \<open>table_invariant\<close> carries an invariant of the database through
  statements, transactions and methods, \<open>table_view\<close> the parts of it that a call does not touch, and \<open>weak_order\<close>
  the laws of the stable sort.

  \<^bold>\<open>What is shown.\<close>
  \<^item> The database: every reachable world satisfies the schema with the separation of households; a call that fails
    changes no table; versions are used once, runs are dispatched once and as a whole, and a claimed message of the outbox
    belongs to its worker until its lease is over or it is given back.
  \<^item> The services: devices, plans and automations follow their life cycles, also under concurrent clients; sessions
    come from matching passwords and end with a logout; what a maintenance cycle and a batch of commands do.
  \<^item> The workers: a claimed run is settled, whatever the driver does, unless it fails while the last state is stored,
    which the log shows; how often a message is published at most, failures included; without failures a polling
    runner drains the outbox. With the transport: a message is marked as delivered only when the last of its requests was
    answered with a status in the 200s, all of them under a key that no other message has. That this was the POST by https
    holds as long as the receiver does not redirect: the client follows redirects, also to plain http.
  \<^item> The dispatcher: a command is sent once per key, its callers agree, and those that wait get their result, except
    when the gateway panics in the call they wait for.
  \<^item> The HTTP server: every request gets one status, panics included, and a request that changes the database
    presents a live session of the household it concerns with the role of its endpoint.
  \<^item> The running system: all it does to the database is a sequence of repository calls (\<open>system_refines_calls\<close>), so
    that the invariants above are the system's; the token of a session is dead from the answer to its logout on,
    whatever runs in between; what commands for devices answer and do over HTTP.
  \<^item> The pure algorithms: conflicts, capacity, merging of windows, buckets and percentiles against specifications.
  \<^item> The start: migrations are applied once and in order whatever fails in between; the program serves only with
    an accepted configuration on the complete schema.

  \<^bold>\<open>Bounds.\<close> Loops are structural recursions over what they iterate; the retries of the client and of the password
  derivation recurse over their number of attempts, and polling loops over the list of their ticks, so that no fuel is
  involved; the client follows nine redirects and refuses the tenth, as \<^verbatim>\<open>net/http\<close> does. That the outbox drains is shown
  for any polling that lasts one back-off and one polling gap per attempt that the pending messages have left.

  \<^bold>\<open>Parameters.\<close> What is not in the repository is an argument with its documented behaviour as hypotheses where it
  matters: JSON, \<^verbatim>\<open>url.Parse\<close>, the zone database, UUIDs, randomness and PBKDF2, the conversions of the database
  server, what the text of a migration does, and the network, which is asked for one round trip at a time: what
  \<^verbatim>\<open>http.Client\<close> makes of redirects is modelled in \<open>Transport\<close>, with the resolution of their URLs as a parameter.

  \<^bold>\<open>Not modelled.\<close> \<^verbatim>\<open>WithReadOnlyTx\<close>, \<^verbatim>\<open>ExecInTransaction\<close> and \<^verbatim>\<open>WithSerializable\<close> for callbacks with SQL of
  their own, which nothing calls; \<^verbatim>\<open>PlanTotalWatts\<close>, an exact sum of the database server; the redirects of
  \<^verbatim>\<open>http.ServeMux\<close> for unclean paths; signals, listening and shutting down; the helpers that put a request id into a
  context for logging; the durations in access logs of the server. Transactions are serializable in the program and
  do not overlap in the model; a commit that the driver reports as failed counts as not made. Times are stored in
  nanoseconds as they are given, where a \<^verbatim>\<open>TIMESTAMPTZ\<close> rounds them to microseconds, so that statements about them, as the
  expiry of a session, are exact up to one microsecond. Tests and the
  text of the SQL migrations are not Go code of the program; the constraints of the latter are in \<open>Database\<close>.
\<close>

end
